(* ===== verification/Kitsune_Prelude.thy ===== *)
theory Kitsune_Prelude
  imports Main "HOL-Library.Word" "HOL-Library.Monad_Syntax" "HOL-Library.Sublist"
begin

text \<open>
  Shared vocabulary of the development: the machine integer types of the C++ sources, byte
  buffers and the reads a pointer allows, little-endian encoding, substring search, and the
  leftmost non-overlapping substitution that both the binary patcher and the string replacer of
  \<^verbatim>\<open>src/native/src/base/misc.cpp\<close> implement.

  Conventions used by every theory:
  \<^item> \<open>u8\<close>, \<open>u16\<close>, \<open>u32\<close>, \<open>u64\<close> are the fixed-width unsigned integers; \<open>size_t\<close> is 64 bits wide
    (the LP64 targets of the program) and is written \<open>u64\<close> where its wrap-around can be
    observed and \<open>nat\<close> where it only counts the bytes of an object in memory;
  \<^item> a buffer is a \<open>byte list\<close>, a pointer into it an offset; text is a \<open>string\<close>;
  \<^item> a result of type \<open>option\<close> is \<open>None\<close> exactly where the C++ has no defined result: an access
    outside an object, a division by zero, a signed overflow, or a loop that never ends.
    Failures the program handles itself are ordinary values.
\<close>

named_theorems byte_simps \<open>reads, encodings and sizes of byte buffers\<close>
named_theorems flow_simps \<open>control-flow equations of the modelled loops\<close>

section \<open>Types\<close>

type_synonym u8 = "8 word"
type_synonym u16 = "16 word"
type_synonym u32 = "32 word"
type_synonym u64 = "64 word"
type_synonym byte = u8
type_synonym bytes = "byte list"

section \<open>Buffers\<close>

definition bytes_of :: "string \<Rightarrow> bytes" where
  "bytes_of s = map of_char s"

definition string_of :: "bytes \<Rightarrow> string" where
  "string_of bs = map (\<lambda>b. char_of (unat b)) bs"

text \<open>\<open>slice\<close> is the bytes \<open>[off, off + n)\<close>; \<open>rd\<close> is the same read when the object holds them.\<close>

definition slice :: "nat \<Rightarrow> nat \<Rightarrow> 'a list \<Rightarrow> 'a list" where
  "slice off n xs = take n (drop off xs)"

definition rd :: "'a list \<Rightarrow> nat \<Rightarrow> nat \<Rightarrow> 'a list option" where
  "rd mem off n = (if off + n \<le> length mem then Some (slice off n mem) else None)"

text \<open>\<open>wr\<close> overwrites bytes in place, as \<open>memcpy\<close> into an object does.\<close>

definition wr :: "'a list \<Rightarrow> nat \<Rightarrow> 'a list \<Rightarrow> 'a list option" where
  "wr mem off bs =
     (if off + length bs \<le> length mem
      then Some (take off mem @ bs @ drop (off + length bs) mem) else None)"

text \<open>A C string stored in a buffer ends at its first zero byte.\<close>

definition c_str :: "string \<Rightarrow> string" where
  "c_str s = takeWhile (\<lambda>c. c \<noteq> CHR 0x00) s"

lemma c_str_no_nul: "CHR 0x00 \<notin> set l \<Longrightarrow> c_str l = l"
  unfolding c_str_def takeWhile_eq_all_conv by auto

lemma length_bytes_of [simp]: "length (bytes_of s) = length s"
  by (simp add: bytes_of_def)

lemma length_string_of [simp]: "length (string_of s) = length s"
  by (simp add: string_of_def)

lemma unat_u8: "unat (b :: u8) < 256"
  using unsigned_less [of b, where ?'a = nat] by simp

lemma unat_u32: "unat (w :: u32) < 4294967296"
  using unsigned_less [of w, where ?'a = nat] by simp

lemma unat_u64: "unat (w :: u64) < 18446744073709551616"
  using unsigned_less [of w, where ?'a = nat] by simp

lemma of_char_char_of_byte [simp]: "of_char (char_of (unat (b :: byte))) = b"
proof -
  have "of_char (char_of (unat b)) = (of_nat (of_char (char_of (unat b))) :: byte)"
    by (simp only: of_nat_of_char)
  also have "of_char (char_of (unat b)) = unat b mod 256"
    by (rule of_char_of)
  also have "unat b mod 256 = unat b"
    using unat_u8 [of b] by simp
  finally show ?thesis by simp
qed

lemma char_of_of_char_byte [simp]: "char_of (unat (of_char c :: byte)) = c"
proof -
  have "unat (of_char c :: byte) = unat (of_nat (of_char c) :: byte)"
    by (simp only: of_nat_of_char)
  also have "\<dots> = of_char c"
    using nat_of_char_less_256 [of c] by (simp add: unat_of_nat)
  finally show ?thesis by simp
qed

lemma bytes_of_string_of [simp]: "bytes_of (string_of bs) = bs"
  by (simp add: bytes_of_def string_of_def comp_def)

lemma string_of_bytes_of [simp]: "string_of (bytes_of s) = s"
  by (simp add: bytes_of_def string_of_def comp_def)

lemma bytes_of_append [simp]: "bytes_of (s @ t) = bytes_of s @ bytes_of t"
  by (simp add: bytes_of_def)

lemma length_slice [byte_simps]: "length (slice off n xs) = min n (length xs - off)"
  by (simp add: slice_def)

lemma slice_append_left: "off + n \<le> length xs \<Longrightarrow> slice off n (xs @ ys) = slice off n xs"
  by (simp add: slice_def)

lemma slice_append_exact: "length xs = off \<Longrightarrow> length ys = n \<Longrightarrow> slice off n (xs @ ys @ zs) = ys"
  by (simp add: slice_def)

lemma rd_Some_iff: "rd mem off n = Some bs \<longleftrightarrow> off + n \<le> length mem \<and> bs = slice off n mem"
  by (auto simp: rd_def)

lemma rd_None_iff: "rd mem off n = None \<longleftrightarrow> length mem < off + n"
  by (auto simp: rd_def)

lemma rd_length: "rd mem off n = Some bs \<Longrightarrow> length bs = n"
  by (auto simp: rd_Some_iff length_slice)

lemma rd_append: "rd buf off n = Some d \<Longrightarrow> rd (buf @ xtra) off n = Some d"
  by (auto simp: rd_def slice_def split: if_splits)

lemma wr_length: "wr mem off bs = Some mem' \<Longrightarrow> length mem' = length mem"
  by (auto simp: wr_def split: if_splits)

lemma wr_rd: "wr mem off bs = Some mem' \<Longrightarrow> rd mem' off (length bs) = Some bs"
  by (auto simp: wr_def rd_def slice_def split: if_splits)

section \<open>Little-endian and big-endian integers\<close>

fun le_bytes :: "nat \<Rightarrow> nat \<Rightarrow> bytes" where
  "le_bytes 0 x = []"
| "le_bytes (Suc n) x = of_nat (x mod 256) # le_bytes n (x div 256)"

fun of_le :: "bytes \<Rightarrow> nat" where
  "of_le [] = 0"
| "of_le (b # bs) = unat b + 256 * of_le bs"

definition of_be :: "bytes \<Rightarrow> nat" where
  "of_be bs = of_le (rev bs)"

definition be_bytes :: "nat \<Rightarrow> nat \<Rightarrow> bytes" where
  "be_bytes n x = rev (le_bytes n x)"

definition le32 :: "u32 \<Rightarrow> bytes" where
  "le32 w = le_bytes 4 (unat w)"

definition rd_u32 :: "bytes \<Rightarrow> nat \<Rightarrow> u32 option" where
  "rd_u32 mem off = map_option (\<lambda>bs. of_nat (of_le bs)) (rd mem off 4)"

definition rd_u64 :: "bytes \<Rightarrow> nat \<Rightarrow> u64 option" where
  "rd_u64 mem off = map_option (\<lambda>bs. of_nat (of_le bs)) (rd mem off 8)"

lemma length_le_bytes [simp]: "length (le_bytes n x) = n"
  by (induction n arbitrary: x) auto

lemma of_le_le_bytes: "of_le (le_bytes n x) = x mod 256 ^ n"
proof (induction n arbitrary: x)
  case (Suc n)
  have "unat (of_nat (x mod 256) :: byte) = x mod 256"
    by (simp add: unat_of_nat)
  then show ?case
    by (simp add: Suc.IH mod_mult2_eq)
qed simp

lemma of_le_bound: "of_le bs < 256 ^ length bs"
proof (induction bs)
  case (Cons b bs)
  have "unat b < 256"
    by (rule unat_u8)
  with Cons.IH show ?case by simp
qed simp

lemma le_bytes_of_le: "le_bytes (length bs) (of_le bs) = bs"
proof (induction bs)
  case (Cons b bs)
  have "unat b < 256"
    by (rule unat_u8)
  then show ?case by (simp add: Cons.IH)
qed simp

lemma length_le32 [simp]: "length (le32 w) = 4"
  by (simp add: le32_def)

lemma of_le_le32 [simp]: "of_le (le32 w) = unat w"
  using unat_u32 [of w] by (simp add: le32_def of_le_le_bytes)

lemma rd_u32_append: "rd_u32 buf off = Some v \<Longrightarrow> rd_u32 (buf @ xtra) off = Some v"
  by (auto simp: rd_u32_def dest: rd_append)

lemma rd_u32_le32 [simp]: "rd_u32 (le32 w @ xs) 0 = Some w" "rd_u32 (le32 w) 0 = Some w"
  by (simp_all add: rd_u32_def rd_def slice_def)

lemma le32_list:
  "le32 w =
     [of_nat (unat w mod 256), of_nat (unat w div 256 mod 256),
      of_nat (unat w div 256 div 256 mod 256), of_nat (unat w div 256 div 256 div 256 mod 256)]"
proof -
  have "(4 :: nat) = Suc (Suc (Suc (Suc 0)))" by simp
  then show ?thesis unfolding le32_def by (simp only: le_bytes.simps)
qed

section \<open>Substring search and substitution\<close>

text \<open>
  \<open>memmem pat xs\<close> is the offset of the first occurrence of \<open>pat\<close>, as the library function of
  that name and \<open>std::string::find\<close> compute it.
\<close>

fun memmem :: "'a list \<Rightarrow> 'a list \<Rightarrow> nat option" where
  "memmem pat [] = (if pat = [] then Some 0 else None)"
| "memmem pat (x # xs) =
     (if take (length pat) (x # xs) = pat then Some 0 else map_option Suc (memmem pat xs))"

definition occurs_at :: "'a list \<Rightarrow> 'a list \<Rightarrow> nat \<Rightarrow> bool" where
  "occurs_at pat xs i \<longleftrightarrow> i + length pat \<le> length xs \<and> slice i (length pat) xs = pat"

lemma occurs_at_0: "occurs_at pat xs 0 \<longleftrightarrow> take (length pat) xs = pat"
  by (auto simp: occurs_at_def slice_def) (metis length_take min.cobounded1 order.trans nat_le_linear)

lemma occurs_at_Suc: "occurs_at pat (x # xs) (Suc i) \<longleftrightarrow> occurs_at pat xs i"
  by (simp add: occurs_at_def slice_def)

lemma memmem_Some:
  "memmem pat xs = Some i \<longleftrightarrow> occurs_at pat xs i \<and> (\<forall>j < i. \<not> occurs_at pat xs j)"
proof (induction xs arbitrary: i)
  case Nil
  then show ?case by (auto simp: occurs_at_def slice_def)
next
  case (Cons x xs)
  show ?case
  proof (cases "occurs_at pat (x # xs) 0")
    case True
    then show ?thesis
      by (auto simp: occurs_at_0 intro: gr0I)
  next
    case False
    then have "memmem pat (x # xs) = map_option Suc (memmem pat xs)"
      by (simp add: occurs_at_0)
    moreover have "(occurs_at pat (x # xs) i \<and> (\<forall>j < i. \<not> occurs_at pat (x # xs) j)) \<longleftrightarrow>
        (\<exists>k. i = Suc k \<and> occurs_at pat xs k \<and> (\<forall>j < k. \<not> occurs_at pat xs j))"
      using False by (cases i) (auto simp: occurs_at_Suc All_less_Suc2)
    ultimately show ?thesis
      using Cons.IH by auto
  qed
qed

lemma memmem_None: "memmem pat xs = None \<longleftrightarrow> (\<forall>i. \<not> occurs_at pat xs i)"
proof
  show "\<forall>i. \<not> occurs_at pat xs i \<Longrightarrow> memmem pat xs = None"
    using memmem_Some by (metis not_None_eq)
next
  assume none: "memmem pat xs = None"
  show "\<forall>i. \<not> occurs_at pat xs i"
  proof (rule allI, rule notI)
    fix i
    assume "occurs_at pat xs i"
    then have "memmem pat xs = Some (LEAST j. occurs_at pat xs j)"
      unfolding memmem_Some by (metis LeastI not_less_Least)
    with none show False by simp
  qed
qed

lemma memmem_bound: "memmem pat xs = Some i \<Longrightarrow> i + length pat \<le> length xs"
  by (simp add: memmem_Some occurs_at_def)

text \<open>
  Reference substitution: scan from the left, replace each occurrence that starts at or after
  the end of the previous one. For an empty pattern it is the identity.
\<close>

function subst_all :: "'a list \<Rightarrow> 'a list \<Rightarrow> 'a list \<Rightarrow> 'a list" where
  "subst_all pat rep [] = []"
| "subst_all pat rep (x # xs) =
     (if pat \<noteq> [] \<and> take (length pat) (x # xs) = pat
      then rep @ subst_all pat rep (drop (length pat) (x # xs))
      else x # subst_all pat rep xs)"
  by pat_completeness auto
termination
  by (relation "measure (\<lambda>(pat, rep, xs). length xs)") auto

declare subst_all.simps(2) [simp del]

lemma subst_all_memmem_None: "pat \<noteq> [] \<Longrightarrow> memmem pat xs = None \<Longrightarrow> subst_all pat rep xs = xs"
  by (induction xs) (auto simp: subst_all.simps(2) split: if_splits)

lemma subst_all_memmem_Some:
  "pat \<noteq> [] \<Longrightarrow> memmem pat xs = Some i \<Longrightarrow>
   subst_all pat rep xs = take i xs @ rep @ subst_all pat rep (drop (i + length pat) xs)"
proof (induction xs arbitrary: i)
  case (Cons x xs)
  show ?case
  proof (cases "take (length pat) (x # xs) = pat")
    case True
    with Cons.prems show ?thesis by (simp add: subst_all.simps(2))
  next
    case False
    with Cons.prems obtain k where "i = Suc k" "memmem pat xs = Some k" by auto
    with Cons False show ?thesis by (simp add: subst_all.simps(2))
  qed
qed simp

section \<open>Results\<close>

text \<open>A computation that may end the process.\<close>

datatype 'a run = Exit | Done 'a

text \<open>A property of every result of a computation that may have none.\<close>

definition oks :: "('a \<Rightarrow> bool) \<Rightarrow> 'a option \<Rightarrow> bool" where
  "oks P x \<longleftrightarrow> (\<forall>y. x = Some y \<longrightarrow> P y)"

lemma oks_bind: "(\<And>a. x = Some a \<Longrightarrow> oks P (f a)) \<Longrightarrow> oks P (Option.bind x f)"
  by (cases x) (auto simp: oks_def)

lemma oks_if: "(c \<Longrightarrow> oks P x) \<Longrightarrow> (\<not> c \<Longrightarrow> oks P y) \<Longrightarrow> oks P (if c then x else y)"
  by simp

lemma oks_Some: "P y \<Longrightarrow> oks P (Some y)"
  by (simp add: oks_def)

lemma oksD: "oks P x \<Longrightarrow> x = Some y \<Longrightarrow> P y"
  by (simp add: oks_def)

end
