(* ===== verification/Boot_Format.thy ===== *)
theory Boot_Format
  imports Kitsune_Prelude
begin

text \<open>
  The format detection of \<^verbatim>\<open>src/native/src/boot/format.cpp\<close> and \<^verbatim>\<open>format.hpp\<close>: the enumeration
  of boot-image, compression and miscellaneous formats, the magic numbers, the sniffing function
  \<open>check_fmt\<close>, and the name and file-extension tables. The enumeration is given its C order
  because the macros \<open>COMPRESSED\<close> and \<open>COMPRESSED_ANY\<close> compare against it.
\<close>

section \<open>Formats\<close>

datatype format_t =
    UNKNOWN
  | CHROMEOS | AOSP | AOSP_VENDOR | DHTB | BLOB
  | GZIP | ZOPFLI | XZ | LZMA | BZIP2 | LZ4 | LZ4_LEGACY | LZ4_LG
  | LZOP
  | MTK | DTB | ZIMAGE

fun format_val :: "format_t \<Rightarrow> nat" where
  "format_val UNKNOWN = 0"
| "format_val CHROMEOS = 1"
| "format_val AOSP = 2"
| "format_val AOSP_VENDOR = 3"
| "format_val DHTB = 4"
| "format_val BLOB = 5"
| "format_val GZIP = 6"
| "format_val ZOPFLI = 7"
| "format_val XZ = 8"
| "format_val LZMA = 9"
| "format_val BZIP2 = 10"
| "format_val LZ4 = 11"
| "format_val LZ4_LEGACY = 12"
| "format_val LZ4_LG = 13"
| "format_val LZOP = 14"
| "format_val MTK = 15"
| "format_val DTB = 16"
| "format_val ZIMAGE = 17"

lemma format_val_inj: "format_val f = format_val g \<Longrightarrow> f = g"
  by (cases f; cases g) simp_all

instantiation format_t :: linorder
begin

definition less_eq_format_t :: "format_t \<Rightarrow> format_t \<Rightarrow> bool" where
  "less_eq_format_t f g \<longleftrightarrow> format_val f \<le> format_val g"

definition less_format_t :: "format_t \<Rightarrow> format_t \<Rightarrow> bool" where
  "less_format_t f g \<longleftrightarrow> format_val f < format_val g"

instance
  by standard (auto simp: less_eq_format_t_def less_format_t_def intro: format_val_inj)

end

definition COMPRESSED :: "format_t \<Rightarrow> bool" where
  "COMPRESSED fmt \<longleftrightarrow> GZIP \<le> fmt \<and> fmt < LZOP"

definition COMPRESSED_ANY :: "format_t \<Rightarrow> bool" where
  "COMPRESSED_ANY fmt \<longleftrightarrow> GZIP \<le> fmt \<and> fmt \<le> LZOP"

section \<open>Magic numbers\<close>

definition BOOT_MAGIC :: bytes where "BOOT_MAGIC = bytes_of ''ANDROID!''"
definition VENDOR_BOOT_MAGIC :: bytes where "VENDOR_BOOT_MAGIC = bytes_of ''VNDRBOOT''"
definition CHROMEOS_MAGIC :: bytes where "CHROMEOS_MAGIC = bytes_of ''CHROMEOS''"
definition GZIP1_MAGIC :: bytes where "GZIP1_MAGIC = [0x1f, 0x8b]"
definition GZIP2_MAGIC :: bytes where "GZIP2_MAGIC = [0x1f, 0x9e]"
definition LZOP_MAGIC :: bytes where "LZOP_MAGIC = 0x89 # bytes_of ''LZO''"
definition XZ_MAGIC :: bytes where "XZ_MAGIC = 0xfd # bytes_of ''7zXZ''"
definition BZIP_MAGIC :: bytes where "BZIP_MAGIC = bytes_of ''BZh''"
definition LZ4_LEG_MAGIC :: bytes where "LZ4_LEG_MAGIC = [0x02, 0x21, 0x4c, 0x18]"
definition LZ41_MAGIC :: bytes where "LZ41_MAGIC = [0x03, 0x21, 0x4c, 0x18]"
definition LZ42_MAGIC :: bytes where "LZ42_MAGIC = [0x04, 0x22, 0x4d, 0x18]"
definition MTK_MAGIC :: bytes where "MTK_MAGIC = [0x88, 0x16, 0x88, 0x58]"
definition DTB_MAGIC :: bytes where "DTB_MAGIC = [0xd0, 0x0d, 0xfe, 0xed]"
definition LG_BUMP_MAGIC :: bytes where
  "LG_BUMP_MAGIC = [0x41, 0xa9, 0xe4, 0x67, 0x74, 0x4d, 0x1d, 0x1b,
                    0xa4, 0x29, 0xf2, 0xec, 0xea, 0x65, 0x52, 0x79]"
definition DHTB_MAGIC :: bytes where
  "DHTB_MAGIC = [0x44, 0x48, 0x54, 0x42, 0x01, 0x00, 0x00, 0x00]"
definition SEANDROID_MAGIC :: bytes where "SEANDROID_MAGIC = bytes_of ''SEANDROIDENFORCE''"
definition TEGRABLOB_MAGIC :: bytes where "TEGRABLOB_MAGIC = bytes_of ''-SIGNED-BY-SIGNBLOB-''"
definition NOOKHD_RL_MAGIC :: bytes where "NOOKHD_RL_MAGIC = bytes_of ''Red Loader''"
definition NOOKHD_GL_MAGIC :: bytes where "NOOKHD_GL_MAGIC = bytes_of ''Green Loader''"
definition NOOKHD_GR_MAGIC :: bytes where "NOOKHD_GR_MAGIC = bytes_of ''Green Recovery''"
definition NOOKHD_EB_MAGIC :: bytes where
  "NOOKHD_EB_MAGIC = bytes_of ''eMMC boot.img+secondloader''"
definition NOOKHD_ER_MAGIC :: bytes where
  "NOOKHD_ER_MAGIC = bytes_of ''eMMC recovery.img+secondloader''"
definition NOOKHD_PRE_HEADER_SZ :: nat where "NOOKHD_PRE_HEADER_SZ = 1048576"
definition ACCLAIM_MAGIC :: bytes where "ACCLAIM_MAGIC = bytes_of ''BauwksBoot''"
definition ACCLAIM_PRE_HEADER_SZ :: nat where "ACCLAIM_PRE_HEADER_SZ = 262144"
definition AMONET_MICROLOADER_MAGIC :: bytes where
  "AMONET_MICROLOADER_MAGIC = bytes_of ''microloader''"
definition AMONET_MICROLOADER_SZ :: nat where "AMONET_MICROLOADER_SZ = 1024"
definition AVB_FOOTER_MAGIC :: bytes where "AVB_FOOTER_MAGIC = bytes_of ''AVBf''"
definition AVB_MAGIC :: bytes where "AVB_MAGIC = bytes_of ''AVB0''"
definition ZIMAGE_MAGIC :: bytes where "ZIMAGE_MAGIC = [0x18, 0x28, 0x6f, 0x01]"

lemmas magic_defs = BOOT_MAGIC_def VENDOR_BOOT_MAGIC_def CHROMEOS_MAGIC_def GZIP1_MAGIC_def
  GZIP2_MAGIC_def LZOP_MAGIC_def XZ_MAGIC_def BZIP_MAGIC_def LZ4_LEG_MAGIC_def LZ41_MAGIC_def
  LZ42_MAGIC_def MTK_MAGIC_def DTB_MAGIC_def DHTB_MAGIC_def TEGRABLOB_MAGIC_def ZIMAGE_MAGIC_def

section \<open>Detection\<close>

text \<open>
  \<open>BUFFER_MATCH\<close> compares all the bytes of the magic, so the object has to hold them;
  \<open>CHECKED_MATCH\<close> first compares the length the caller passes. Conditions evaluate from left to
  right and stop as the C operators do.
\<close>

definition buffer_match :: "bytes \<Rightarrow> nat \<Rightarrow> bytes \<Rightarrow> bool option" where
  "buffer_match mem off s = map_option (\<lambda>b. b = s) (rd mem off (length s))"

definition buffer_contain :: "bytes \<Rightarrow> nat \<Rightarrow> nat \<Rightarrow> bytes \<Rightarrow> bool option" where
  "buffer_contain mem off sz s = map_option (\<lambda>b. memmem s b \<noteq> None) (rd mem off sz)"

definition checked_match :: "bytes \<Rightarrow> nat \<Rightarrow> nat \<Rightarrow> bytes \<Rightarrow> bool option" where
  "checked_match mem off len s = (if length s \<le> len then buffer_match mem off s else Some False)"

definition or_else :: "bool option \<Rightarrow> bool option \<Rightarrow> bool option" where
  "or_else a b = (case a of None \<Rightarrow> None | Some True \<Rightarrow> Some True | Some False \<Rightarrow> b)"

definition if_match :: "bool option \<Rightarrow> 'a option \<Rightarrow> 'a option \<Rightarrow> 'a option" where
  "if_match c t e = (case c of None \<Rightarrow> None | Some True \<Rightarrow> t | Some False \<Rightarrow> e)"

definition lzma_match :: "bytes \<Rightarrow> nat \<Rightarrow> nat \<Rightarrow> bool option" where
  "lzma_match mem off len =
     (if 13 \<le> len
      then map_option (\<lambda>b. take 3 b = [0x5d, 0x00, 0x00] \<and> (b ! 12 = 0xff \<or> b ! 12 = 0x00))
             (rd mem off 13)
      else Some False)"

definition zimage_match :: "bytes \<Rightarrow> nat \<Rightarrow> nat \<Rightarrow> bool option" where
  "zimage_match mem off len =
     (if 0x28 \<le> len then buffer_match mem (off + 0x24) ZIMAGE_MAGIC else Some False)"

definition check_fmt :: "bytes \<Rightarrow> nat \<Rightarrow> nat \<Rightarrow> format_t option" where
  "check_fmt mem off len =
     if_match (checked_match mem off len CHROMEOS_MAGIC) (Some CHROMEOS)
    (if_match (checked_match mem off len BOOT_MAGIC) (Some AOSP)
    (if_match (checked_match mem off len VENDOR_BOOT_MAGIC) (Some AOSP_VENDOR)
    (if_match (or_else (checked_match mem off len GZIP1_MAGIC)
                       (checked_match mem off len GZIP2_MAGIC)) (Some GZIP)
    (if_match (checked_match mem off len LZOP_MAGIC) (Some LZOP)
    (if_match (checked_match mem off len XZ_MAGIC) (Some XZ)
    (if_match (lzma_match mem off len) (Some LZMA)
    (if_match (checked_match mem off len BZIP_MAGIC) (Some BZIP2)
    (if_match (or_else (checked_match mem off len LZ41_MAGIC)
                       (checked_match mem off len LZ42_MAGIC)) (Some LZ4)
    (if_match (checked_match mem off len LZ4_LEG_MAGIC) (Some LZ4_LEGACY)
    (if_match (checked_match mem off len MTK_MAGIC) (Some MTK)
    (if_match (checked_match mem off len DTB_MAGIC) (Some DTB)
    (if_match (checked_match mem off len DHTB_MAGIC) (Some DHTB)
    (if_match (checked_match mem off len TEGRABLOB_MAGIC) (Some BLOB)
    (if_match (zimage_match mem off len) (Some ZIMAGE)
     (Some UNKNOWN)))))))))))))))"

section \<open>Names and extensions\<close>

fun fmt2name :: "format_t \<Rightarrow> string" where
  "fmt2name GZIP = ''gzip''"
| "fmt2name ZOPFLI = ''zopfli''"
| "fmt2name LZOP = ''lzop''"
| "fmt2name XZ = ''xz''"
| "fmt2name LZMA = ''lzma''"
| "fmt2name BZIP2 = ''bzip2''"
| "fmt2name LZ4 = ''lz4''"
| "fmt2name LZ4_LEGACY = ''lz4_legacy''"
| "fmt2name LZ4_LG = ''lz4_lg''"
| "fmt2name DTB = ''dtb''"
| "fmt2name ZIMAGE = ''zimage''"
| "fmt2name _ = ''raw''"

fun fmt2ext :: "format_t \<Rightarrow> string" where
  "fmt2ext GZIP = ''.gz''"
| "fmt2ext ZOPFLI = ''.gz''"
| "fmt2ext LZOP = ''.lzo''"
| "fmt2ext XZ = ''.xz''"
| "fmt2ext LZMA = ''.lzma''"
| "fmt2ext BZIP2 = ''.bz2''"
| "fmt2ext LZ4 = ''.lz4''"
| "fmt2ext LZ4_LEGACY = ''.lz4''"
| "fmt2ext LZ4_LG = ''.lz4''"
| "fmt2ext _ = ''''"

definition name2fmt :: "string \<Rightarrow> format_t" where
  "name2fmt name =
     (if name = ''gzip'' then GZIP
      else if name = ''zopfli'' then ZOPFLI
      else if name = ''xz'' then XZ
      else if name = ''lzma'' then LZMA
      else if name = ''bzip2'' then BZIP2
      else if name = ''lz4'' then LZ4
      else if name = ''lz4_legacy'' then LZ4_LEGACY
      else if name = ''lz4_lg'' then LZ4_LG
      else UNKNOWN)"

section \<open>Properties\<close>

lemma COMPRESSED_iff [simp]:
  "COMPRESSED fmt \<longleftrightarrow> fmt \<in> {GZIP, ZOPFLI, XZ, LZMA, BZIP2, LZ4, LZ4_LEGACY, LZ4_LG}"
  by (cases fmt) (simp_all add: COMPRESSED_def less_eq_format_t_def less_format_t_def)

lemma COMPRESSED_ANY_iff [simp]: "COMPRESSED_ANY fmt \<longleftrightarrow> COMPRESSED fmt \<or> fmt = LZOP"
  by (cases fmt) (simp_all add: COMPRESSED_ANY_def less_eq_format_t_def less_format_t_def)

text \<open>
  Inside an object that holds \<open>len\<close> bytes at \<open>off\<close>, every test is a test of the bytes alone:
  \<open>starts\<close> is the prefix test the checked comparison then amounts to.
\<close>

definition starts :: "bytes \<Rightarrow> bytes \<Rightarrow> bool" where
  "starts s b \<longleftrightarrow> take (length s) b = s"

lemma starts_length: "starts s b \<Longrightarrow> length s \<le> length b"
  by (simp add: starts_def) (metis length_take min.cobounded1)

lemma starts_Cons [simp]: "starts (x # s) (y # b) \<longleftrightarrow> x = y \<and> starts s b"
  by (auto simp: starts_def)

lemma starts_Nil [simp]: "starts [] b" "\<not> starts (x # s) []"
  by (simp_all add: starts_def)

lemma checked_match_in:
  assumes "off + len \<le> length mem"
  shows "checked_match mem off len s = Some (starts s (slice off len mem))"
proof (cases "length s \<le> len")
  case True
  then show ?thesis
    using assms by (simp add: checked_match_def buffer_match_def rd_def slice_def starts_def min_absorb1)
next
  case False
  then have "\<not> starts s (slice off len mem)"
    using assms starts_length [of s "slice off len mem"] by (auto simp: length_slice)
  with False show ?thesis by (simp add: checked_match_def)
qed

definition has_lzma :: "bytes \<Rightarrow> bool" where
  "has_lzma b \<longleftrightarrow> 13 \<le> length b \<and> take 3 b = [0x5d, 0x00, 0x00] \<and> (b ! 12 = 0xff \<or> b ! 12 = 0x00)"

definition has_zimage :: "bytes \<Rightarrow> bool" where
  "has_zimage b \<longleftrightarrow> 0x28 \<le> length b \<and> slice 0x24 (length ZIMAGE_MAGIC) b = ZIMAGE_MAGIC"

lemma lzma_match_in:
  "off + len \<le> length mem \<Longrightarrow> lzma_match mem off len = Some (has_lzma (slice off len mem))"
  by (auto simp: lzma_match_def has_lzma_def rd_def slice_def min_def)

lemma zimage_match_in:
  "off + len \<le> length mem \<Longrightarrow> zimage_match mem off len = Some (has_zimage (slice off len mem))"
  by (auto simp: zimage_match_def has_zimage_def buffer_match_def rd_def slice_def
      ZIMAGE_MAGIC_def drop_take add.commute)

text \<open>
  The table the detection implements: which magic numbers announce which format.
\<close>

fun magics :: "format_t \<Rightarrow> bytes list" where
  "magics CHROMEOS = [CHROMEOS_MAGIC]"
| "magics AOSP = [BOOT_MAGIC]"
| "magics AOSP_VENDOR = [VENDOR_BOOT_MAGIC]"
| "magics GZIP = [GZIP1_MAGIC, GZIP2_MAGIC]"
| "magics LZOP = [LZOP_MAGIC]"
| "magics XZ = [XZ_MAGIC]"
| "magics BZIP2 = [BZIP_MAGIC]"
| "magics LZ4 = [LZ41_MAGIC, LZ42_MAGIC]"
| "magics LZ4_LEGACY = [LZ4_LEG_MAGIC]"
| "magics MTK = [MTK_MAGIC]"
| "magics DTB = [DTB_MAGIC]"
| "magics DHTB = [DHTB_MAGIC]"
| "magics BLOB = [TEGRABLOB_MAGIC]"
| "magics _ = []"

definition announces :: "format_t \<Rightarrow> bytes \<Rightarrow> bool" where
  "announces fmt b \<longleftrightarrow> (\<exists>s \<in> set (magics fmt). starts s b) \<or> (fmt = LZMA \<and> has_lzma b)"

definition detect_order :: "format_t list" where
  "detect_order = [CHROMEOS, AOSP, AOSP_VENDOR, GZIP, LZOP, XZ, LZMA, BZIP2, LZ4, LZ4_LEGACY,
     MTK, DTB, DHTB, BLOB]"

lemma if_match_Some [simp]: "if_match (Some c) t e = (if c then t else e)"
  by (simp add: if_match_def split: bool.split)

lemma or_else_Some [simp]: "or_else (Some a) (Some b) = Some (a \<or> b)"
  by (simp add: or_else_def split: bool.split)

lemma check_fmt_in:
  assumes "off + len \<le> length mem"
  shows "check_fmt mem off len = Some
    (case find (\<lambda>f. announces f (slice off len mem)) detect_order of
       Some f \<Rightarrow> f
     | None \<Rightarrow> if has_zimage (slice off len mem) then ZIMAGE else UNKNOWN)"
  unfolding check_fmt_def checked_match_in [OF assms] lzma_match_in [OF assms]
    zimage_match_in [OF assms] or_else_Some if_match_Some
  by (simp add: detect_order_def announces_def if_distrib [of "case_option _ _"] if_distrib [of Some]
      cong: if_cong)

definition first_fmt :: "byte \<Rightarrow> format_t" where
  "first_fmt x =
     (if x = 0x43 then CHROMEOS else if x = 0x41 then AOSP else if x = 0x56 then AOSP_VENDOR
      else if x = 0x1f then GZIP else if x = 0x89 then LZOP else if x = 0xfd then XZ
      else if x = 0x5d then LZMA else if x = 0x42 then BZIP2 else if x = 0x03 \<or> x = 0x04 then LZ4
      else if x = 0x02 then LZ4_LEGACY else if x = 0x88 then MTK else if x = 0xd0 then DTB
      else if x = 0x44 then DHTB else if x = 0x2d then BLOB else UNKNOWN)"

lemma has_lzma_Cons: "has_lzma (x # xs) \<Longrightarrow> x = 0x5d"
  by (simp add: has_lzma_def)

lemma not_announces_Nil [simp]: "\<not> announces f []"
  by (cases f) (simp_all add: announces_def has_lzma_def magic_defs bytes_of_def)

lemma announces_first: "announces f (x # xs) \<Longrightarrow> first_fmt x = f"
  by (cases f) (auto simp: announces_def magic_defs bytes_of_def first_fmt_def dest: has_lzma_Cons)

lemma announces_unique: "announces f b \<Longrightarrow> announces g b \<Longrightarrow> f = g"
  by (cases b) (auto dest: announces_first)

lemma announces_in_order: "announces f b \<Longrightarrow> f \<in> set detect_order"
  by (cases f) (auto simp: announces_def detect_order_def)

lemma find_announces:
  "find (\<lambda>f. announces f b) detect_order = Some g \<longleftrightarrow> announces g b"
proof
  assume "find (\<lambda>f. announces f b) detect_order = Some g"
  then show "announces g b"
    by (auto simp: find_Some_iff)
next
  assume g: "announces g b"
  then obtain h where h: "find (\<lambda>f. announces f b) detect_order = Some h"
    by (metis announces_in_order find_None_iff not_None_eq)
  then have "announces h b"
    by (auto simp: find_Some_iff)
  with g h show "find (\<lambda>f. announces f b) detect_order = Some g"
    by (metis announces_unique)
qed

lemma not_announces_trivial [simp]: "\<not> announces UNKNOWN b" "\<not> announces ZIMAGE b"
  by (simp_all add: announces_def)

lemma check_fmt_announces:
  assumes "off + len \<le> length mem"
  shows "check_fmt mem off len =
    (if \<exists>g. announces g (slice off len mem) then Some (THE g. announces g (slice off len mem))
     else Some (if has_zimage (slice off len mem) then ZIMAGE else UNKNOWN))"
proof (cases "find (\<lambda>f. announces f (slice off len mem)) detect_order")
  case None
  then have "\<not> announces g (slice off len mem)" for g
    using find_announces [of "slice off len mem" g] by auto
  with None show ?thesis by (simp add: check_fmt_in [OF assms])
next
  case (Some f)
  then have f: "announces f (slice off len mem)"
    by (simp add: find_announces)
  then have "(THE g. announces g (slice off len mem)) = f"
    by (blast intro: announces_unique)
  with Some f show ?thesis by (auto simp: check_fmt_in [OF assms])
qed

text \<open>C18: within an object that holds the announced length, \<open>check_fmt\<close> always returns, and it
  returns a format other than the two fallbacks exactly when the bytes carry one of that format's
  magic numbers: the order of the tests never matters, because no two formats share a magic.\<close>

theorem check_fmt_exact:
  assumes "off + len \<le> length mem" and "fmt \<noteq> UNKNOWN" and "fmt \<noteq> ZIMAGE"
  shows "(\<exists>f. check_fmt mem off len = Some f) \<and>
    (check_fmt mem off len = Some fmt \<longleftrightarrow> announces fmt (slice off len mem))"
  using assms(2,3) unfolding check_fmt_announces [OF assms(1)]
  by (auto dest: announces_unique intro: the_equality split: if_splits) (metis announces_unique the_equality)+

theorem check_fmt_exact_witness:
  "check_fmt [0x02, 0x21, 0x4c, 0x18, 0x00] 0 5 = Some LZ4_LEGACY"
proof -
  have "announces LZ4_LEGACY (slice 0 5 [0x02, 0x21, 0x4c, 0x18, 0x00])"
    by (simp add: announces_def slice_def LZ4_LEG_MAGIC_def)
  then show ?thesis
    using check_fmt_exact [of 0 5 "[0x02, 0x21, 0x4c, 0x18, 0x00]" LZ4_LEGACY] by simp
qed

text \<open>The name table is a bijection between the supported compression formats and their
  command-line names: looking up the name of a format gives the format back, and every name that is
  recognised is the name of a compression format.\<close>

theorem name2fmt_fmt2name:
  "(COMPRESSED fmt \<longrightarrow> name2fmt (fmt2name fmt) = fmt) \<and>
   (name2fmt name \<noteq> UNKNOWN \<longrightarrow>
      fmt2name (name2fmt name) = name \<and> COMPRESSED (name2fmt name))"
  by (auto simp: name2fmt_def)

theorem name2fmt_fmt2name_witness:
  "name2fmt ''lz4_legacy'' = LZ4_LEGACY \<and> fmt2name (name2fmt ''lz4_legacy'') = ''lz4_legacy''"
  using name2fmt_fmt2name [of LZ4_LEGACY "''lz4_legacy''"] by simp

end
