(* ===== verification/Base_Misc.thy ===== *)
theory Base_Misc
  imports Kitsune_Prelude
begin

text \<open>
  The helpers of \<^verbatim>\<open>src/native/src/base/misc.cpp\<close> and \<^verbatim>\<open>misc.hpp\<close>: views and in-place patching of
  byte buffers, number parsing, string replacement, splitting and trimming, bounded formatting,
  and the descriptor bookkeeping of \<open>exec_command\<close> and \<open>switch_mnt_ns\<close>.

  Loops that can run forever are partial functions into \<open>option\<close>: \<open>patch\<close> and \<open>replace_all\<close>
  never advance when the pattern is empty.
\<close>

section \<open>Byte views\<close>

text \<open>A \<open>byte_view\<close> is a pointer and a size; \<open>None\<close> is the null pointer with size zero.\<close>

type_synonym byte_view = "bytes option"

definition bv_bytes :: "byte_view \<Rightarrow> bytes" where
  "bv_bytes v = (case v of None \<Rightarrow> [] | Some b \<Rightarrow> b)"

definition bv_contains :: "byte_view \<Rightarrow> byte_view \<Rightarrow> bool" where
  "bv_contains v pattern = (v \<noteq> None \<and> memmem (bv_bytes pattern) (bv_bytes v) \<noteq> None)"

definition bv_equals :: "byte_view \<Rightarrow> byte_view \<Rightarrow> bool" where
  "bv_equals v o' \<longleftrightarrow> length (bv_bytes v) = length (bv_bytes o') \<and> bv_bytes v = bv_bytes o'"

definition bv_clone :: "byte_view \<Rightarrow> byte_view" where
  "bv_clone v = Some (bv_bytes v)"

definition bd_swap :: "byte_view \<times> byte_view \<Rightarrow> byte_view \<times> byte_view" where
  "bd_swap p = (snd p, fst p)"

text \<open>
  \<open>byte_data::patch\<close>: find the pattern from \<open>p\<close> on, clear it, copy the replacement over it, record
  the offset and go on behind the pattern. The replacement is copied with its own size, so a
  longer one may leave the buffer, which has no defined result.
\<close>

partial_function (option) patch_loop ::
  "bytes \<Rightarrow> bytes \<Rightarrow> nat \<Rightarrow> bytes \<Rightarrow> nat list \<Rightarrow> (bytes \<times> nat list) option" where
  "patch_loop pat rep p buf v =
     (if p < length buf then
        (case memmem pat (drop p buf) of
           None \<Rightarrow> Some (buf, v)
         | Some i \<Rightarrow>
             (case wr buf (p + i) (replicate (length pat) 0) of
                None \<Rightarrow> None
              | Some buf1 \<Rightarrow>
                  (case wr buf1 (p + i) rep of
                     None \<Rightarrow> None
                   | Some buf2 \<Rightarrow>
                       patch_loop pat rep (p + i + length pat) buf2 (v @ [p + i]))))
      else Some (buf, v))"

definition bd_patch :: "byte_view \<Rightarrow> byte_view \<Rightarrow> byte_view \<Rightarrow> (byte_view \<times> nat list) option" where
  "bd_patch self pat rep =
     (case self of
        None \<Rightarrow> Some (None, [])
      | Some buf \<Rightarrow>
          map_option (\<lambda>(b, v). (Some b, v)) (patch_loop (bv_bytes pat) (bv_bytes rep) 0 buf []))"

definition mut_u8_patch :: "bytes \<Rightarrow> bytes \<Rightarrow> bytes \<Rightarrow> (byte_view \<times> nat list) option" where
  "mut_u8_patch buf pat rep = bd_patch (Some buf) (Some pat) (Some rep)"

section \<open>Characters and numbers\<close>

definition isdigit :: "char \<Rightarrow> bool" where
  "isdigit c \<longleftrightarrow> 48 \<le> (of_char c :: nat) \<and> (of_char c :: nat) \<le> 57"

definition isupper :: "char \<Rightarrow> bool" where
  "isupper c \<longleftrightarrow> 65 \<le> (of_char c :: nat) \<and> (of_char c :: nat) \<le> 90"

definition islower :: "char \<Rightarrow> bool" where
  "islower c \<longleftrightarrow> 97 \<le> (of_char c :: nat) \<and> (of_char c :: nat) \<le> 122"

definition isalpha :: "char \<Rightarrow> bool" where
  "isalpha c \<longleftrightarrow> isupper c \<or> islower c"

definition isalnum :: "char \<Rightarrow> bool" where
  "isalnum c \<longleftrightarrow> isalpha c \<or> isdigit c"

definition isspace :: "char \<Rightarrow> bool" where
  "isspace c \<longleftrightarrow> (of_char c :: nat) = 32 \<or> (9 \<le> (of_char c :: nat) \<and> (of_char c :: nat) \<le> 13)"

text \<open>
  \<open>parse_num<int, base>\<close>: the accumulator is a 32-bit \<open>int\<close>, whose overflow is undefined; any
  character that is not a digit of the base ends the loop with \<open>-1\<close>.
\<close>

definition INT_MAX :: int where "INT_MAX = 2147483647"

definition digit_of :: "nat \<Rightarrow> char \<Rightarrow> nat option" where
  "digit_of base c =
     (if isdigit c then Some (of_char c - 48)
      else if 10 < base \<and> isalpha c
        then Some (if isupper c then of_char c - (65 - 10) else of_char c - (97 - 10))
      else None)"

fun parse_num :: "nat \<Rightarrow> int \<Rightarrow> string \<Rightarrow> int option" where
  "parse_num base val [] = Some val"
| "parse_num base val (c # s) =
     (case digit_of base c of
        None \<Rightarrow> Some (-1)
      | Some d \<Rightarrow>
          if base \<le> d then Some (-1)
          else if INT_MAX < val * int base + int d then None
          else parse_num base (val * int base + int d) s)"

definition parse_int :: "string \<Rightarrow> int option" where
  "parse_int s = parse_num 10 0 s"

section \<open>Strings\<close>

definition str_contains :: "string \<Rightarrow> string \<Rightarrow> bool" where
  "str_contains s ss \<longleftrightarrow> memmem ss s \<noteq> None"

definition str_starts :: "string \<Rightarrow> string \<Rightarrow> bool" where
  "str_starts s ss \<longleftrightarrow> length ss \<le> length s \<and> take (length ss) s = ss"

definition str_ends :: "string \<Rightarrow> string \<Rightarrow> bool" where
  "str_ends s ss \<longleftrightarrow> length ss \<le> length s \<and> drop (length s - length ss) s = ss"

definition ltrim :: "string \<Rightarrow> string" where
  "ltrim s = dropWhile isspace s"

definition rtrim :: "string \<Rightarrow> string" where
  "rtrim s = rev (dropWhile (\<lambda>c. isspace c \<or> c = CHR 0x00) (rev s))"

partial_function (option) replace_all_from ::
  "string \<Rightarrow> string \<Rightarrow> nat \<Rightarrow> string \<Rightarrow> string option" where
  "replace_all_from pat rep pos str =
     (if pos \<le> length str then
        (case memmem pat (drop pos str) of
           None \<Rightarrow> Some str
         | Some i \<Rightarrow>
             replace_all_from pat rep (pos + i + length rep)
               (take (pos + i) str @ rep @ drop (pos + i + length pat) str))
      else Some str)"

definition replace_all :: "string \<Rightarrow> string \<Rightarrow> string \<Rightarrow> string option" where
  "replace_all str pat rep = replace_all_from pat rep 0 str"

fun find_first_of :: "'a list \<Rightarrow> 'a list \<Rightarrow> nat option" where
  "find_first_of delims [] = None"
| "find_first_of delims (c # s) =
     (if c \<in> set delims then Some 0 else map_option Suc (find_first_of delims s))"

lemma find_first_of_bound: "find_first_of delims s = Some i \<Longrightarrow> i < length s"
  by (induction s arbitrary: i) (auto split: if_splits)

function split_impl :: "string \<Rightarrow> string \<Rightarrow> nat \<Rightarrow> string list" where
  "split_impl s delims base =
     (case find_first_of delims (drop base s) of
        None \<Rightarrow> [drop base s]
      | Some i \<Rightarrow> take i (drop base s) # split_impl s delims (base + i + 1))"
  by pat_completeness auto
termination
  by (relation "measure (\<lambda>(s, delims, base). length s - base)")
    (auto dest!: find_first_of_bound)

declare split_impl.simps [simp del]

definition split :: "string \<Rightarrow> string \<Rightarrow> string list" where
  "split s delims = split_impl s delims 0"

text \<open>
  Bounded formatting: \<open>txt\<close> is what the format expands to. The result is the number of bytes
  stored before the terminating zero; with no room at all nothing is stored and the result is
  \<open>-1\<close>. \<open>strscpy\<close> takes its size unsigned, so the same minimum has no effect on size zero.
\<close>

definition vssprintf :: "nat \<Rightarrow> string \<Rightarrow> string option \<times> int" where
  "vssprintf sz txt =
     (if 0 < sz
      then (Some (take (sz - 1) txt), min (int (length txt)) (int sz - 1))
      else (None, -1))"

text \<open>\<open>%d\<close> of a number that is not negative.\<close>

function decimal :: "nat \<Rightarrow> string" where
  "decimal n = (if n < 10 then [char_of (48 + n)] else decimal (n div 10) @ [char_of (48 + n mod 10)])"
  by pat_completeness auto

termination
  by (relation "measure id") auto

declare decimal.simps [simp del]

definition strscpy :: "string \<Rightarrow> nat \<Rightarrow> string option \<times> nat" where
  "strscpy src sz =
     (if 0 < sz then (Some (take (sz - 1) src), min (length src) (sz - 1))
      else (None, length src))"

section \<open>Processes\<close>

text \<open>
  \<open>exec_command\<close>: \<open>fd = -1\<close> asks for a new pipe, a non-negative \<open>fd\<close> is used as the output,
  anything else leaves the output alone. The outcome records what the caller sees (return value,
  new value of \<open>exec.fd\<close>, descriptors closed) or, in the forked child, the calls it makes.
\<close>

record exec_t =
  exec_err :: bool
  exec_fd :: int
  exec_pre_exec :: bool

datatype child_act = UnblockSignals | Dup2 int int | CloseFd int | PreExec | Execve

datatype exec_outcome =
    Parent int exec_t "int list"
  | Child "child_act list"

definition exec_command :: "(int \<times> int) option \<Rightarrow> int \<Rightarrow> exec_t \<Rightarrow> exec_outcome" where
  "exec_command xpipe2 fork_ret e =
     (let pipefd = (if exec_fd e = -1 then xpipe2 else Some (-1, -1)) in
      case pipefd of
        None \<Rightarrow> Parent (-1) e []
      | Some (p0, p1) \<Rightarrow>
          (let outfd = (if exec_fd e = -1 then p1 else if 0 \<le> exec_fd e then exec_fd e else -1) in
           if fork_ret < 0 then Parent (-1) e [p0, p1]
           else if fork_ret \<noteq> 0 then
             (if exec_fd e = -1 then Parent fork_ret (e\<lparr>exec_fd := p0\<rparr>) [p1]
              else Parent fork_ret e [])
           else Child ([UnblockSignals]
             @ (if 0 \<le> outfd
                then [Dup2 outfd 1] @ (if exec_err e then [Dup2 outfd 2] else []) @ [CloseFd outfd]
                else [])
             @ (if exec_pre_exec e then [PreExec] else []) @ [Execve])))"

text \<open>
  \<open>switch_mnt_ns\<close> first tries a pid file descriptor, then the namespace file; the arguments are
  the results of \<open>pidfd_open\<close>, \<open>setns\<close> on it, \<open>open\<close> and \<open>xsetns\<close> on the file.
\<close>

definition switch_mnt_ns :: "int \<Rightarrow> int \<Rightarrow> int \<Rightarrow> int \<Rightarrow> int" where
  "switch_mnt_ns pidfd setns_ret open_ret xsetns_ret =
     (let ret = (if 0 < pidfd then setns_ret else -1) in
      if ret < 0 then (if open_ret < 0 then 1 else xsetns_ret) else ret)"

section \<open>Patching and replacing are the reference substitution\<close>

text \<open>The offsets at which the reference substitution replaces, counted from \<open>i\<close>.\<close>

function occurrences :: "'a list \<Rightarrow> nat \<Rightarrow> 'a list \<Rightarrow> nat list" where
  "occurrences pat i [] = []"
| "occurrences pat i (x # xs) =
     (if pat \<noteq> [] \<and> take (length pat) (x # xs) = pat
      then i # occurrences pat (i + length pat) (drop (length pat) (x # xs))
      else occurrences pat (Suc i) xs)"
  by pat_completeness auto
termination
  by (relation "measure (\<lambda>(pat, i, xs). length xs)") auto

declare occurrences.simps(2) [simp del]

lemma occurrences_None: "pat \<noteq> [] \<Longrightarrow> memmem pat xs = None \<Longrightarrow> occurrences pat i xs = []"
  by (induction xs arbitrary: i) (auto simp: occurrences.simps(2) split: if_splits)

lemma occurrences_Some:
  "pat \<noteq> [] \<Longrightarrow> memmem pat xs = Some k \<Longrightarrow>
   occurrences pat i xs = (i + k) # occurrences pat (i + k + length pat) (drop (k + length pat) xs)"
proof (induction xs arbitrary: i k)
  case (Cons x xs)
  show ?case
  proof (cases "take (length pat) (x # xs) = pat")
    case True
    with Cons.prems show ?thesis by (simp add: occurrences.simps(2))
  next
    case False
    with Cons.prems obtain j where "k = Suc j" "memmem pat xs = Some j" by auto
    with Cons False show ?thesis by (simp add: occurrences.simps(2))
  qed
qed simp

text \<open>One round of the patch loop, when the replacement fits over the pattern.\<close>

lemma wr_pad:
  assumes "i + length pat \<le> length buf" and "length rep \<le> length pat"
  shows "\<exists>buf1. wr buf i (replicate (length pat) 0) = Some buf1 \<and>
    wr buf1 i rep = Some (take i buf @ (rep @ replicate (length pat - length rep) 0) @
      drop (i + length pat) buf)"
  using assms by (auto simp: wr_def min_def)

lemma patch_loop_subst:
  assumes "pat \<noteq> []" and "length rep \<le> length pat"
  shows "patch_loop pat rep (length pre) (pre @ xs) v =
    Some (pre @ subst_all pat (rep @ replicate (length pat - length rep) 0) xs,
          v @ occurrences pat (length pre) xs)"
proof (induction "length xs" arbitrary: pre xs v rule: less_induct)
  case less
  let ?rep = "rep @ replicate (length pat - length rep) 0"
  show ?case
  proof (cases "memmem pat xs")
    case None
    with assms(1) show ?thesis
      by (subst patch_loop.simps) (simp add: subst_all_memmem_None occurrences_None)
  next
    case (Some i)
    then have bound: "i + length pat \<le> length xs"
      by (rule memmem_bound)
    let ?pre = "pre @ take i xs @ ?rep" and ?rest = "drop (i + length pat) xs"
    obtain buf1 where w: "wr (pre @ xs) (length pre + i) (replicate (length pat) 0) = Some buf1"
      "wr buf1 (length pre + i) rep = Some (?pre @ ?rest)"
      using wr_pad [of "length pre + i" pat "pre @ xs" rep] bound assms(2) by auto
    have len: "length ?pre = length pre + i + length pat"
      using bound assms(2) by simp
    have "length ?rest < length xs"
      using bound assms(1) by (cases xs) auto
    from less [OF this, of ?pre] have
      "patch_loop pat rep (length pre + i + length pat) (?pre @ ?rest) (v @ [length pre + i]) =
       Some (?pre @ subst_all pat ?rep ?rest,
             (v @ [length pre + i]) @ occurrences pat (length pre + i + length pat) ?rest)"
      unfolding len by simp
    moreover have "length pre < length (pre @ xs)"
      using bound assms(1) by (cases pat) auto
    ultimately show ?thesis
      using Some w assms(1)
      by (subst patch_loop.simps)
        (simp add: subst_all_memmem_Some [OF assms(1) Some] occurrences_Some [OF assms(1) Some])
  qed
qed

lemma patch_loop_empty_pattern:
  assumes "patch_loop pat rep p buf v = Some r"
  shows "\<not> (pat = [] \<and> p < length buf)"
proof (rule patch_loop.raw_induct
    [where P = "\<lambda>pat rep p buf v r. \<not> (pat = [] \<and> p < length buf)", OF _ assms])
  fix f :: "bytes \<Rightarrow> bytes \<Rightarrow> nat \<Rightarrow> bytes \<Rightarrow> nat list \<Rightarrow> (bytes \<times> nat list) option"
  fix pat rep p buf v r
  assume IH: "\<And>pat rep p buf v r. f pat rep p buf v = Some r \<Longrightarrow> \<not> (pat = [] \<and> p < length buf)"
    and eq: "(if p < length buf then
        (case memmem pat (drop p buf) of
           None \<Rightarrow> Some (buf, v)
         | Some i \<Rightarrow>
             (case wr buf (p + i) (replicate (length pat) 0) of
                None \<Rightarrow> None
              | Some buf1 \<Rightarrow>
                  (case wr buf1 (p + i) rep of
                     None \<Rightarrow> None
                   | Some buf2 \<Rightarrow> f pat rep (p + i + length pat) buf2 (v @ [p + i]))))
      else Some (buf, v)) = Some r"
  show "\<not> (pat = [] \<and> p < length buf)"
  proof
    assume a: "pat = [] \<and> p < length buf"
    then obtain x xs where x: "drop p buf = x # xs"
      by (metis drop_eq_Nil list.exhaust not_less)
    with a have "memmem pat (drop p buf) = Some 0"
      by simp
    with a eq obtain buf2 where "f [] rep p buf2 (v @ [p]) = Some r" "wr buf p rep = Some buf2"
      by (auto simp: wr_def split: option.splits if_splits)
    with IH a show False
      by (metis wr_length)
  qed
qed

lemma replace_all_from_subst:
  assumes "pat \<noteq> []"
  shows "replace_all_from pat rep (length pre) (pre @ xs) = Some (pre @ subst_all pat rep xs)"
proof (induction "length xs" arbitrary: pre xs rule: less_induct)
  case less
  show ?case
  proof (cases "memmem pat xs")
    case None
    with assms show ?thesis
      by (subst replace_all_from.simps) (simp add: subst_all_memmem_None)
  next
    case (Some i)
    then have bound: "i + length pat \<le> length xs"
      by (rule memmem_bound)
    then have "length (drop (i + length pat) xs) < length xs"
      using assms by (cases xs) auto
    from less [OF this, of "pre @ take i xs @ rep"] bound Some assms show ?thesis
      by (subst replace_all_from.simps) (simp add: subst_all_memmem_Some min_absorb2 add.assoc)
  qed
qed

text \<open>C11: patching a buffer with a non-empty pattern and a replacement that is not longer always
  returns; the new buffer is the reference substitution with the replacement padded by zeros, so
  its length is unchanged, and the returned offsets are exactly the replaced positions.\<close>

theorem patch_is_subst_all:
  assumes "pat \<noteq> []" and "length rep \<le> length pat"
  shows "bd_patch (Some buf) (Some pat) (Some rep) =
    Some (Some (subst_all pat (rep @ replicate (length pat - length rep) 0) buf),
          occurrences pat 0 buf)"
  using patch_loop_subst [OF assms, of "[]" buf "[]"] by (simp add: bd_patch_def bv_bytes_def)

theorem patch_is_subst_all_witness:
  "bd_patch (Some [1, 2, 3, 1, 2]) (Some [1, 2]) (Some [9]) = Some (Some [9, 0, 3, 9, 0], [0, 3])"
  using patch_is_subst_all [of "[1, 2]" "[9]" "[1, 2, 3, 1, 2]"]
  by (simp add: subst_all.simps occurrences.simps)

text \<open>C28: on an empty pattern the patch loop never ends on any non-empty buffer (or leaves the
  buffer first): no result is ever returned.\<close>

theorem patch_empty_pattern_no_result:
  "bd_patch (Some (x # buf)) (Some []) (Some rep) = None"
  using patch_loop_empty_pattern [of "[]" rep 0 "x # buf" "[]"]
  by (cases "patch_loop [] rep 0 (x # buf) []") (simp_all add: bd_patch_def bv_bytes_def)

text \<open>C20: replacing a non-empty pattern in a string always returns and is the reference
  substitution: replacements are never scanned again.\<close>

theorem replace_all_is_subst_all:
  assumes "pat \<noteq> []"
  shows "replace_all str pat rep = Some (subst_all pat rep str)"
  using replace_all_from_subst [OF assms, of rep "[]" str] by (simp add: replace_all_def)

theorem replace_all_is_subst_all_witness:
  "replace_all ''a:b'' '':'' (CHR 0x5C # '':'') = Some (''a'' @ CHR 0x5C # '':b'')"
  using replace_all_is_subst_all [of "'':''" "''a:b''" "CHR 0x5C # '':''"]
  by (simp add: subst_all.simps)

section \<open>Number parsing\<close>

definition dec_val :: "string \<Rightarrow> int" where
  "dec_val s = foldl (\<lambda>v c. v * 10 + int (of_char c - 48)) 0 s"

lemma dec_val_mono: "0 \<le> a \<Longrightarrow> a \<le> foldl (\<lambda>v c. v * 10 + int (of_char c - 48)) a s"
proof (induction s arbitrary: a)
  case (Cons c s)
  have "a \<le> a * 10 + int (of_char c - 48)"
    using Cons.prems by simp
  also have "\<dots> \<le> foldl (\<lambda>v c. v * 10 + int (of_char c - 48)) (a * 10 + int (of_char c - 48)) s"
    using Cons by simp
  finally show ?case by simp
qed simp

lemma digit_of_10: "digit_of 10 c = (if isdigit c then Some (of_char c - 48) else None)"
  by (simp add: digit_of_def)

lemma parse_num_10:
  assumes "0 \<le> val" and "val \<le> INT_MAX"
  shows "parse_num 10 val s =
    (let p = takeWhile isdigit s; n = foldl (\<lambda>v c. v * 10 + int (of_char c - 48)) val p in
     if INT_MAX < n then None else if p = s then Some n else Some (-1))"
  using assms
proof (induction s arbitrary: val)
  case (Cons c s)
  show ?case
  proof (cases "isdigit c")
    case True
    then have d: "of_char c - 48 < (10 :: nat)"
      by (auto simp: isdigit_def)
    let ?n = "val * 10 + int (of_char c - 48)"
    show ?thesis
    proof (cases "INT_MAX < ?n")
      case True
      then have "INT_MAX < foldl (\<lambda>v c. v * 10 + int (of_char c - 48)) ?n (takeWhile isdigit s)"
        using dec_val_mono [of ?n "takeWhile isdigit s"] Cons.prems by simp
      with True \<open>isdigit c\<close> d show ?thesis
        by (simp add: digit_of_10 Let_def)
    next
      case False
      with Cons.IH [of ?n] Cons.prems \<open>isdigit c\<close> d show ?thesis
        by (simp add: digit_of_10 Let_def)
    qed
  next
    case False
    with Cons.prems show ?thesis by (simp add: digit_of_10)
  qed
qed (simp add: Let_def)

text \<open>C26: \<open>parse_int\<close> on every string: the value of the leading digits when the whole string is
  digits, \<open>-1\<close> when another character follows them, and no defined result exactly when the leading
  digits exceed the \<open>int\<close> range. In particular the empty string parses as zero.\<close>

theorem parse_int_total:
  "parse_int s =
    (let p = takeWhile isdigit s in
     if INT_MAX < dec_val p then None else if p = s then Some (dec_val p) else Some (-1))"
  using parse_num_10 [of 0 s] by (simp add: parse_int_def dec_val_def INT_MAX_def Let_def)

section \<open>Splitting\<close>

fun join :: "'a list \<Rightarrow> 'a list list \<Rightarrow> 'a list" where
  "join sep [] = []"
| "join sep [x] = x"
| "join sep (x # y # xs) = x @ sep @ join sep (y # xs)"

lemma find_first_of_None: "find_first_of delims s = None \<longleftrightarrow> set s \<inter> set delims = {}"
  by (induction s) auto

lemma find_first_of_Some:
  "find_first_of delims s = Some i \<Longrightarrow>
   i < length s \<and> s ! i \<in> set delims \<and> set (take i s) \<inter> set delims = {} \<and>
   s = take i s @ s ! i # drop (Suc i) s"
proof (induction s arbitrary: i)
  case (Cons c s)
  then show ?case by (cases i) (auto split: if_splits)
qed simp

lemma split_impl_not_Nil: "split_impl s delims base \<noteq> []"
  by (subst split_impl.simps) (simp split: option.split)

lemma split_impl_Cons: "\<exists>p ps. split_impl s delims base = p # ps"
  using split_impl_not_Nil by (metis neq_Nil_conv)

lemma split_impl_pieces:
  "p \<in> set (split_impl s delims base) \<Longrightarrow> set p \<inter> set delims = {}"
proof (induction s delims base rule: split_impl.induct)
  case (1 s delims base)
  show ?case
  proof (cases "find_first_of delims (drop base s)")
    case None
    with 1 show ?thesis
      by (auto simp: split_impl.simps [of s delims base] find_first_of_None)
  next
    case (Some i)
    have "set (take i (drop base s)) \<inter> set delims = {}"
      using find_first_of_Some [OF Some] by blast
    with Some 1 show ?thesis
      by (auto simp: split_impl.simps [of s delims base])
  qed
qed

lemma split_impl_count:
  "length (split_impl s delims base) = Suc (length (filter (\<lambda>c. c \<in> set delims) (drop base s)))"
proof (induction s delims base rule: split_impl.induct)
  case (1 s delims base)
  show ?case
  proof (cases "find_first_of delims (drop base s)")
    case None
    then have "filter (\<lambda>c. c \<in> set delims) (drop base s) = []"
      by (auto simp: find_first_of_None filter_empty_conv)
    with None show ?thesis by (simp add: split_impl.simps [of s delims base])
  next
    case (Some i)
    let ?d = "drop base s"
    have d: "?d = take i ?d @ ?d ! i # drop (Suc i) ?d" "?d ! i \<in> set delims"
      "set (take i ?d) \<inter> set delims = {}"
      using find_first_of_Some [OF Some] by blast+
    have "filter (\<lambda>c. c \<in> set delims) (take i ?d) = []"
      using d(3) by (auto simp: filter_empty_conv)
    then have "filter (\<lambda>c. c \<in> set delims) ?d =
        ?d ! i # filter (\<lambda>c. c \<in> set delims) (drop (base + i + 1) s)"
      using d(1,2) by (metis (no_types, lifting) Suc_eq_plus1 add.commute append_Nil drop_drop
          filter.simps(2) filter_append add_Suc_right)
    with 1 [OF Some] Some show ?thesis by (simp add: split_impl.simps [of s delims base])
  qed
qed

lemma split_impl_join: "join [c] (split_impl s [c] base) = drop base s"
proof (induction s "[c]" base rule: split_impl.induct)
  case (1 s base)
  show ?case
  proof (cases "find_first_of [c] (drop base s)")
    case None
    then show ?thesis by (simp add: split_impl.simps [of s "[c]" base])
  next
    case (Some i)
    let ?d = "drop base s"
    have d: "?d = take i ?d @ c # drop (Suc i) ?d"
      using find_first_of_Some [OF Some] by auto
    obtain p ps where p: "split_impl s [c] (base + i + 1) = p # ps"
      using split_impl_Cons by blast
    with 1 [OF Some] have "join [c] (p # ps) = drop (Suc i) ?d"
      by (simp add: add.commute)
    with Some p d show ?thesis by (simp add: split_impl.simps [of s "[c]" base])
  qed
qed

text \<open>C27: splitting loses nothing: no piece holds a delimiter, there is one more piece than there
  are delimiters in the string, and joining the pieces of a single-delimiter split gives the
  string back.\<close>

theorem split_pieces:
  "(\<forall>p \<in> set (split s delims). set p \<inter> set delims = {}) \<and>
   length (split s delims) = Suc (length (filter (\<lambda>c. c \<in> set delims) s)) \<and>
   join [c] (split s [c]) = s"
  using split_impl_pieces [of _ s delims 0] split_impl_count [of s delims 0]
    split_impl_join [of c s 0] by (auto simp: split_def)

theorem split_pieces_witness:
  "split ''/sbin:/bin'' '':'' = [''/sbin'', ''/bin''] \<and> join '':'' (split ''/sbin:/bin'' '':'') = ''/sbin:/bin''"
  using split_pieces [of "''/sbin:/bin''" "'':''" "CHR '':''"]
  by (simp add: split_def split_impl.simps)

section \<open>Bounded output\<close>

lemma vssprintf_bound:
  "0 < sz \<Longrightarrow> \<exists>t. vssprintf sz txt = (Some t, int (length t)) \<and> length t < sz \<and> prefix t txt"
  by (auto simp: vssprintf_def min_def take_is_prefix of_nat_diff)

lemma strscpy_bound:
  "0 < sz \<Longrightarrow> \<exists>t. strscpy src sz = (Some t, length t) \<and> length t < sz \<and> prefix t src"
  by (auto simp: strscpy_def min_def take_is_prefix)

end
