(* ===== verification/Base_Stream.thy ===== *)
theory Base_Stream
  imports Kitsune_Prelude
begin

text \<open>
  The stream classes of \<^verbatim>\<open>src/native/src/base/stream.cpp\<close> and
  \<^verbatim>\<open>src/native/src/base/include/stream.hpp\<close>. An output stream is a state together with a function
  of type \<open>'s writer\<close>; an input stream a state with a function of type \<open>'s reader\<close>. A virtual call
  is a call of such a function, given as an argument. The kernel's \<open>read\<close> and \<open>write\<close> are
  arguments too.

  The locales \<open>source\<close> and \<open>sink\<close> are the contracts of \<open>in_stream\<close> and \<open>out_stream\<close>; the memory
  streams and the retrying file stream are interpreted as instances.
\<close>

type_synonym errno = int

text \<open>The result of a write is the returned flag; \<open>None\<close> is the absence of a defined result.\<close>

type_synonym 's writer = "'s \<Rightarrow> bytes \<Rightarrow> (bool \<times> 's) option"

text \<open>A read is asked for at most \<open>n\<close> bytes and yields an error code or the bytes read.\<close>

type_synonym 's reader = "'s \<Rightarrow> nat \<Rightarrow> (errno + bytes) \<times> 's"

definition EINTR :: errno where
  "EINTR = 4"

section \<open>Reading until satisfied\<close>

text \<open>\<open>readFully\<close>: \<open>acc\<close> is what the caller's buffer holds so far. \<open>continue\<close> in a \<open>do\<close>-\<open>while\<close>
  loop evaluates the loop condition, with the negative \<open>ret\<close> being different from zero.\<close>

partial_function (option) readFully_loop ::
    "'s reader \<Rightarrow> nat \<Rightarrow> bytes \<Rightarrow> 's \<Rightarrow> ((errno + bytes) \<times> 's) option" where
  "readFully_loop read len acc s =
    (case read s (len - length acc) of
       (Inl e, s') \<Rightarrow>
         if e = EINTR then
           (if length acc \<noteq> len then readFully_loop read len acc s' else Some (Inr acc, s'))
         else Some (Inl e, s')
     | (Inr bs, s') \<Rightarrow>
         (let acc' = acc @ bs in
          if length acc' \<noteq> len \<and> bs \<noteq> [] then readFully_loop read len acc' s'
          else Some (Inr acc', s')))"

definition readFully :: "'s reader \<Rightarrow> nat \<Rightarrow> 's \<Rightarrow> ((errno + bytes) \<times> 's) option" where
  "readFully read len s = readFully_loop read len [] s"

section \<open>Writing to a descriptor\<close>

text \<open>\<open>file_stream::write\<close>: \<open>buf\<close> is the part not written yet. A kernel that reports more bytes
  than it was given would send the cursor past the buffer.\<close>

partial_function (option) file_write ::
    "('s \<Rightarrow> bytes \<Rightarrow> (errno + nat) \<times> 's) \<Rightarrow> 's \<Rightarrow> bytes \<Rightarrow> (bool \<times> 's) option" where
  "file_write do_write s buf =
    (case do_write s buf of
       (Inl e, s') \<Rightarrow>
         if e = EINTR then (if buf \<noteq> [] then file_write do_write s' buf else Some (True, s'))
         else Some (False, s')
     | (Inr n, s') \<Rightarrow>
         if length buf < n then None
         else if n \<noteq> length buf \<and> n \<noteq> 0 then file_write do_write s' (drop n buf)
         else Some (True, s'))"

section \<open>Filters and chunks\<close>

definition filter_write :: "'b writer \<Rightarrow> 'b writer" where
  "filter_write base b buf = base b buf"

text \<open>\<open>chunk_out_stream\<close>: \<open>cs_buf\<close> is the buffered prefix of \<open>data\<close> (its length is \<open>buf_off\<close>),
  \<open>cs_cap\<close> the allocated size of \<open>data\<close>, \<open>cs_sub\<close> the fields of the subclass and the base stream.
  \<open>write_chunk\<close> is virtual; its arguments are the bytes that can be read at the pointer it gets
  (all of the caller's remaining input, or the filled part of \<open>data\<close>), the length and the flag.\<close>

record 'x chunk_strm =
  chunk_sz :: nat
  cs_buf :: bytes
  cs_cap :: nat
  cs_sub :: 'x

type_synonym 'x chunk_writer =
  "'x chunk_strm \<Rightarrow> bytes \<Rightarrow> nat \<Rightarrow> bool \<Rightarrow> (bool \<times> 'x chunk_strm) option"

definition chunk_new :: "nat \<Rightarrow> nat \<Rightarrow> 'x \<Rightarrow> 'x chunk_strm" where
  "chunk_new buf_sz csz x = \<lparr>chunk_sz = csz, cs_buf = [], cs_cap = buf_sz, cs_sub = x\<rparr>"

partial_function (option) chunk_write ::
    "'x chunk_writer \<Rightarrow> 'x chunk_strm \<Rightarrow> bytes \<Rightarrow> (bool \<times> 'x chunk_strm) option" where
  "chunk_write write_chunk s inp =
    (if inp = [] then Some (True, s)
     else if chunk_sz s \<le> length (cs_buf s) + length inp then
       (if cs_buf s \<noteq> [] then
          (if cs_cap s < chunk_sz s \<or> chunk_sz s < length (cs_buf s) then None
           else
             (let copy = chunk_sz s - length (cs_buf s) in
              Option.bind (write_chunk (s\<lparr>cs_buf := []\<rparr>) (cs_buf s @ take copy inp) (chunk_sz s) False)
                (\<lambda>(ok, s'). if ok then chunk_write write_chunk s' (drop copy inp)
                            else Some (False, s'))))
        else
          Option.bind (write_chunk s inp (chunk_sz s) False)
            (\<lambda>(ok, s'). if ok then chunk_write write_chunk s' (drop (chunk_sz s) inp)
                        else Some (False, s')))
     else if cs_cap s < length (cs_buf s) + length inp then None
     else Some (True, s\<lparr>cs_buf := cs_buf s @ inp\<rparr>))"

text \<open>The inherited \<open>write_chunk\<close> forwards to the base stream.\<close>

definition chunk_write_chunk :: "'b writer \<Rightarrow> 'b chunk_writer" where
  "chunk_write_chunk base s buf len fin =
     Option.bind (rd buf 0 len)
       (\<lambda>d. map_option (\<lambda>(ok, b). (ok, s\<lparr>cs_sub := b\<rparr>)) (base (cs_sub s) d))"

definition chunk_finalize :: "'x chunk_writer \<Rightarrow> 'x chunk_strm \<Rightarrow> 'x chunk_strm option" where
  "chunk_finalize write_chunk s =
     (if cs_buf s \<noteq> [] then
        map_option (\<lambda>(ok, s'). s'\<lparr>cs_buf := []\<rparr>) (write_chunk s (cs_buf s) (length (cs_buf s)) True)
      else Some s)"

section \<open>Memory streams\<close>

text \<open>\<open>byte_stream\<close>: \<open>bs_mem\<close> is the allocated block (\<open>_cap\<close> bytes once allocated), \<open>bs_sz\<close> and
  \<open>bs_pos\<close> are \<open>_data._sz\<close> and \<open>_pos\<close>. \<open>junk\<close> stands for what \<open>realloc\<close> leaves in fresh memory.\<close>

record byte_strm =
  bs_mem :: bytes
  bs_sz :: nat
  bs_pos :: nat
  bs_cap :: nat

function bs_grow :: "nat \<Rightarrow> nat \<Rightarrow> nat" where
  "bs_grow new_sz cap =
     (if cap < new_sz then bs_grow new_sz (if cap \<noteq> 0 then cap * 2 - cap div 2 else 4096)
      else cap)"
  by pat_completeness auto

termination
  by (relation "measure (\<lambda>(new_sz, cap). new_sz - cap)") auto

declare bs_grow.simps [simp del]

definition bs_resize :: "byte \<Rightarrow> nat \<Rightarrow> bool \<Rightarrow> byte_strm \<Rightarrow> byte_strm" where
  "bs_resize junk new_sz zero s =
     (let cap = bs_grow new_sz (bs_cap s);
          moved = take cap (bs_mem s) @ replicate (cap - length (bs_mem s)) junk in
      if bs_cap s < new_sz then
        s\<lparr>bs_cap := cap,
          bs_mem := (if zero then take (bs_cap s) moved @ replicate (cap - bs_cap s) 0 else moved)\<rparr>
      else s)"

definition bs_read :: "byte_strm reader" where
  "bs_read s len =
     (let n = min len (bs_sz s - bs_pos s) in
      (Inr (slice (bs_pos s) n (bs_mem s)), s\<lparr>bs_pos := bs_pos s + n\<rparr>))"

definition bs_write :: "byte \<Rightarrow> byte_strm writer" where
  "bs_write junk s buf =
     (let s1 = bs_resize junk (bs_pos s + length buf) False s in
      Option.bind (wr (bs_mem s1) (bs_pos s1) buf)
        (\<lambda>mem. Some (True, s1\<lparr>bs_mem := mem, bs_pos := bs_pos s1 + length buf,
           bs_sz := max (bs_sz s1) (bs_pos s1 + length buf)\<rparr>)))"

text \<open>\<open>rust_vec_stream\<close> over a \<open>Vec<u8>\<close>; \<open>resize_vec\<close> leaves new elements uninitialised.\<close>

record vec_strm =
  vs_data :: bytes
  vs_pos :: nat

definition resize_vec :: "byte \<Rightarrow> bytes \<Rightarrow> nat \<Rightarrow> bytes" where
  "resize_vec junk v sz = take sz v @ replicate (sz - length v) junk"

definition vs_ensure_size :: "byte \<Rightarrow> nat \<Rightarrow> bool \<Rightarrow> vec_strm \<Rightarrow> vec_strm" where
  "vs_ensure_size junk sz zero s =
     (if length (vs_data s) < sz then
        s\<lparr>vs_data := (let v = resize_vec junk (vs_data s) sz in
            if zero then take (length (vs_data s)) v @ replicate (sz - length (vs_data s)) 0 else v)\<rparr>
      else s)"

definition vs_read :: "vec_strm reader" where
  "vs_read s len =
     (let n = min len (length (vs_data s) - vs_pos s) in
      (Inr (slice (vs_pos s) n (vs_data s)), s\<lparr>vs_pos := vs_pos s + n\<rparr>))"

definition vs_write :: "byte \<Rightarrow> vec_strm writer" where
  "vs_write junk s buf =
     (let s1 = vs_ensure_size junk (vs_pos s + length buf) False s in
      Option.bind (wr (vs_data s1) (vs_pos s1) buf)
        (\<lambda>d. Some (True, s1\<lparr>vs_data := d, vs_pos := vs_pos s1 + length buf\<rparr>)))"

section \<open>The bridge to C stdio\<close>

text \<open>The callbacks given to \<open>funopen\<close>: a return value of \<open>-1\<close> reports the failure.\<close>

definition strm_read :: "'s reader \<Rightarrow> 's \<Rightarrow> nat \<Rightarrow> (errno + bytes) \<times> 's" where
  "strm_read read s len = read s len"

definition strm_write :: "'s writer \<Rightarrow> 's \<Rightarrow> bytes \<Rightarrow> (int \<times> 's) option" where
  "strm_write wrt s buf =
     map_option (\<lambda>(ok, s'). (if ok then int (length buf) else -1, s')) (wrt s buf)"

section \<open>The input contract\<close>

text \<open>A source hands out its content in order, makes progress when asked for something, and is
  interrupted only finitely often (\<open>pend\<close> bounds the interruptions still to come).\<close>

locale source =
  fixes read :: "'s reader"
    and content :: "'s \<Rightarrow> bytes"
    and good :: "'s \<Rightarrow> bool"
    and pend :: "'s \<Rightarrow> nat"
  assumes read_data: "good s \<Longrightarrow> read s n = (Inr bs, s') \<Longrightarrow>
      good s' \<and> content s = bs @ content s' \<and> length bs \<le> n \<and>
      (bs = [] \<longrightarrow> n = 0 \<or> content s = [])"
    and read_intr: "good s \<Longrightarrow> read s n = (Inl e, s') \<Longrightarrow>
      e = EINTR \<and> good s' \<and> content s' = content s \<and> pend s' < pend s"
begin

lemma readFully_loop_total:
  assumes "good s" and "length acc \<le> len"
  shows "\<exists>s'. readFully_loop read len acc s =
      Some (Inr (acc @ take (len - length acc) (content s)), s') \<and>
      good s' \<and> content s' = drop (len - length acc) (content s)"
  using assms
proof (induction "(length (content s), pend s)" arbitrary: s acc rule: wf_induct_rule [OF wf_lex_prod [OF wf_less_than wf_less_than]])
  case (1 s acc)
  note IH = "1.hyps"
  show ?case
  proof (cases "read s (len - length acc)")
    case (Pair r s')
    show ?thesis
    proof (cases r)
      case (Inl e)
      from Pair Inl read_intr [OF \<open>good s\<close>, of "len - length acc" e s'] have
        e: "e = EINTR" "good s'" "content s' = content s" "pend s' < pend s" by auto
      show ?thesis
      proof (cases "length acc = len")
        case True
        with Pair Inl e show ?thesis by (subst readFully_loop.simps) simp
      next
        case False
        with Pair Inl e have "readFully_loop read len acc s = readFully_loop read len acc s'"
          by (subst readFully_loop.simps) simp
        with IH [of s' acc] e "1.prems" show ?thesis by simp
      qed
    next
      case (Inr bs)
      from Pair Inr read_data [OF \<open>good s\<close>, of "len - length acc" bs s'] have
        b: "good s'" "content s = bs @ content s'" "length bs \<le> len - length acc"
           "bs = [] \<Longrightarrow> len - length acc = 0 \<or> content s = []" by auto
      show ?thesis
      proof (cases "length (acc @ bs) \<noteq> len \<and> bs \<noteq> []")
        case True
        with Pair Inr have "readFully_loop read len acc s = readFully_loop read len (acc @ bs) s'"
          by (subst readFully_loop.simps) simp
        with IH [of s' "acc @ bs"] b True "1.prems" show ?thesis
          by (auto simp: diff_diff_left)
      next
        case False
        with Pair Inr have r: "readFully_loop read len acc s = Some (Inr (acc @ bs), s')"
          by (subst readFully_loop.simps) auto
        have "bs = take (len - length acc) (content s) \<and> content s' = drop (len - length acc) (content s)"
          using False b by (cases "bs = []") auto
        with r b show ?thesis by metis
      qed
    qed
  qed
qed

lemma readFully_total:
  assumes "good s"
  shows "\<exists>s'. readFully read len s = Some (Inr (take len (content s)), s') \<and>
      good s' \<and> content s' = drop len (content s)"
  using readFully_loop_total [OF assms, of "[]" len] by (simp add: readFully_def)

end

text \<open>The two memory streams are sources of what lies between the cursor and the end.\<close>

definition bs_content :: "byte_strm \<Rightarrow> bytes" where
  "bs_content s = drop (bs_pos s) (take (bs_sz s) (bs_mem s))"

definition vs_content :: "vec_strm \<Rightarrow> bytes" where
  "vs_content s = drop (vs_pos s) (vs_data s)"

definition bs_wf :: "byte_strm \<Rightarrow> bool" where
  "bs_wf s \<longleftrightarrow> bs_pos s \<le> bs_sz s \<and> bs_sz s \<le> bs_cap s \<and> length (bs_mem s) = bs_cap s"

lemma slice_split: "n \<le> length (drop p xs) \<Longrightarrow> drop p xs = slice p n xs @ drop (p + n) xs"
  by (simp add: slice_def add.commute flip: drop_drop)

interpretation bs_src: source bs_read bs_content bs_wf "\<lambda>_. 0"
proof
  fix s n bs s'
  assume wf: "bs_wf s" and r: "bs_read s n = (Inr bs, s')"
  let ?k = "min n (bs_sz s - bs_pos s)"
  from r have bs: "bs = slice (bs_pos s) ?k (take (bs_sz s) (bs_mem s))"
    and s': "s' = s\<lparr>bs_pos := bs_pos s + ?k\<rparr>"
    using wf by (auto simp: bs_read_def Let_def slice_def bs_wf_def drop_take min_def)
  have "bs_content s = bs @ bs_content s'"
    unfolding bs_content_def bs s' using wf
    by (subst slice_split [of ?k]) (auto simp: bs_wf_def)
  moreover have "length bs = ?k" using wf by (simp add: bs slice_def bs_wf_def)
  moreover have "bs = [] \<longrightarrow> n = 0 \<or> bs_content s = []"
    using wf by (auto simp: \<open>length bs = ?k\<close> bs_content_def bs_wf_def simp flip: length_0_conv)
  ultimately show "bs_wf s' \<and> bs_content s = bs @ bs_content s' \<and> length bs \<le> n \<and>
      (bs = [] \<longrightarrow> n = 0 \<or> bs_content s = [])"
    using wf by (auto simp: s' bs_wf_def)
qed (auto simp: bs_read_def Let_def)

interpretation vs_src: source vs_read vs_content "\<lambda>s. vs_pos s \<le> length (vs_data s)" "\<lambda>_. 0"
proof
  fix s n bs s'
  assume wf: "vs_pos s \<le> length (vs_data s)" and r: "vs_read s n = (Inr bs, s')"
  let ?k = "min n (length (vs_data s) - vs_pos s)"
  from r have bs: "bs = slice (vs_pos s) ?k (vs_data s)"
    and s': "s' = s\<lparr>vs_pos := vs_pos s + ?k\<rparr>"
    by (auto simp: vs_read_def Let_def)
  have "vs_content s = bs @ vs_content s'"
    unfolding vs_content_def bs s' by (subst slice_split [of ?k]) auto
  moreover have l: "length bs = ?k" using wf by (simp add: bs slice_def)
  moreover have "bs = [] \<longrightarrow> n = 0 \<or> vs_content s = []"
    using wf by (auto simp: l vs_content_def simp flip: length_0_conv)
  ultimately show "vs_pos s' \<le> length (vs_data s') \<and> vs_content s = bs @ vs_content s' \<and>
      length bs \<le> n \<and> (bs = [] \<longrightarrow> n = 0 \<or> vs_content s = [])"
    using wf by (auto simp: s')
qed (auto simp: vs_read_def Let_def)

section \<open>The output contract\<close>

text \<open>A sink appends what it is given to what it has received.\<close>

locale sink =
  fixes wrt :: "'s writer"
    and out :: "'s \<Rightarrow> bytes"
    and good :: "'s \<Rightarrow> bool"
  assumes wrt_appends: "good s \<Longrightarrow> \<exists>s'. wrt s bs = Some (True, s') \<and> good s' \<and> out s' = out s @ bs"

text \<open>Several writes in a row, as a caller that stops at the first failure does them.\<close>

fun writes :: "'s writer \<Rightarrow> 's \<Rightarrow> bytes list \<Rightarrow> (bool \<times> 's) option" where
  "writes wrt s [] = Some (True, s)"
| "writes wrt s (b # bs) =
     Option.bind (wrt s b) (\<lambda>(ok, s'). if ok then writes wrt s' bs else Some (False, s'))"

context sink
begin

lemma writes_append:
  "good s \<Longrightarrow> \<exists>s'. writes wrt s bs = Some (True, s') \<and> good s' \<and> out s' = out s @ concat bs"
proof (induction bs arbitrary: s)
  case (Cons b bs)
  obtain s1 where s1: "wrt s b = Some (True, s1)" "good s1" "out s1 = out s @ b"
    using wrt_appends [OF Cons.prems] by blast
  with Cons.IH [OF s1(2)] show ?case by auto
qed simp

end

lemma bs_grow_ge: "new_sz \<le> bs_grow new_sz cap"
proof (induction new_sz cap rule: bs_grow.induct)
  case (1 new_sz cap)
  then show ?case by (cases "cap < new_sz") (simp_all add: bs_grow.simps [of new_sz cap])
qed

lemma bs_grow_ge_cap: "cap \<le> bs_grow new_sz cap"
proof (induction new_sz cap rule: bs_grow.induct)
  case (1 new_sz cap)
  show ?case
  proof (cases "cap < new_sz")
    case True
    then show ?thesis using 1 bs_grow.simps [of new_sz cap]
      by (cases "cap = 0") auto
  qed (simp add: bs_grow.simps)
qed

text \<open>Appending is what the two memory streams do while the cursor is at the end.\<close>

definition bs_appending :: "byte_strm \<Rightarrow> bool" where
  "bs_appending s \<longleftrightarrow> bs_wf s \<and> bs_pos s = bs_sz s"

lemma bs_resize_wf:
  assumes "bs_wf s"
  shows "bs_wf (bs_resize junk n zero s) \<and> n \<le> bs_cap (bs_resize junk n zero s) \<and>
    take (bs_sz s) (bs_mem (bs_resize junk n zero s)) = take (bs_sz s) (bs_mem s) \<and>
    bs_sz (bs_resize junk n zero s) = bs_sz s \<and> bs_pos (bs_resize junk n zero s) = bs_pos s"
  using assms bs_grow_ge [of n "bs_cap s"] bs_grow_ge_cap [of "bs_cap s" n]
  by (auto simp: bs_resize_def bs_wf_def Let_def min_def)

interpretation bs_sink: sink "bs_write junk" "\<lambda>s. take (bs_sz s) (bs_mem s)" bs_appending
proof
  fix s and bs :: bytes assume ap: "bs_appending s"
  let ?s1 = "bs_resize junk (bs_pos s + length bs) False s"
  have wf: "bs_wf s" using ap by (simp add: bs_appending_def)
  note r = bs_resize_wf [OF wf, of junk "bs_pos s + length bs" False]
  have len: "length (bs_mem ?s1) = bs_cap ?s1" using r by (simp add: bs_wf_def)
  from r len have "wr (bs_mem ?s1) (bs_pos ?s1) bs =
      Some (take (bs_sz s) (bs_mem s) @ bs @ drop (bs_pos s + length bs) (bs_mem ?s1))"
    using ap by (auto simp: wr_def bs_appending_def)
  with r len ap wf show "\<exists>s'. bs_write junk s bs = Some (True, s') \<and> bs_appending s' \<and>
      take (bs_sz s') (bs_mem s') = take (bs_sz s) (bs_mem s) @ bs"
    by (simp add: bs_write_def Let_def bs_appending_def bs_wf_def)
qed

interpretation vs_sink: sink "vs_write junk" vs_data "\<lambda>s. vs_pos s = length (vs_data s)"
  by standard (auto simp: vs_write_def vs_ensure_size_def resize_vec_def wr_def)

section \<open>Descriptors\<close>

text \<open>What a descriptor promises while it works: it takes a non-empty part of what it is given, or
  is interrupted, finitely often.\<close>

locale descriptor =
  fixes do_write :: "'s \<Rightarrow> bytes \<Rightarrow> (errno + nat) \<times> 's"
    and out :: "'s \<Rightarrow> bytes"
    and pend :: "'s \<Rightarrow> nat"
  assumes write_data: "do_write s buf = (Inr n, s') \<Longrightarrow>
      n \<le> length buf \<and> out s' = out s @ take n buf \<and> (n = 0 \<longrightarrow> buf = [])"
    and write_intr: "do_write s buf = (Inl e, s') \<Longrightarrow> e = EINTR \<and> out s' = out s \<and> pend s' < pend s"
begin

lemma file_write_total: "\<exists>s'. file_write do_write s buf = Some (True, s') \<and> out s' = out s @ buf"
proof (induction "(length buf, pend s)" arbitrary: s buf rule: wf_induct_rule [OF wf_lex_prod [OF wf_less_than wf_less_than]])
  case (1 s buf)
  note IH = "1.hyps"
  obtain r s' where w: "do_write s buf = (r, s')" by fastforce
  show ?case
  proof (cases r)
    case (Inl e)
    with w write_intr have e: "e = EINTR" "out s' = out s" "pend s' < pend s" by auto
    show ?thesis
    proof (cases "buf = []")
      case True
      with w Inl e show ?thesis by (subst file_write.simps) simp
    next
      case False
      with w Inl e have "file_write do_write s buf = file_write do_write s' buf"
        by (subst file_write.simps) simp
      with IH [of buf s'] e show ?thesis by simp
    qed
  next
    case (Inr n)
    from w Inr write_data [of s buf n s'] have
      n: "n \<le> length buf" "out s' = out s @ take n buf" "n = 0 \<Longrightarrow> buf = []" by auto
    show ?thesis
    proof (cases "n \<noteq> length buf \<and> n \<noteq> 0")
      case True
      with w Inr n have "file_write do_write s buf = file_write do_write s' (drop n buf)"
        by (subst file_write.simps) simp
      moreover have "length buf - n < length buf" using n True by auto
      ultimately show ?thesis using IH [of "drop n buf" s'] n by simp
    next
      case False
      with w Inr n show ?thesis by (subst file_write.simps) auto
    qed
  qed
qed

end

sublocale descriptor \<subseteq> fdsink: sink "file_write do_write" out "\<lambda>_. True"
  by standard (simp add: file_write_total)

text \<open>A kernel that follows a script of interruptions and short writes, then takes everything.\<close>

datatype kstep = KIntr | KXfer nat

record kfile =
  kf_script :: "kstep list"
  kf_out :: bytes

fun k_write :: "kfile \<Rightarrow> bytes \<Rightarrow> (errno + nat) \<times> kfile" where
  "k_write s buf =
     (case kf_script s of
        [] \<Rightarrow> (Inr (length buf), s\<lparr>kf_out := kf_out s @ buf\<rparr>)
      | KIntr # r \<Rightarrow> (Inl EINTR, s\<lparr>kf_script := r\<rparr>)
      | KXfer n # r \<Rightarrow>
          (let k = min (Suc n) (length buf) in
           (Inr k, s\<lparr>kf_script := r, kf_out := kf_out s @ take k buf\<rparr>)))"

interpretation kfd: descriptor k_write kf_out "\<lambda>s. length (kf_script s)"
  by standard (auto simp: Let_def min_def split: list.splits kstep.splits if_splits)

section \<open>Chunked writing\<close>

lemma chunk_write_Nil [simp]: "chunk_write wc s [] = Some (True, s)"
  by (subst chunk_write.simps) simp

lemma cs_buf_idle [simp]: "cs_buf s = [] \<Longrightarrow> s\<lparr>cs_buf := []\<rparr> = s"
  by (cases s) simp

text \<open>What follows a chunk: the rest of the input, unless the chunk failed.\<close>

fun chunk_next :: "'x chunk_writer \<Rightarrow> bytes \<Rightarrow> bool \<times> 'x chunk_strm \<Rightarrow> (bool \<times> 'x chunk_strm) option" where
  "chunk_next wc rest (ok, s) = (if ok then chunk_write wc s rest else Some (False, s))"

lemma chunk_next_fold: "(\<lambda>(ok, s). if ok then chunk_write wc s rest else Some (False, s)) = chunk_next wc rest"
  by auto

lemma chunk_write_full:
  assumes "inp \<noteq> []" and "chunk_sz s \<le> length (cs_buf s) + length inp"
    and "cs_buf s \<noteq> [] \<Longrightarrow> chunk_sz s \<le> cs_cap s \<and> length (cs_buf s) \<le> chunk_sz s"
  shows "chunk_write wc s inp =
    Option.bind (wc (s\<lparr>cs_buf := []\<rparr>)
        (if cs_buf s = [] then inp else cs_buf s @ take (chunk_sz s - length (cs_buf s)) inp)
        (chunk_sz s) False)
      (chunk_next wc (drop (chunk_sz s - length (cs_buf s)) inp))"
  using assms
  by (subst chunk_write.simps) (cases "cs_buf s = []"; simp add: chunk_next_fold Let_def)

text \<open>A \<open>write_chunk\<close> whose defined results do not depend on what follows the bytes it reads.\<close>

definition mono_wc :: "'x chunk_writer \<Rightarrow> bool" where
  "mono_wc wc \<longleftrightarrow>
     (\<forall>s buf xtra len fin r. wc s buf len fin = Some r \<longrightarrow> wc s (buf @ xtra) len fin = Some r)"

lemma mono_wcD: "mono_wc wc \<Longrightarrow> wc s buf len fin = Some r \<Longrightarrow> wc s (buf @ xtra) len fin = Some r"
  unfolding mono_wc_def by blast

lemma chunk_write_full_mono:
  assumes "mono_wc wc" and "inp \<noteq> []" and "chunk_sz s \<le> length (cs_buf s) + length inp"
    and "cs_buf s \<noteq> [] \<Longrightarrow> chunk_sz s \<le> cs_cap s \<and> length (cs_buf s) \<le> chunk_sz s"
    and "wc (s\<lparr>cs_buf := []\<rparr>) (cs_buf s @ take (chunk_sz s - length (cs_buf s)) inp) (chunk_sz s) False = Some r"
  shows "chunk_write wc s inp = chunk_next wc (drop (chunk_sz s - length (cs_buf s)) inp) r"
proof -
  have "wc (s\<lparr>cs_buf := []\<rparr>)
      (if cs_buf s = [] then inp else cs_buf s @ take (chunk_sz s - length (cs_buf s)) inp)
      (chunk_sz s) False = Some r"
    using mono_wcD [OF assms(1,5), of "drop (chunk_sz s) inp"] assms(5) by (cases "cs_buf s = []") simp_all
  with assms(2-4) show ?thesis by (subst chunk_write_full) simp_all
qed

lemma chunk_write_small:
  assumes "length (cs_buf s) + length inp < chunk_sz s"
    and "length (cs_buf s) + length inp \<le> cs_cap s \<or> inp = []"
  shows "chunk_write wc s inp = Some (True, s\<lparr>cs_buf := cs_buf s @ inp\<rparr>)"
  using assms by (subst chunk_write.simps) auto

text \<open>A defined result means that the internal buffer was large enough.\<close>

lemma chunk_write_defined:
  assumes "chunk_write wc s inp = Some r" and "inp \<noteq> []" and "cs_buf s \<noteq> []"
  shows "if chunk_sz s \<le> length (cs_buf s) + length inp
    then chunk_sz s \<le> cs_cap s \<and> length (cs_buf s) \<le> chunk_sz s
    else length (cs_buf s) + length inp \<le> cs_cap s"
proof (rule ccontr)
  assume "\<not> ?thesis"
  then have "chunk_write wc s inp = None"
    using assms(2,3) by (subst chunk_write.simps) (auto simp: not_le split: if_splits)
  with assms(1) show False by simp
qed

text \<open>Splitting a write does not matter, whatever \<open>write_chunk\<close> does with the stream.\<close>

lemma chunk_write_buffered:
  assumes mono: "mono_wc wc"
    and small: "length (cs_buf s) + length a < chunk_sz s" "length (cs_buf s) + length a \<le> cs_cap s"
    and run: "chunk_write wc (s\<lparr>cs_buf := cs_buf s @ a\<rparr>) b = Some r"
  shows "chunk_write wc s (a @ b) = Some r"
proof -
  let ?s = "s\<lparr>cs_buf := cs_buf s @ a\<rparr>"
  consider "b = []" | "a = []" | "a \<noteq> []" "b \<noteq> []" by blast
  then show ?thesis
  proof cases
    case 1
    with small run show ?thesis by (simp add: chunk_write_small)
  next
    case 2
    with run show ?thesis by simp
  next
    case 3
    then have d: "if chunk_sz s \<le> length (cs_buf s) + length a + length b
        then chunk_sz s \<le> cs_cap s else length (cs_buf s) + length a + length b \<le> cs_cap s"
      using chunk_write_defined [OF run] by (simp split: if_splits)
    show ?thesis
    proof (cases "chunk_sz s \<le> length (cs_buf s) + length a + length b")
      case True
      let ?n = "chunk_sz s - length (cs_buf s)"
      have n: "chunk_sz s - length (cs_buf s @ a) = ?n - length a" "length a \<le> ?n"
        using small by auto
      have "chunk_write wc ?s b =
          Option.bind (wc (s\<lparr>cs_buf := []\<rparr>) ((cs_buf s @ a) @ take (?n - length a) b) (chunk_sz s) False)
            (chunk_next wc (drop (?n - length a) b))"
        using 3 True d small chunk_write_full [of b ?s wc] n(1) by simp
      with run obtain x where
        x: "wc (s\<lparr>cs_buf := []\<rparr>) (cs_buf s @ take ?n (a @ b)) (chunk_sz s) False = Some x"
          "chunk_next wc (drop ?n (a @ b)) x = Some r"
        using n(2) by (auto simp: bind_eq_Some_conv)
      have "chunk_write wc s (a @ b) = chunk_next wc (drop ?n (a @ b)) x"
        using 3 True d small by (intro chunk_write_full_mono [OF mono _ _ _ x(1)]) auto
      with x(2) show ?thesis by simp
    next
      case False
      then have "chunk_write wc s (a @ b) = Some (True, s\<lparr>cs_buf := cs_buf s @ a @ b\<rparr>)"
        and "chunk_write wc ?s b = Some (True, s\<lparr>cs_buf := cs_buf s @ a @ b\<rparr>)"
        using d chunk_write_small [of s "a @ b" wc] chunk_write_small [of ?s b wc] by auto
      with run show ?thesis by simp
    qed
  qed
qed

definition joins :: "'x chunk_writer \<Rightarrow> bytes \<Rightarrow> 'x chunk_strm \<Rightarrow> bytes \<Rightarrow> bool \<times> 'x chunk_strm \<Rightarrow> bool" where
  "joins wc b s a r \<longleftrightarrow> mono_wc wc \<longrightarrow>
     (if fst r then \<forall>r'. chunk_write wc (snd r) b = Some r' \<longrightarrow> chunk_write wc s (a @ b) = Some r'
      else chunk_write wc s (a @ b) = Some r)"

lemma chunk_write_split:
  assumes "chunk_write wc s a = Some r"
  shows "joins wc b s a r"
proof (rule chunk_write.raw_induct [where P = "\<lambda>wc s a r. joins wc b s a r"], goal_cases)
  case (1 rec wc s inp r)
  show ?case
  proof (cases "mono_wc wc \<and> inp \<noteq> [] \<and> chunk_sz s \<le> length (cs_buf s) + length inp")
    case False
    with 1 chunk_write_buffered [of wc s inp b] show ?thesis
      by (auto simp: joins_def split: if_splits)
  next
    case True
    let ?n = "chunk_sz s - length (cs_buf s)"
    let ?r = "if cs_buf s = [] then inp else cs_buf s @ take ?n inp"
    have ok: "cs_buf s \<noteq> [] \<Longrightarrow> chunk_sz s \<le> cs_cap s \<and> length (cs_buf s) \<le> chunk_sz s"
      using 1(2) True by (auto split: if_splits)
    have n: "?n \<le> length inp" using True by auto
    obtain v s' where wc: "wc (s\<lparr>cs_buf := []\<rparr>) ?r (chunk_sz s) False = Some (v, s')"
        and r: "r = (False, s') \<and> \<not> v \<or> v \<and> rec wc s' (drop ?n inp) = Some r"
      using 1(2) True ok by (cases "cs_buf s = []") (auto simp: Let_def bind_eq_Some_conv split: if_splits)
    have "wc (s\<lparr>cs_buf := []\<rparr>) (if cs_buf s = [] then inp @ b else cs_buf s @ take ?n (inp @ b))
        (chunk_sz s) False = Some (v, s')"
      using wc True n mono_wcD [of wc _ inp "chunk_sz s" False _ b] by (cases "cs_buf s = []") simp_all
    then have step: "chunk_write wc s (inp @ b) =
        (if v then chunk_write wc s' (drop ?n inp @ b) else Some (False, s'))"
      using True ok n by (subst chunk_write_full) auto
    show ?thesis
    proof (cases v)
      case True
      with r 1(1) have "joins wc b s' (drop ?n inp) r" by blast
      with True step show ?thesis by (auto simp: joins_def)
    next
      case False
      with r step show ?thesis by (simp add: joins_def)
    qed
  qed
qed (rule assms)

lemma chunk_writes_concat:
  "mono_wc wc \<Longrightarrow> writes (chunk_write wc) s bs = Some r \<Longrightarrow> chunk_write wc s (concat bs) = Some r"
proof (induction bs arbitrary: s)
  case (Cons b bs)
  then obtain ok s1 where s1: "chunk_write wc s b = Some (ok, s1)"
      "(if ok then writes (chunk_write wc) s1 bs else Some (False, s1)) = Some r"
    by (auto simp: bind_eq_Some_conv)
  with Cons.IH [of s1] Cons.prems(1) chunk_write_split [OF s1(1), of "concat bs"] show ?case
    by (auto simp: joins_def split: if_splits)
qed simp

section \<open>Fixed-size chunks\<close>

text \<open>The full chunks of a byte sequence, and what is left over.\<close>

function chunks :: "nat \<Rightarrow> 'a list \<Rightarrow> 'a list list" where
  "chunks n xs = (if n = 0 \<or> length xs < n then [] else take n xs # chunks n (drop n xs))"
  by pat_completeness auto

termination
  by (relation "measure (\<lambda>(n, xs). length xs)") auto

declare chunks.simps [simp del]

definition left_over :: "nat \<Rightarrow> 'a list \<Rightarrow> 'a list" where
  "left_over n xs = drop (n * (length xs div n)) xs"

lemma left_over_small: "length xs < n \<Longrightarrow> left_over n xs = xs"
  by (simp add: left_over_def)

lemma left_over_drop:
  assumes "0 < n" and "n \<le> length xs"
  shows "left_over n xs = left_over n (drop n xs)"
proof -
  have "length xs div n = Suc ((length xs - n) div n)"
    using assms by (simp add: le_div_geq)
  then show ?thesis by (simp add: left_over_def add.commute)
qed

lemma left_over_length: "0 < n \<Longrightarrow> length (left_over n xs) < n"
  by (simp add: left_over_def minus_mult_div_eq_mod)

lemma chunks_left_over: "0 < n \<Longrightarrow> concat (chunks n xs) @ left_over n xs = xs"
proof (induction n xs rule: chunks.induct)
  case (1 n xs)
  then show ?case
    by (cases "length xs < n") (simp_all add: chunks.simps [of n xs] left_over_small left_over_drop [of n xs])
qed

lemma chunks_lengths: "x \<in> set (chunks n xs) \<Longrightarrow> length x = n \<and> x \<noteq> []"
proof (induction n xs rule: chunks.induct)
  case (1 n xs)
  then show ?case by (auto simp: chunks.simps [of n xs] split: if_splits)
qed

text \<open>All the chunks a stream emits for \<open>xs\<close>, the short last one included.\<close>

definition all_chunks :: "nat \<Rightarrow> 'a list \<Rightarrow> 'a list list" where
  "all_chunks n xs = chunks n xs @ (if left_over n xs = [] then [] else [left_over n xs])"

lemma all_chunks_concat: "0 < n \<Longrightarrow> concat (all_chunks n xs) = xs"
  using chunks_left_over [of n xs] by (auto simp: all_chunks_def)

lemma all_chunks_lengths: "0 < n \<Longrightarrow> x \<in> set (all_chunks n xs) \<Longrightarrow> x \<noteq> [] \<and> length x \<le> n"
  using left_over_length [of n xs] chunks_lengths [of x n xs]
  by (auto simp: all_chunks_def split: if_splits)

text \<open>What a chunked stream does to its subclass: full chunks are not final, the short last one is;
  an input of whole chunks never sees the final flag.\<close>

definition emit_all :: "nat \<Rightarrow> (bool \<Rightarrow> 'x \<Rightarrow> 'a list \<Rightarrow> 'x) \<Rightarrow> 'x \<Rightarrow> 'a list \<Rightarrow> 'x" where
  "emit_all n emit x xs =
     (let y = foldl (emit False) x (chunks n xs) in
      if left_over n xs = [] then y else emit True y (left_over n xs))"

lemma emit_all_no_flag: "emit_all n (\<lambda>_. f) x xs = foldl f x (all_chunks n xs)"
  by (simp add: emit_all_def all_chunks_def Let_def)

text \<open>The contract of a \<open>write_chunk\<close> that keeps its chunk size and accepts every chunk of at most
  that size; \<open>emit\<close> is what it does to the subclass state.\<close>

locale chunker =
  fixes wc :: "'x chunk_writer"
    and emit :: "bool \<Rightarrow> 'x \<Rightarrow> bytes \<Rightarrow> 'x"
    and good :: "'x \<Rightarrow> bool"
    and csz :: nat
  assumes csz_pos: "0 < csz"
    and wc_mono: "mono_wc wc"
    and wc_emit: "good (cs_sub s) \<Longrightarrow> buf \<noteq> [] \<Longrightarrow> length buf \<le> csz \<Longrightarrow>
      wc s (buf @ xtra) (length buf) fin = Some (True, s\<lparr>cs_sub := emit fin (cs_sub s) buf\<rparr>) \<and>
      good (emit fin (cs_sub s) buf)"
begin

definition ready :: "'x chunk_strm \<Rightarrow> bool" where
  "ready s \<longleftrightarrow> good (cs_sub s) \<and> chunk_sz s = csz \<and> csz \<le> cs_cap s \<and> length (cs_buf s) < csz"

lemma chunk_write_emits:
  assumes "ready s"
  shows "\<exists>s'. chunk_write wc s xs = Some (True, s') \<and> ready s' \<and>
    cs_cap s' = cs_cap s \<and> cs_buf s' = left_over csz (cs_buf s @ xs) \<and>
    cs_sub s' = foldl (emit False) (cs_sub s) (chunks csz (cs_buf s @ xs))"
  using assms
proof (induction "length xs" arbitrary: xs s rule: less_induct)
  case less
  then have r: "good (cs_sub s)" "chunk_sz s = csz" "csz \<le> cs_cap s" "length (cs_buf s) < csz"
    by (simp_all add: ready_def)
  show ?case
  proof (cases "length (cs_buf s) + length xs < csz")
    case True
    then have "chunk_write wc s xs = Some (True, s\<lparr>cs_buf := cs_buf s @ xs\<rparr>)"
      using r by (intro chunk_write_small) auto
    with True r show ?thesis by (simp add: left_over_small chunks.simps ready_def)
  next
    case False
    let ?n = "csz - length (cs_buf s)"
    let ?c = "cs_buf s @ take ?n xs"
    let ?s1 = "s\<lparr>cs_buf := [], cs_sub := emit False (cs_sub s) ?c\<rparr>"
    have c: "length ?c = csz" "take csz (cs_buf s @ xs) = ?c" "drop csz (cs_buf s @ xs) = drop ?n xs"
      using False r by auto
    have "?c \<noteq> []" using c(1) csz_pos by (metis list.size(3) less_irrefl)
    then have w: "wc (s\<lparr>cs_buf := []\<rparr>) (?c @ xtra) csz False = Some (True, ?s1)" and r1: "ready ?s1" for xtra
      using wc_emit [of "s\<lparr>cs_buf := []\<rparr>" ?c xtra False] c(1) r by (simp_all add: ready_def csz_pos)
    have w': "wc (s\<lparr>cs_buf := []\<rparr>) (if cs_buf s = [] then xs else ?c) csz False = Some (True, ?s1)"
      using w [of "[]"] w [of "drop csz xs"] by (cases "cs_buf s = []") simp_all
    from False r have ne: "xs \<noteq> []" by auto
    have "chunk_write wc s xs = chunk_write wc ?s1 (drop ?n xs)"
      using False r w' ne by (subst chunk_write_full) auto
    moreover have "0 < ?n" using r(4) by simp
    moreover have "length (drop ?n xs) < length xs" using r(4) ne by (cases xs) auto
    moreover have "chunks csz (cs_buf s @ xs) = ?c # chunks csz (drop ?n xs)"
      using c False csz_pos by (subst chunks.simps) simp
    moreover have "left_over csz (cs_buf s @ xs) = left_over csz (drop ?n xs)"
      using c(3) False csz_pos left_over_drop [of csz "cs_buf s @ xs"] by simp
    ultimately show ?thesis using less.hyps [of "drop ?n xs" ?s1] r1 by simp
  qed
qed

lemma chunk_writes_emit:
  assumes "ready s" and "cs_buf s = left_over csz pre" 
  shows "\<exists>s'. writes (chunk_write wc) s bs = Some (True, s') \<and> ready s' \<and> cs_cap s' = cs_cap s \<and>
    cs_buf s' = left_over csz (left_over csz pre @ concat bs) \<and>
    cs_sub s' = foldl (emit False) (cs_sub s) (chunks csz (left_over csz pre @ concat bs))"
proof -
  have "\<exists>s'. writes (chunk_write wc) s bs = Some (True, s')"
    using assms(1)
  proof (induction bs arbitrary: s)
    case (Cons b bs)
    then show ?case using chunk_write_emits [OF Cons.prems, of b] by fastforce
  qed simp
  then obtain s' where s': "writes (chunk_write wc) s bs = Some (True, s')" by blast
  show ?thesis
    using chunk_writes_concat [OF wc_mono s'] chunk_write_emits [OF assms(1), of "concat bs"] assms(2) s' by auto
qed

text \<open>From construction to destruction: every chunk of the whole input is emitted once, in order.\<close>

lemma chunk_session:
  assumes "good x" and "csz \<le> cap"
  shows "\<exists>s'. writes (chunk_write wc) (chunk_new cap csz x) bs = Some (True, s') \<and>
    chunk_finalize wc s' =
      Some \<lparr>chunk_sz = csz, cs_buf = [], cs_cap = cap,
            cs_sub = emit_all csz emit x (concat bs)\<rparr>"
proof -
  let ?s = "chunk_new cap csz x"
  have "ready ?s" "cs_buf ?s = left_over csz []"
    using assms csz_pos by (simp_all add: ready_def chunk_new_def left_over_def)
  from chunk_writes_emit [OF this, of bs] obtain s' where
    s': "writes (chunk_write wc) ?s bs = Some (True, s')" "ready s'" "cs_cap s' = cap"
      "cs_buf s' = left_over csz (concat bs)" "cs_sub s' = foldl (emit False) x (chunks csz (concat bs))"
    by (auto simp: chunk_new_def left_over_def)
  have "chunk_finalize wc s' = Some (s'\<lparr>cs_buf := [], cs_sub := emit_all csz emit x (concat bs)\<rparr>)"
    using s' wc_emit [of s' "cs_buf s'" "[]" True]
    by (auto simp: chunk_finalize_def emit_all_def ready_def)
  with s' show ?thesis by (cases s') (auto simp: ready_def)
qed

end

text \<open>The plain chunked stream over any sink.\<close>

lemma chunk_write_chunk_mono: "mono_wc (chunk_write_chunk base)"
  unfolding mono_wc_def chunk_write_chunk_def
  by (auto simp: bind_eq_Some_conv dest: rd_append)

sublocale sink \<subseteq> plain: chunker "chunk_write_chunk wrt" "\<lambda>_ b buf. snd (the (wrt b buf))" good 4096
proof
  fix s :: "'s chunk_strm" and buf xtra fin
  assume "good (cs_sub s)"
  then show "chunk_write_chunk wrt s (buf @ xtra) (length buf) fin =
      Some (True, s\<lparr>cs_sub := snd (the (wrt (cs_sub s) buf))\<rparr>) \<and> good (snd (the (wrt (cs_sub s) buf)))"
    using wrt_appends [of "cs_sub s" buf] by (auto simp: chunk_write_chunk_def rd_def slice_def)
qed (simp_all add: chunk_write_chunk_mono)

context sink
begin

lemma emits_append:
  "good b \<Longrightarrow> good (foldl (\<lambda>b buf. snd (the (wrt b buf))) b cs) \<and>
    out (foldl (\<lambda>b buf. snd (the (wrt b buf))) b cs) = out b @ concat cs"
proof (induction cs arbitrary: b)
  case (Cons c cs)
  with wrt_appends [OF Cons.prems, of c] show ?case by force
qed simp

text \<open>Buffering in chunks is invisible once the stream has been finalised.\<close>

lemma plain_transparent:
  assumes "good b"
  shows "\<exists>s' f. writes (chunk_write (chunk_write_chunk wrt)) (chunk_new 4096 4096 b) bs = Some (True, s') \<and>
    chunk_finalize (chunk_write_chunk wrt) s' = Some f \<and> out (cs_sub f) = out b @ concat bs"
  using plain.chunk_session [OF assms, of 4096 bs] emits_append [OF assms, of "all_chunks 4096 (concat bs)"]
  by (auto simp: all_chunks_concat emit_all_no_flag)

end

section \<open>Runs of a chunked stream\<close>

text \<open>A successful run in which every chunk fits the internal buffer. It can be cut anywhere, which a
  stream that changes its chunk size needs: the cut pieces are then processed with success too.\<close>

inductive chunk_run :: "'x chunk_writer \<Rightarrow> 'x chunk_strm \<Rightarrow> bytes \<Rightarrow> 'x chunk_strm \<Rightarrow> bool"
  for wc where
  idle: "chunk_run wc s [] s"
| keep: "length (cs_buf s) + length inp < chunk_sz s \<Longrightarrow> chunk_sz s \<le> cs_cap s \<Longrightarrow>
    chunk_run wc s inp (s\<lparr>cs_buf := cs_buf s @ inp\<rparr>)"
| full: "length (cs_buf s) < chunk_sz s \<Longrightarrow> chunk_sz s \<le> cs_cap s \<Longrightarrow>
    chunk_sz s \<le> length (cs_buf s) + length inp \<Longrightarrow>
    wc (s\<lparr>cs_buf := []\<rparr>) (cs_buf s @ take (chunk_sz s - length (cs_buf s)) inp) (chunk_sz s) False = Some (True, s1) \<Longrightarrow>
    chunk_run wc s1 (drop (chunk_sz s - length (cs_buf s)) inp) s2 \<Longrightarrow> chunk_run wc s inp s2"

lemma chunk_run_write: "chunk_run wc s inp s' \<Longrightarrow> mono_wc wc \<Longrightarrow> chunk_write wc s inp = Some (True, s')"
proof (induction rule: chunk_run.induct)
  case (keep s inp)
  then show ?case by (simp add: chunk_write_small)
next
  case (full s inp s1 s2)
  then show ?case by (subst chunk_write_full_mono [OF \<open>mono_wc wc\<close> _ _ _ full.hyps(4)]) auto
qed simp

lemma chunk_run_split:
  "chunk_run wc s inp s2 \<Longrightarrow> inp = a @ b \<Longrightarrow> \<exists>s1. chunk_run wc s a s1 \<and> chunk_run wc s1 b s2"
proof (induction arbitrary: a rule: chunk_run.induct)
  case (idle s)
  then show ?case by (auto intro: chunk_run.idle)
next
  case (keep s inp)
  let ?s1 = "s\<lparr>cs_buf := cs_buf s @ a\<rparr>"
  have "chunk_run wc s a ?s1" using keep by (intro chunk_run.keep) auto
  moreover have "chunk_run wc ?s1 b (?s1\<lparr>cs_buf := cs_buf ?s1 @ b\<rparr>)"
    using keep by (intro chunk_run.keep) auto
  ultimately show ?case using keep by auto
next
  case (full s inp s1 s2)
  let ?n = "chunk_sz s - length (cs_buf s)"
  show ?case
  proof (cases "?n \<le> length a")
    case True
    then have "drop ?n inp = drop ?n a @ b" "take ?n inp = take ?n a" using full.prems by auto
    with full.IH obtain t where "chunk_run wc s1 (drop ?n a) t" "chunk_run wc t b s2" by blast
    moreover from this full.hyps \<open>take ?n inp = take ?n a\<close> True have "chunk_run wc s a t"
      by (intro chunk_run.full [of s a wc s1 t]) auto
    ultimately show ?thesis by blast
  next
    case False
    let ?t = "s\<lparr>cs_buf := cs_buf s @ a\<rparr>"
    have "chunk_run wc s a ?t" using False full.hyps by (intro chunk_run.keep) auto
    moreover have "take ?n inp = a @ take (?n - length a) b" "drop ?n inp = drop (?n - length a) b"
      using False full.prems by auto
    then have "chunk_run wc ?t b s2"
      using False full.hyps full.prems by (intro chunk_run.full [of ?t b wc s1 s2]) (auto simp: diff_diff_left)
    ultimately show ?thesis by blast
  qed
qed

lemma chunk_run_writes:
  "chunk_run wc s (concat ps) s' \<Longrightarrow> mono_wc wc \<Longrightarrow> writes (chunk_write wc) s ps = Some (True, s')"
proof (induction ps arbitrary: s)
  case Nil
  then show ?case using chunk_run_write [of wc s "[]" s'] by simp
next
  case (Cons p ps)
  then obtain t where t: "chunk_run wc s p t" "chunk_run wc t (concat ps) s'"
    using chunk_run_split [of wc s _ s' p "concat ps"] by auto
  with Cons chunk_run_write [OF t(1)] show ?case by simp
qed

section \<open>Properties\<close>



text \<open>C19: over a memory stream the plain chunked stream delivers, after \<open>finalize\<close>, exactly the bytes
  written to it, in order, whatever the sizes of the writes; no write fails.\<close>

theorem chunk_stream_transparent:
  assumes "bs_appending b"
  shows "\<exists>s' f. writes (chunk_write (chunk_write_chunk (bs_write junk))) (chunk_new 4096 4096 b) bs = Some (True, s') \<and>
    chunk_finalize (chunk_write_chunk (bs_write junk)) s' = Some f \<and>
    take (bs_sz (cs_sub f)) (bs_mem (cs_sub f)) = take (bs_sz b) (bs_mem b) @ concat bs"
  using assms by (rule bs_sink.plain_transparent)

theorem chunk_stream_transparent_witness:
  "\<exists>s' f. writes (chunk_write (chunk_write_chunk (bs_write 0)))
      (chunk_new 4096 4096 \<lparr>bs_mem = [], bs_sz = 0, bs_pos = 0, bs_cap = 0\<rparr>) [[1], [2, 3]] = Some (True, s') \<and>
    chunk_finalize (chunk_write_chunk (bs_write 0)) s' = Some f \<and>
    take (bs_sz (cs_sub f)) (bs_mem (cs_sub f)) = [1, 2, 3]"
  using chunk_stream_transparent [of "\<lparr>bs_mem = [], bs_sz = 0, bs_pos = 0, bs_cap = 0\<rparr>" 0 "[[1], [2, 3]]"]
  by (simp add: bs_appending_def bs_wf_def)

text \<open>C23: what has been written to a growing memory stream is read back in full by \<open>readFully\<close> from
  the start, with the buffer never outgrown.\<close>

theorem byte_stream_read_back:
  assumes "bs_appending b"
  shows "\<exists>s' r. writes (bs_write junk) b bs = Some (True, s') \<and> bs_sz s' \<le> length (bs_mem s') \<and>
    readFully bs_read (bs_sz s') (s'\<lparr>bs_pos := 0\<rparr>) =
      Some (Inr (take (bs_sz b) (bs_mem b) @ concat bs), r)"
proof -
  obtain s' where s': "writes (bs_write junk) b bs = Some (True, s')" "bs_appending s'"
      "take (bs_sz s') (bs_mem s') = take (bs_sz b) (bs_mem b) @ concat bs"
    using bs_sink.writes_append [OF assms, of junk bs] by blast
  have "bs_wf (s'\<lparr>bs_pos := 0\<rparr>)" using s'(2) by (simp add: bs_appending_def bs_wf_def)
  from bs_src.readFully_total [OF this, of "bs_sz s'"] obtain r where
    "readFully bs_read (bs_sz s') (s'\<lparr>bs_pos := 0\<rparr>) = Some (Inr (take (bs_sz s') (bs_mem s')), r)"
    by (auto simp: bs_content_def)
  with s' show ?thesis by (auto simp: bs_appending_def bs_wf_def)
qed

theorem byte_stream_read_back_witness:
  "\<exists>s' r. writes (bs_write 0) \<lparr>bs_mem = [], bs_sz = 0, bs_pos = 0, bs_cap = 0\<rparr> [[1], [2, 3]] = Some (True, s') \<and>
    bs_sz s' \<le> length (bs_mem s') \<and>
    readFully bs_read (bs_sz s') (s'\<lparr>bs_pos := 0\<rparr>) = Some (Inr [1, 2, 3], r)"
  using byte_stream_read_back [of "\<lparr>bs_mem = [], bs_sz = 0, bs_pos = 0, bs_cap = 0\<rparr>" 0 "[[1], [2, 3]]"]
  by (simp add: bs_appending_def bs_wf_def)

text \<open>Writing to a descriptor survives every finite sequence of interruptions and short writes;
  but a descriptor that accepts nothing is reported as success with the data lost.\<close>

theorem file_write_outcome:
  "(\<exists>s'. file_write k_write s buf = Some (True, s') \<and> kf_out s' = kf_out s @ buf) \<and>
   file_write (\<lambda>s buf. (Inr 0, s)) s buf = Some (True, s)"
  using kfd.file_write_total [of s buf] by (simp add: file_write.simps)

end
