(* ===== verification/Base_Files.thy ===== *)
theory Base_Files
  imports Base_Misc Base_Stream
begin

text \<open>
  File helpers of \<^verbatim>\<open>src/native/src/base/files.cpp\<close> and \<^verbatim>\<open>src/native/src/base/files.hpp\<close>: alignment,
  whole-file reading, zero filling, line-wise and property-file parsing, and the choice of the
  pre-init directory. File content is a string, and a callback is a function that updates a state
  and says whether to go on.
\<close>

section \<open>Alignment\<close>

text \<open>\<open>align_to<size_t>(v, a)\<close>: the \<open>int\<close> argument is converted to 64 bits with its sign, sums wrap and
  a zero divisor has no result.\<close>

definition align_to :: "u64 \<Rightarrow> u32 \<Rightarrow> u64 option" where
  "align_to v a =
     (let a' = scast a :: u64 in
      if a' = 0 then None else Some ((v + a' - 1) div a' * a'))"

text \<open>The same on non-negative numbers that do not wrap, as used for file offsets.\<close>

definition align_up :: "nat \<Rightarrow> nat \<Rightarrow> nat" where
  "align_up v a = (v + a - 1) div a * a"

definition align_padding :: "nat \<Rightarrow> nat \<Rightarrow> nat" where
  "align_padding v a = align_up v a - v"

lemma align_up_dvd: "a dvd align_up v a"
  by (simp add: align_up_def)

lemma align_up_ge:
  assumes "0 < a"
  shows "v \<le> align_up v a"
proof -
  have "align_up v a = v + a - 1 - (v + a - 1) mod a"
    by (simp add: align_up_def minus_mod_eq_div_mult)
  moreover have "(v + a - 1) mod a < a" using assms by simp
  ultimately show ?thesis using assms by linarith
qed

lemma align_up_less:
  assumes "0 < a"
  shows "align_up v a < v + a"
proof -
  have "align_up v a \<le> v + a - 1" by (simp add: align_up_def)
  with assms show ?thesis by linarith
qed

lemma align_up_idem:
  assumes "0 < a" and "a dvd v"
  shows "align_up v a = v"
proof -
  obtain k where k: "v = a * k" using assms(2) by (auto elim: dvdE)
  have "v + a - 1 = (a - 1) + a * k" using assms(1) by (simp add: k)
  moreover have "((a - 1) + a * k) div a = k + (a - 1) div a"
    using assms(1) by (intro div_mult_self2) simp
  ultimately have "(v + a - 1) div a = k" using assms(1) by simp
  then show ?thesis by (simp add: align_up_def k mult.commute)
qed

lemma align_up_mono: "v \<le> w \<Longrightarrow> align_up v a \<le> align_up w a"
  by (simp add: align_up_def div_le_mono)

lemma scast_u32_u64:
  assumes "unat (a :: u32) < 2 ^ 31"
  shows "(scast a :: u64) = of_nat (unat a)"
proof -
  have "int (unat a) < int (2 ^ 31)" using assms by (simp only: of_nat_less_iff)
  then have "uint a < 2 ^ 31" by (simp add: uint_nat [symmetric])
  moreover have "- (2 ^ 31) \<le> uint a" by (rule order_trans [OF _ uint_ge_0]) simp
  ultimately have "sint a = uint a"
    unfolding sint_uint by (intro signed_take_bit_int_eq_self) simp_all
  then show ?thesis by (simp add: scast_eq)
qed

lemma of_nat_div_u64: "x < 2 ^ 64 \<Longrightarrow> y < 2 ^ 64 \<Longrightarrow> (of_nat x :: u64) div of_nat y = of_nat (x div y)"
proof -
  assume "x < 2 ^ 64" "y < 2 ^ 64"
  moreover from this have "x div y < 2 ^ 64" by (meson div_le_dividend le_less_trans)
  ultimately show ?thesis
    by (simp add: word_unat_eq_iff unat_div unat_of_nat take_bit_nat_eq_self)
qed

lemma align_to_nat:
  assumes "0 < unat a" and "unat a < 2 ^ 31" and "unat v + unat a \<le> 2 ^ 64"
  shows "align_to v a = Some (of_nat (align_up (unat v) (unat a)))"
proof -
  have a: "(scast a :: u64) = of_nat (unat a)" by (rule scast_u32_u64 [OF assms(2)])
  have "unat a < 2 ^ 64" using assms(2) by simp
  then have "unat (of_nat (unat a) :: u64) = unat a"
    unfolding unat_of_nat by simp
  then have nz: "(of_nat (unat a) :: u64) \<noteq> 0" using assms(1) by (metis less_irrefl unat_0)
  have sum: "v + of_nat (unat a) - 1 = of_nat (unat v + unat a - 1)"
    using assms(1) by (simp add: of_nat_diff)
  have quot: "(of_nat (unat v + unat a - 1) :: u64) div of_nat (unat a) =
      of_nat ((unat v + unat a - 1) div unat a)"
    using assms by (intro of_nat_div_u64) auto
  show ?thesis
    unfolding align_to_def Let_def a by (simp only: nz if_False sum quot align_up_def of_nat_mult)
qed

section \<open>Reading and writing whole files\<close>

text \<open>\<open>full_read\<close>: \<open>xread\<close> reports an error as a negative length, which ends the loop like the end of
  the file does. \<open>reads\<close> are the successive results.\<close>

fun full_read :: "(errno + bytes) list \<Rightarrow> bytes \<Rightarrow> bytes" where
  "full_read [] str = str"
| "full_read (Inl e # rs) str = str"
| "full_read (Inr bs # rs) str = (if bs = [] then str else full_read rs (str @ bs))"

text \<open>\<open>write_zero\<close>: blocks of at most 4096 zeros; what the kernel reports is not looked at.\<close>

function write_zero :: "('s \<Rightarrow> bytes \<Rightarrow> 's) \<Rightarrow> nat \<Rightarrow> 's \<Rightarrow> 's" where
  "write_zero wrt sz s =
     (if 0 < sz then
        (let len = (if sz < 4096 then sz else 4096) in
         write_zero wrt (sz - len) (wrt s (replicate len 0)))
      else s)"
  by pat_completeness auto

termination
  by (relation "measure (\<lambda>(wrt, sz, s). sz)") (auto split: if_splits)

declare write_zero.simps [simp del]

lemma write_zero_appends:
  assumes "\<And>s bs. out (wrt s bs) = out s @ bs"
  shows "out (write_zero wrt sz s) = out s @ replicate sz (0 :: byte)"
  using assms
proof (induction wrt sz s rule: write_zero.induct)
  case (1 wrt sz s)
  show ?case
  proof (cases "0 < sz")
    case True
    let ?len = "if sz < 4096 then sz else 4096"
    have "out (write_zero wrt sz s) = (out s @ replicate ?len 0) @ replicate (sz - ?len) 0"
      using 1 True by (simp add: write_zero.simps [of wrt sz s] Let_def)
    also have "\<dots> = out s @ replicate sz 0"
      by (simp flip: replicate_add)
    finally show ?thesis .
  qed (simp add: write_zero.simps)
qed

text \<open>\<open>fd_pathat\<close>: the path of the directory (when \<open>fd_path\<close> succeeds), a slash, and as much of the name
  as fits the buffer.\<close>

definition fd_pathat :: "string option \<Rightarrow> string \<Rightarrow> nat \<Rightarrow> string option option" where
  "fd_pathat dir name sz =
     (case dir of
        None \<Rightarrow> Some None
      | Some d \<Rightarrow>
          if length d + 1 < sz
          then Some (Some (d @ ''/'' @ take (sz - length d - 2) name)) else None)"

section \<open>Lines and properties\<close>

text \<open>What \<open>getline\<close> returns: each line with its newline, the last one possibly without.\<close>

fun getlines :: "string \<Rightarrow> string list" where
  "getlines [] = []"
| "getlines (c # cs) =
     (if c = CHR 0x0A then [c] # getlines cs
      else (case getlines cs of
              [] \<Rightarrow> [[c]]
            | l # ls \<Rightarrow> (c # l) # ls))"

definition trim_end :: "string \<Rightarrow> string" where
  "trim_end s = rev (dropWhile (\<lambda>c. c \<in> set [CHR 0x0A, CHR 0x0D, CHR '' '']) (rev s))"

text \<open>The line as the callback sees it: a C string, so it ends at a zero byte.\<close>

definition line_view :: "bool \<Rightarrow> string \<Rightarrow> string" where
  "line_view trim l =
     (if trim then dropWhile (\<lambda>c. c = CHR '' '') (c_str (trim_end l)) else c_str l)"

fun feed :: "('s \<Rightarrow> string \<Rightarrow> 's \<times> bool) \<Rightarrow> 's \<Rightarrow> string list \<Rightarrow> 's" where
  "feed fn s [] = s"
| "feed fn s (l # ls) = (case fn s l of (s', go) \<Rightarrow> if go then feed fn s' ls else s')"

definition file_readline :: "bool \<Rightarrow> string \<Rightarrow> ('s \<Rightarrow> string \<Rightarrow> 's \<times> bool) \<Rightarrow> 's \<Rightarrow> 's" where
  "file_readline trim content fn s = feed fn s (map (line_view trim) (getlines content))"

definition prop_line :: "('s \<Rightarrow> string \<Rightarrow> string \<Rightarrow> 's \<times> bool) \<Rightarrow> 's \<Rightarrow> string \<Rightarrow> 's \<times> bool" where
  "prop_line fn s line =
     (if take 1 line = ''#'' then (s, True)
      else
        (let key = takeWhile (\<lambda>c. c \<noteq> CHR ''='') line in
         if key = line \<or> key = [] then (s, True)
         else fn s key (drop (length key + 1) line)))"

definition parse_prop_file :: "string \<Rightarrow> ('s \<Rightarrow> string \<Rightarrow> string \<Rightarrow> 's \<times> bool) \<Rightarrow> 's \<Rightarrow> 's" where
  "parse_prop_file content fn s = file_readline True content (prop_line fn) s"

text \<open>A file of \<open>key=value\<close> lines, and the pairs that survive the trimming and splitting.\<close>

definition prop_text :: "(string \<times> string) list \<Rightarrow> string" where
  "prop_text kvs = concat (map (\<lambda>(k, v). k @ ''='' @ v @ [CHR 0x0A]) kvs)"

definition prop_pair :: "string \<times> string \<Rightarrow> bool" where
  "prop_pair kv \<longleftrightarrow>
     (case kv of (k, v) \<Rightarrow>
        k \<noteq> [] \<and> hd k \<noteq> CHR ''#'' \<and> hd k \<noteq> CHR '' '' \<and> CHR ''='' \<notin> set k \<and>
        CHR 0x0A \<notin> set (k @ v) \<and> CHR 0x00 \<notin> set (k @ v) \<and>
        (v \<noteq> [] \<longrightarrow> last v \<notin> {CHR 0x0D, CHR '' ''}))"

fun feed_props :: "('s \<Rightarrow> string \<Rightarrow> string \<Rightarrow> 's \<times> bool) \<Rightarrow> 's \<Rightarrow> (string \<times> string) list \<Rightarrow> 's" where
  "feed_props fn s [] = s"
| "feed_props fn s ((k, v) # kvs) = (case fn s k v of (s', go) \<Rightarrow> if go then feed_props fn s' kvs else s')"

lemma getlines_line:
  "CHR 0x0A \<notin> set l \<Longrightarrow> getlines (l @ CHR 0x0A # rest) = (l @ [CHR 0x0A]) # getlines rest"
  by (induction l) auto

lemma trim_end_line: "l \<noteq> [] \<Longrightarrow> last l \<notin> {CHR 0x0A, CHR 0x0D, CHR '' ''} \<Longrightarrow> trim_end (l @ [CHR 0x0A]) = l"
  by (cases l rule: rev_cases) (simp_all add: trim_end_def)

lemma prop_line_pair: "CHR ''='' \<notin> set k \<Longrightarrow> k \<noteq> [] \<Longrightarrow> hd k \<noteq> CHR ''#'' \<Longrightarrow>
    prop_line fn s (k @ CHR ''='' # v) = fn s k v"
proof -
  assume k: "CHR ''='' \<notin> set k" "k \<noteq> []" "hd k \<noteq> CHR ''#''"
  have t: "takeWhile (\<lambda>c. c \<noteq> CHR ''='') (k @ CHR ''='' # v) = k"
    using k(1) by (induction k) auto
  have "take 1 (k @ CHR ''='' # v) \<noteq> ''#''" using k by (cases k) auto
  then show ?thesis unfolding prop_line_def t using k by simp
qed

lemma line_view_pair:
  assumes "prop_pair (k, v)"
  shows "line_view True (k @ ''='' @ v @ [CHR 0x0A]) = k @ CHR ''='' # v"
proof -
  let ?l = "k @ CHR ''='' # v"
  have "last ?l \<notin> {CHR 0x0A, CHR 0x0D, CHR '' ''}"
    using assms by (auto simp: prop_pair_def dest: last_in_set)
  then have "trim_end (?l @ [CHR 0x0A]) = ?l" by (intro trim_end_line) simp_all
  moreover have "c_str ?l = ?l" using assms by (intro c_str_no_nul) (auto simp: prop_pair_def)
  moreover have "dropWhile (\<lambda>c. c = CHR '' '') ?l = ?l"
    using assms by (cases k) (auto simp: prop_pair_def)
  ultimately show ?thesis by (simp add: line_view_def)
qed

lemma parse_prop_text:
  "(\<And>kv. kv \<in> set kvs \<Longrightarrow> prop_pair kv) \<Longrightarrow> parse_prop_file (prop_text kvs) fn s = feed_props fn s kvs"
proof (induction kvs arbitrary: s)
  case (Cons kv kvs)
  obtain k v where kv: "kv = (k, v)" by (cases kv)
  have p: "prop_pair (k, v)" using Cons.prems kv by simp
  have "getlines (prop_text (kv # kvs)) = (k @ ''='' @ v @ [CHR 0x0A]) # getlines (prop_text kvs)"
    using p getlines_line [of "k @ ''='' @ v" "prop_text kvs"] by (simp add: prop_text_def kv prop_pair_def)
  moreover have "prop_line fn s (line_view True (k @ ''='' @ v @ [CHR 0x0A])) = fn s k v"
    unfolding line_view_pair [OF p] using p by (intro prop_line_pair) (auto simp: prop_pair_def)
  moreover have "feed (prop_line fn) s' (map (line_view True) (getlines (prop_text kvs))) = feed_props fn s' kvs" for s'
    using Cons.IH [of s'] Cons.prems by (simp add: parse_prop_file_def file_readline_def)
  ultimately show ?case
    unfolding parse_prop_file_def file_readline_def by (cases "fn s k v") (simp add: kv del: append.simps)
qed (simp add: parse_prop_file_def file_readline_def prop_text_def)

text \<open>\<open>resolve_preinit_dir\<close>: \<open>exists\<close> says which paths \<open>access\<close> finds.\<close>

definition resolve_preinit_dir :: "(string \<Rightarrow> bool) \<Rightarrow> string \<Rightarrow> string" where
  "resolve_preinit_dir exists base_dir =
     (if exists (base_dir @ ''/unencrypted'') then base_dir @ ''/unencrypted/magisk''
      else if exists (base_dir @ ''/adb'') then base_dir @ ''/adb''
      else if exists (base_dir @ ''/watchdog'') then base_dir @ ''/watchdog/magisk''
      else base_dir @ ''/magisk'')"

section \<open>Memory maps\<close>

text \<open>A mapped file: its bytes followed by zeros to the end of its last page, which is all that can be
  read; \<open>m_sz\<close> is the size of the file. An empty file maps to nothing.\<close>

record mmap_data =
  m_mem :: bytes
  m_sz :: nat

definition mmap_file :: "nat \<Rightarrow> bytes \<Rightarrow> mmap_data" where
  "mmap_file page f =
     \<lparr>m_mem = f @ replicate (align_up (length f) page - length f) 0, m_sz = length f\<rparr>"

lemma mmap_file_length: "0 < page \<Longrightarrow> length (m_mem (mmap_file page f)) = align_up (length f) page"
  using align_up_ge [of page "length f"] by (simp add: mmap_file_def)

end
