(* ===== verification/Boot_Header.thy ===== *)
theory Boot_Header
  imports Boot_Format Base_Files
begin

text \<open>
  The boot image headers of \<^verbatim>\<open>src/native/src/boot/bootimg.hpp\<close> and the members of \<open>dyn_img_hdr\<close> in
  \<^verbatim>\<open>src/native/src/boot/bootimg.cpp\<close>. A packed struct is its list of fields with their sizes in
  bytes, in the order of the source; members of a union share an entry. A dynamic header is its
  class and the bytes of its \<open>raw\<close> copy; \<open>hget\<close> and \<open>hset\<close> are the virtual accessors: a field the class
  does not implement reads as zero and is written to a junk variable.
\<close>

unbundle bit_operations_syntax

section \<open>Struct layouts\<close>

datatype fld =
    F_magic | F_kernel_size | F_kernel_addr | F_ramdisk_size | F_ramdisk_addr
  | F_second_size | F_second_addr | F_tags_addr | F_page_size | F_unknown | F_header_version
  | F_extra_size | F_os_version | F_name | F_cmdline | F_id | F_extra_cmdline
  | F_recovery_dtbo_size | F_recovery_dtbo_offset | F_header_size | F_dtb_size | F_dtb_addr
  | F_reserved | F_signature_size | F_vendor_ramdisk_table_size | F_vendor_ramdisk_table_entry_num
  | F_vendor_ramdisk_table_entry_size | F_bootconfig_size

type_synonym layout = "(fld list \<times> nat) list"

fun sizeof :: "layout \<Rightarrow> nat" where
  "sizeof [] = 0"
| "sizeof ((fs, n) # l) = n + sizeof l"

text \<open>Offset and size of a field.\<close>

fun offsetof :: "layout \<Rightarrow> fld \<Rightarrow> (nat \<times> nat) option" where
  "offsetof [] f = None"
| "offsetof ((fs, n) # l) f =
     (if f \<in> set fs then Some (0, n) else map_option (\<lambda>(o', m). (n + o', m)) (offsetof l f))"

definition BOOT_MAGIC_SIZE :: nat where "BOOT_MAGIC_SIZE = 8"
definition BOOT_NAME_SIZE :: nat where "BOOT_NAME_SIZE = 16"
definition BOOT_ID_SIZE :: nat where "BOOT_ID_SIZE = 32"
definition BOOT_ARGS_SIZE :: nat where "BOOT_ARGS_SIZE = 512"
definition BOOT_EXTRA_ARGS_SIZE :: nat where "BOOT_EXTRA_ARGS_SIZE = 1024"
definition VENDOR_BOOT_ARGS_SIZE :: nat where "VENDOR_BOOT_ARGS_SIZE = 2048"

lemmas size_defs = BOOT_MAGIC_SIZE_def BOOT_NAME_SIZE_def BOOT_ID_SIZE_def BOOT_ARGS_SIZE_def
  BOOT_EXTRA_ARGS_SIZE_def VENDOR_BOOT_ARGS_SIZE_def

definition boot_img_hdr_v0_common :: layout where
  "boot_img_hdr_v0_common =
     [([F_magic], BOOT_MAGIC_SIZE), ([F_kernel_size], 4), ([F_kernel_addr], 4),
      ([F_ramdisk_size], 4), ([F_ramdisk_addr], 4), ([F_second_size], 4), ([F_second_addr], 4)]"

definition boot_img_hdr_v0 :: layout where
  "boot_img_hdr_v0 = boot_img_hdr_v0_common @
     [([F_tags_addr], 4), ([F_unknown, F_page_size], 4), ([F_header_version, F_extra_size], 4),
      ([F_os_version], 4), ([F_name], BOOT_NAME_SIZE), ([F_cmdline], BOOT_ARGS_SIZE),
      ([F_id], BOOT_ID_SIZE), ([F_extra_cmdline], BOOT_EXTRA_ARGS_SIZE)]"

definition boot_img_hdr_v1 :: layout where
  "boot_img_hdr_v1 = boot_img_hdr_v0 @
     [([F_recovery_dtbo_size], 4), ([F_recovery_dtbo_offset], 8), ([F_header_size], 4)]"

definition boot_img_hdr_v2 :: layout where
  "boot_img_hdr_v2 = boot_img_hdr_v1 @ [([F_dtb_size], 4), ([F_dtb_addr], 8)]"

definition boot_img_hdr_pxa :: layout where
  "boot_img_hdr_pxa = boot_img_hdr_v0_common @
     [([F_extra_size], 4), ([F_unknown], 4), ([F_tags_addr], 4), ([F_page_size], 4),
      ([F_name], 24), ([F_cmdline], BOOT_ARGS_SIZE), ([F_id], BOOT_ID_SIZE),
      ([F_extra_cmdline], BOOT_EXTRA_ARGS_SIZE)]"

definition boot_img_hdr_v3 :: layout where
  "boot_img_hdr_v3 =
     [([F_magic], BOOT_MAGIC_SIZE), ([F_kernel_size], 4), ([F_ramdisk_size], 4), ([F_os_version], 4),
      ([F_header_size], 4), ([F_reserved], 16), ([F_header_version], 4),
      ([F_cmdline], BOOT_ARGS_SIZE + BOOT_EXTRA_ARGS_SIZE)]"

definition boot_img_hdr_v4 :: layout where
  "boot_img_hdr_v4 = boot_img_hdr_v3 @ [([F_signature_size], 4)]"

definition boot_img_hdr_vnd_v3 :: layout where
  "boot_img_hdr_vnd_v3 =
     [([F_magic], BOOT_MAGIC_SIZE), ([F_header_version], 4), ([F_page_size], 4), ([F_kernel_addr], 4),
      ([F_ramdisk_addr], 4), ([F_ramdisk_size], 4), ([F_cmdline], VENDOR_BOOT_ARGS_SIZE),
      ([F_tags_addr], 4), ([F_name], BOOT_NAME_SIZE), ([F_header_size], 4), ([F_dtb_size], 4),
      ([F_dtb_addr], 8)]"

definition boot_img_hdr_vnd_v4 :: layout where
  "boot_img_hdr_vnd_v4 = boot_img_hdr_vnd_v3 @
     [([F_vendor_ramdisk_table_size], 4), ([F_vendor_ramdisk_table_entry_num], 4),
      ([F_vendor_ramdisk_table_entry_size], 4), ([F_bootconfig_size], 4)]"

lemmas layout_defs = boot_img_hdr_v0_common_def boot_img_hdr_v0_def boot_img_hdr_v1_def
  boot_img_hdr_v2_def boot_img_hdr_pxa_def boot_img_hdr_v3_def boot_img_hdr_v4_def
  boot_img_hdr_vnd_v3_def boot_img_hdr_vnd_v4_def

section \<open>Dynamic headers\<close>

datatype hdr_class = V0 | V1 | V2 | PXA | V3 | V4 | VND_V3 | VND_V4

fun layout :: "hdr_class \<Rightarrow> layout" where
  "layout V0 = boot_img_hdr_v0"
| "layout V1 = boot_img_hdr_v1"
| "layout V2 = boot_img_hdr_v2"
| "layout PXA = boot_img_hdr_pxa"
| "layout V3 = boot_img_hdr_v3"
| "layout V4 = boot_img_hdr_v4"
| "layout VND_V3 = boot_img_hdr_vnd_v3"
| "layout VND_V4 = boot_img_hdr_vnd_v4"

text \<open>The numeric fields each class overrides (\<open>impl_val\<close>, \<open>impl_var\<close>), with inheritance; \<open>dyn_img_v1\<close>
  takes \<open>extra_size\<close> back.\<close>

fun exposed :: "hdr_class \<Rightarrow> fld list" where
  "exposed V0 = [F_kernel_size, F_ramdisk_size, F_second_size, F_page_size, F_extra_size, F_os_version]"
| "exposed V1 = [F_kernel_size, F_ramdisk_size, F_second_size, F_page_size, F_os_version,
     F_header_version, F_recovery_dtbo_size, F_recovery_dtbo_offset, F_header_size]"
| "exposed V2 = [F_kernel_size, F_ramdisk_size, F_second_size, F_page_size, F_os_version,
     F_header_version, F_recovery_dtbo_size, F_recovery_dtbo_offset, F_header_size, F_dtb_size]"
| "exposed PXA = [F_kernel_size, F_ramdisk_size, F_second_size, F_extra_size, F_page_size]"
| "exposed V3 = [F_kernel_size, F_ramdisk_size, F_os_version, F_header_size, F_header_version]"
| "exposed V4 = [F_kernel_size, F_ramdisk_size, F_os_version, F_header_size, F_header_version,
     F_signature_size]"
| "exposed VND_V3 = [F_header_version, F_page_size, F_ramdisk_size, F_header_size, F_dtb_size]"
| "exposed VND_V4 = [F_header_version, F_page_size, F_ramdisk_size, F_header_size, F_dtb_size,
     F_vendor_ramdisk_table_size, F_vendor_ramdisk_table_entry_num,
     F_vendor_ramdisk_table_entry_size, F_bootconfig_size]"

text \<open>The text fields each class has, with their place: the version 3 and vendor headers continue
  \<open>extra_cmdline\<close> inside \<open>cmdline\<close>.\<close>

definition has_name :: "hdr_class \<Rightarrow> bool" where
  "has_name c \<longleftrightarrow> c \<in> {V0, V1, V2, PXA, VND_V3, VND_V4}"

definition has_id :: "hdr_class \<Rightarrow> bool" where
  "has_id c \<longleftrightarrow> c \<in> {V0, V1, V2, PXA}"

fun str_off :: "hdr_class \<Rightarrow> fld \<Rightarrow> nat" where
  "str_off c f =
     (if f = F_extra_cmdline \<and> c \<in> {V3, V4, VND_V3, VND_V4}
      then fst (the (offsetof (layout c) F_cmdline)) + BOOT_ARGS_SIZE
      else fst (the (offsetof (layout c) f)))"

declare str_off.simps [simp del]

record dyn_img_hdr =
  dh_class :: hdr_class
  dh_raw :: bytes

definition is_vendor :: "dyn_img_hdr \<Rightarrow> bool" where
  "is_vendor h \<longleftrightarrow> dh_class h \<in> {VND_V3, VND_V4}"

definition hdr_size :: "dyn_img_hdr \<Rightarrow> nat" where
  "hdr_size h = sizeof (layout (dh_class h))"

text \<open>Construction copies \<open>sizeof\<close> bytes from memory.\<close>

definition dyn_new :: "hdr_class \<Rightarrow> bytes \<Rightarrow> nat \<Rightarrow> dyn_img_hdr option" where
  "dyn_new c mem off = map_option (\<lambda>r. \<lparr>dh_class = c, dh_raw = r\<rparr>) (rd mem off (sizeof (layout c)))"

definition hdr_wf :: "dyn_img_hdr \<Rightarrow> bool" where
  "hdr_wf h \<longleftrightarrow> length (dh_raw h) = sizeof (layout (dh_class h))"

definition splice :: "bytes \<Rightarrow> nat \<Rightarrow> bytes \<Rightarrow> bytes" where
  "splice raw off bs = take off raw @ bs @ drop (off + length bs) raw"

definition hget :: "fld \<Rightarrow> dyn_img_hdr \<Rightarrow> nat" where
  "hget f h =
     (if f = F_page_size \<and> dh_class h \<in> {V3, V4} then 4096
      else if f \<in> set (exposed (dh_class h)) then
        (case offsetof (layout (dh_class h)) f of
           Some (off, n) \<Rightarrow> of_le (slice off n (dh_raw h))
         | None \<Rightarrow> 0)
      else 0)"

definition hset :: "fld \<Rightarrow> nat \<Rightarrow> dyn_img_hdr \<Rightarrow> dyn_img_hdr" where
  "hset f v h =
     (if f \<in> set (exposed (dh_class h)) then
        (case offsetof (layout (dh_class h)) f of
           Some (off, n) \<Rightarrow> h\<lparr>dh_raw := splice (dh_raw h) off (le_bytes n v)\<rparr>
         | None \<Rightarrow> h)
      else h)"

definition page_size :: "dyn_img_hdr \<Rightarrow> u32" where
  "page_size h = of_nat (hget F_page_size h)"

text \<open>\<open>hdr_space\<close> is a page, except for vendor headers, which are aligned up.\<close>

definition hdr_space :: "dyn_img_hdr \<Rightarrow> u64 option" where
  "hdr_space h =
     (if is_vendor h then align_to (of_nat (hdr_size h)) (page_size h)
      else Some (ucast (page_size h)))"

text \<open>A text field as the pointer returned by its accessor gives it: a C string of at most \<open>n\<close> bytes.\<close>

definition hstr :: "fld \<Rightarrow> nat \<Rightarrow> dyn_img_hdr \<Rightarrow> string" where
  "hstr f n h = c_str (string_of (slice (str_off (dh_class h) f) n (dh_raw h)))"

definition hput :: "fld \<Rightarrow> nat \<Rightarrow> bytes \<Rightarrow> dyn_img_hdr \<Rightarrow> dyn_img_hdr" where
  "hput f at bs h = h\<lparr>dh_raw := splice (dh_raw h) (str_off (dh_class h) f + at) bs\<rparr>"

section \<open>Printing and reading numbers\<close>

text \<open>\<open>%02d\<close>.\<close>

definition decimal2 :: "nat \<Rightarrow> string" where
  "decimal2 n = (if n < 10 then ''0'' @ decimal n else decimal n)"

text \<open>A \<open>%d\<close> conversion of \<open>sscanf\<close>, and a format of such conversions with a separator: the values of the
  conversions that succeed, in order.\<close>

definition scan_int :: "string \<Rightarrow> (int \<times> string) option" where
  "scan_int s =
     (let t = dropWhile isspace s;
          (neg, u) = (if take 1 t = ''-'' then (True, drop 1 t)
                      else if take 1 t = ''+'' then (False, drop 1 t) else (False, t));
          ds = takeWhile isdigit u in
      if ds = [] then None
      else Some ((if neg then - dec_val ds else dec_val ds), drop (length ds) u))"

fun scan_ints :: "char \<Rightarrow> nat \<Rightarrow> string \<Rightarrow> int list" where
  "scan_ints sep 0 s = []"
| "scan_ints sep (Suc n) s =
     (case scan_int s of
        None \<Rightarrow> []
      | Some (v, r) \<Rightarrow> v # (if take 1 r = [sep] then scan_ints sep n (drop 1 r) else []))"

section \<open>The header file\<close>

definition version_parts :: "u32 \<Rightarrow> u32 \<times> u32 \<times> u32" where
  "version_parts ver =
     (let version = drop_bit 11 ver in
      (drop_bit 14 version AND 0x7f, drop_bit 7 version AND 0x7f, version AND 0x7f))"

definition patch_parts :: "u32 \<Rightarrow> u32 \<times> u32" where
  "patch_parts ver =
     (let patch_level = ver AND 0x7ff in (drop_bit 4 patch_level + 2000, patch_level AND 0xf))"

definition version_text :: "u32 \<Rightarrow> string" where
  "version_text ver =
     (case version_parts ver of (a, b, c) \<Rightarrow>
        decimal (unat a) @ ''.'' @ decimal (unat b) @ ''.'' @ decimal (unat c))"

definition patch_text :: "u32 \<Rightarrow> string" where
  "patch_text ver = (case patch_parts ver of (y, m) \<Rightarrow> decimal (unat y) @ ''-'' @ decimal2 (unat m))"

definition os_version :: "dyn_img_hdr \<Rightarrow> u32" where
  "os_version h = of_nat (hget F_os_version h)"

text \<open>\<open>%s\<close> of the name: up to the first zero byte, wherever in the header that is.\<close>

definition name_text :: "dyn_img_hdr \<Rightarrow> string" where
  "name_text h = c_str (string_of (drop (str_off (dh_class h) F_name) (dh_raw h)))"

definition cmdline_text :: "dyn_img_hdr \<Rightarrow> string" where
  "cmdline_text h = hstr F_cmdline BOOT_ARGS_SIZE h @ hstr F_extra_cmdline BOOT_EXTRA_ARGS_SIZE h"

text \<open>The lines \<open>dump_hdr_file\<close> writes, as pairs around the equals sign.\<close>

definition dump_pairs :: "dyn_img_hdr \<Rightarrow> (string \<times> string) list" where
  "dump_pairs h =
     (if has_name (dh_class h) then [(''name'', name_text h)] else []) @
     [(''cmdline'', cmdline_text h)] @
     (if os_version h \<noteq> 0
      then [(''os_version'', version_text (os_version h)), (''os_patch_level'', patch_text (os_version h))]
      else [])"

definition dump_hdr_file :: "dyn_img_hdr \<Rightarrow> string" where
  "dump_hdr_file h = prop_text (dump_pairs h)"

text \<open>\<open>memset\<close> of a field followed by \<open>memcpy\<close> into it.\<close>

definition pad0 :: "nat \<Rightarrow> bytes \<Rightarrow> bytes" where
  "pad0 n bs = bs @ replicate (n - length bs) 0"

definition load_cmdline :: "bytes \<Rightarrow> dyn_img_hdr \<Rightarrow> dyn_img_hdr" where
  "load_cmdline v h =
     hput F_extra_cmdline 0 (pad0 BOOT_EXTRA_ARGS_SIZE (take BOOT_EXTRA_ARGS_SIZE (drop BOOT_ARGS_SIZE v)))
       (hput F_cmdline 0 (pad0 BOOT_ARGS_SIZE (take BOOT_ARGS_SIZE v)) h)"

text \<open>One property of the header file; a conversion that does not fill its variables leaves them
  indeterminate: no result.\<close>

definition load_prop :: "dyn_img_hdr option \<Rightarrow> string \<Rightarrow> string \<Rightarrow> dyn_img_hdr option \<times> bool" where
  "load_prop oh key val =
     (case oh of
        None \<Rightarrow> (None, True)
      | Some h \<Rightarrow>
         (if key = ''name'' \<and> has_name (dh_class h) then
            Some (hput F_name 0 (pad0 16 (take 15 (bytes_of val))) h)
          else if key = ''cmdline'' then Some (load_cmdline (bytes_of val) h)
          else if key = ''os_version'' then
            (case scan_ints CHR ''.'' 3 val of
               [a, b, c] \<Rightarrow>
                 Some (hset F_os_version
                   (unat (push_bit 11 (push_bit 14 (of_int a) OR push_bit 7 (of_int b) OR of_int c)
                     OR (os_version h AND 0x7ff))) h)
             | _ \<Rightarrow> None)
          else if key = ''os_patch_level'' then
            (case scan_ints CHR ''-'' 2 val of
               [y, m] \<Rightarrow>
                 Some (hset F_os_version
                   (unat (push_bit 11 (drop_bit 11 (os_version h)) OR push_bit 4 (of_int (y - 2000)) OR of_int m)) h)
             | _ \<Rightarrow> None)
          else Some h,
          True))"

definition load_hdr_file :: "string \<Rightarrow> dyn_img_hdr \<Rightarrow> dyn_img_hdr option" where
  "load_hdr_file content h = parse_prop_file content load_prop (Some h)"

definition hex_byte :: "byte \<Rightarrow> string" where
  "hex_byte b = map (\<lambda>d. ''0123456789abcdef'' ! d) [unat b div 16, unat b mod 16]"

text \<open>The lines \<open>print\<close> shows: label and text.\<close>

definition hdr_print :: "dyn_img_hdr \<Rightarrow> (string \<times> string) list" where
  "hdr_print h =
     (let ver = hget F_header_version h; num = (\<lambda>l f. [(l, decimal (hget f h))]) in
      num ''HEADER_VER'' F_header_version @
      (if \<not> is_vendor h then num ''KERNEL_SZ'' F_kernel_size else []) @
      num ''RAMDISK_SZ'' F_ramdisk_size @
      (if ver < 3 then num ''SECOND_SZ'' F_second_size else []) @
      (if ver = 0 then num ''EXTRA_SZ'' F_extra_size else []) @
      (if ver = 1 \<or> ver = 2 then num ''RECOV_DTBO_SZ'' F_recovery_dtbo_size else []) @
      (if ver = 2 \<or> is_vendor h then num ''DTB_SZ'' F_dtb_size else []) @
      (if ver = 4 \<and> is_vendor h then num ''BOOTCONFIG_SZ'' F_bootconfig_size else []) @
      (if os_version h \<noteq> 0
       then [(''OS_VERSION'', version_text (os_version h)), (''OS_PATCH_LEVEL'', patch_text (os_version h))]
       else []) @
      num ''PAGESIZE'' F_page_size @
      (if has_name (dh_class h) then [(''NAME'', name_text h)] else []) @
      [(''CMDLINE'', cmdline_text h)] @
      (if has_id (dh_class h)
       then [(''CHECKSUM'', concat (map hex_byte (slice (str_off (dh_class h) F_id) 32 (dh_raw h))))] else []))"

section \<open>Numbers survive printing and reading\<close>

lemma char_digit: "(n :: nat) < 10 \<Longrightarrow> isdigit (char_of (48 + n)) \<and> of_char (char_of (48 + n)) - 48 = n"
  by (simp add: isdigit_def)

lemma dec_val_snoc: "dec_val (s @ [c]) = dec_val s * 10 + int (of_char c - 48)"
  by (simp add: dec_val_def)

lemma decimal_digits: "list_all isdigit (decimal n) \<and> decimal n \<noteq> [] \<and> dec_val (decimal n) = int n"
proof (induction n rule: decimal.induct)
  case (1 n)
  show ?case
  proof (cases "n < 10")
    case True
    then show ?thesis using char_digit [of n] by (simp add: decimal.simps [of n] dec_val_def)
  next
    case False
    have d: "isdigit (char_of (48 + n mod 10))" "of_char (char_of (48 + n mod 10)) - 48 = n mod 10"
      using char_digit [of "n mod 10"] by simp_all
    have "int n = int (n div 10) * 10 + int (n mod 10)" by (metis div_mult_mod_eq of_nat_add of_nat_mult of_nat_numeral)
    with 1 False d show ?thesis by (simp add: decimal.simps [of n] dec_val_snoc)
  qed
qed

lemma digit_not_space: "isdigit c \<Longrightarrow> \<not> isspace c \<and> c \<noteq> CHR ''-'' \<and> c \<noteq> CHR ''+''"
  by (auto simp: isdigit_def isspace_def)

lemma takeWhile_digits:
  "list_all isdigit ds \<Longrightarrow> (rest = [] \<or> \<not> isdigit (hd rest)) \<Longrightarrow> takeWhile isdigit (ds @ rest) = ds"
  by (induction ds) (cases rest; auto)+

lemma scan_int_digits:
  assumes "list_all isdigit ds" and "ds \<noteq> []" and "rest = [] \<or> \<not> isdigit (hd rest)"
  shows "scan_int (ds @ rest) = Some (dec_val ds, rest)"
proof -
  obtain d ds' where ds: "ds = d # ds'" using assms(2) by (cases ds) auto
  with assms(1) have d: "\<not> isspace d" "d \<noteq> CHR ''-''" "d \<noteq> CHR ''+''" using digit_not_space [of d] by auto
  have "dropWhile isspace (ds @ rest) = ds @ rest" using d(1) by (simp add: ds)
  moreover have "take 1 (ds @ rest) = [d]" by (simp add: ds)
  ultimately show ?thesis
    using takeWhile_digits [OF assms(1,3)] d assms(2) by (simp add: scan_int_def)
qed

lemma scan_int_decimal:
  "rest = [] \<or> \<not> isdigit (hd rest) \<Longrightarrow> scan_int (decimal n @ rest) = Some (int n, rest)"
  using scan_int_digits [of "decimal n" rest] decimal_digits [of n] by simp

lemma scan_int_decimal2: "scan_int (decimal2 n) = Some (int n, [])"
proof -
  have "isdigit CHR ''0''" by (simp add: isdigit_def)
  moreover have "dec_val (CHR ''0'' # decimal n) = int n"
    using decimal_digits [of n] by (simp add: dec_val_def)
  ultimately show ?thesis
    using scan_int_digits [of "CHR ''0'' # decimal n" "[]"] scan_int_decimal [of "[]" n] decimal_digits [of n]
    by (simp add: decimal2_def)
qed

lemma scan_version:
  "scan_ints CHR ''.'' 3 (decimal a @ ''.'' @ decimal b @ ''.'' @ decimal c) = [int a, int b, int c]"
  using scan_int_decimal [of "[]" c]
  by (simp add: numeral_3_eq_3 scan_int_decimal isdigit_def)

lemma scan_patch: "scan_ints CHR ''-'' 2 (decimal y @ ''-'' @ decimal2 m) = [int y, int m]"
  by (simp add: numeral_2_eq_2 scan_int_decimal scan_int_decimal2 isdigit_def)

lemma patch_word:
  "push_bit 11 (drop_bit 11 ver) OR push_bit 4 (drop_bit 4 (ver AND 0x7ff)) OR ((ver AND 0x7ff) AND 0xf) = (ver :: u32)"
proof -
  have m: "(0xf :: u32) = mask 4" "(0x7ff :: u32) = mask 11" by (simp_all add: mask_eq_exp_minus_1)
  show ?thesis unfolding m
  proof (rule bit_word_eqI)
    fix n
    show "bit (push_bit 11 (drop_bit 11 ver) OR push_bit 4 (drop_bit 4 (ver AND mask 11)) OR
        ((ver AND mask 11) AND mask 4)) n \<longleftrightarrow> bit ver n" if "n < LENGTH(32)"
      using that by (cases "n < 4"; cases "n < 11") (auto simp: bit_simps not_less)
  qed
qed

section \<open>Fields do not disturb each other\<close>

lemma length_splice: "off + length bs \<le> length raw \<Longrightarrow> length (splice raw off bs) = length raw"
  by (simp add: splice_def)

lemma slice_splice_same: "off + length bs \<le> length raw \<Longrightarrow> slice off (length bs) (splice raw off bs) = bs"
  by (simp add: splice_def slice_def)

lemma slice_splice_other:
  assumes "off + length bs \<le> length raw" and "p + m \<le> off \<or> off + length bs \<le> p"
  shows "slice p m (splice raw off bs) = slice p m raw"
  using assms(2)
proof
  assume "p + m \<le> off"
  then have "take (p + m) (splice raw off bs) = take (p + m) raw"
    using assms(1) by (simp add: splice_def)
  moreover have "slice p m xs = drop p (take (p + m) xs)" for xs :: bytes
    by (simp add: slice_def take_drop add.commute)
  ultimately show ?thesis by simp
next
  assume p: "off + length bs \<le> p"
  have "drop p (splice raw off bs) = drop p raw"
    using p assms(1) by (simp add: splice_def)
  then show ?thesis by (simp add: slice_def)
qed

lemma splice_slice: "off + n \<le> length raw \<Longrightarrow> splice raw off (slice off n raw) = raw"
  by (simp add: splice_def slice_def min_absorb2 add.commute flip: drop_drop)

lemma offsetof_bound: "offsetof l f = Some (off, n) \<Longrightarrow> off + n \<le> sizeof l"
  by (induction l arbitrary: off) (auto split: if_splits)

lemma offsetof_disjoint:
  assumes "offsetof l f = Some (off, n)" and "offsetof l g = Some (p, m)"
    and "\<And>fs k. (fs, k) \<in> set l \<Longrightarrow> \<not> (f \<in> set fs \<and> g \<in> set fs)"
  shows "off + n \<le> p \<or> p + m \<le> off"
  using assms
proof (induction l arbitrary: off p)
  case (Cons e l)
  obtain fs k where e: "e = (fs, k)" by (cases e)
  have nb: "\<not> (f \<in> set fs \<and> g \<in> set fs)" using Cons.prems(3) [of fs k] by (simp add: e)
  show ?case
  proof (cases "f \<in> set fs \<or> g \<in> set fs")
    case True
    with Cons.prems(1,2) nb show ?thesis by (auto simp: e split: if_splits)
  next
    case False
    then obtain off' p' where "offsetof l f = Some (off', n)" "off = k + off'"
        "offsetof l g = Some (p', m)" "p = k + p'"
      using Cons.prems(1,2) by (auto simp: e)
    with Cons.IH [of off' p'] Cons.prems(3) show ?thesis by fastforce
  qed
qed simp

lemma exposed_alone: "(fs, k) \<in> set (layout c) \<Longrightarrow> length (filter (\<lambda>f. f \<in> set (exposed c)) fs) \<le> 1"
  by (cases c) (auto simp: layout_defs)

lemma exposed_layout: "f \<in> set (exposed c) \<Longrightarrow> \<exists>off n. offsetof (layout c) f = Some (off, n) \<and> n \<in> {4, 8}"
  by (cases c) (auto simp: layout_defs)

lemma exposed_disjoint:
  assumes "f \<in> set (exposed c)" and "g \<in> set (exposed c)" and "f \<noteq> g"
    and "offsetof (layout c) f = Some (off, n)" and "offsetof (layout c) g = Some (p, m)"
  shows "off + n \<le> p \<or> p + m \<le> off"
proof (rule offsetof_disjoint [OF assms(4,5)], rule notI)
  fix fs k assume e: "(fs, k) \<in> set (layout c)" and fg: "f \<in> set fs \<and> g \<in> set fs"
  let ?xs = "filter (\<lambda>f. f \<in> set (exposed c)) fs"
  have "f \<in> set ?xs" "g \<in> set ?xs" using fg assms(1,2) by auto
  with exposed_alone [OF e] assms(3) show False
    by (cases ?xs; cases "tl ?xs") auto
qed

text \<open>The contract of a record with numeric fields of fixed widths.\<close>

locale field_access =
  fixes get :: "'f \<Rightarrow> 'h \<Rightarrow> nat"
    and put :: "'f \<Rightarrow> nat \<Rightarrow> 'h \<Rightarrow> 'h"
    and wf :: "'h \<Rightarrow> bool"
    and width :: "'h \<Rightarrow> 'f \<Rightarrow> nat"
  assumes wf_put: "wf h \<Longrightarrow> wf (put f v h)"
    and width_put: "width (put f v h) g = width h g"
    and get_put_same: "wf h \<Longrightarrow> 0 < width h f \<Longrightarrow> get f (put f v h) = v mod 256 ^ width h f"
    and get_put_other: "wf h \<Longrightarrow> f \<noteq> g \<Longrightarrow> get g (put f v h) = get g h"
begin

text \<open>Writing a list of fields, each at most once: every one reads back, the others are as before.\<close>

lemma puts_wf: "wf h \<Longrightarrow> wf (foldl (\<lambda>h (f, v). put f v h) h fvs)"
  by (induction fvs arbitrary: h) (auto simp: wf_put)

lemma puts_other:
  "wf h \<Longrightarrow> g \<notin> fst ` set fvs \<Longrightarrow> get g (foldl (\<lambda>h (f, v). put f v h) h fvs) = get g h"
  by (induction fvs arbitrary: h) (auto simp: wf_put get_put_other)

lemma puts_get:
  "wf h \<Longrightarrow> distinct (map fst fvs) \<Longrightarrow> (g, v) \<in> set fvs \<Longrightarrow> 0 < width h g \<Longrightarrow>
   get g (foldl (\<lambda>h (f, v). put f v h) h fvs) = v mod 256 ^ width h g"
proof (induction fvs arbitrary: h)
  case (Cons fv fvs)
  obtain f w where fv: "fv = (f, w)" by (cases fv)
  show ?case
  proof (cases "fv = (g, v)")
    case True
    with Cons.prems puts_other [of "put g v h" g fvs] show ?thesis
      by (simp add: wf_put get_put_same)
  next
    case False
    with Cons.IH [of "put f w h"] Cons.prems show ?thesis
      by (auto simp: fv wf_put width_put)
  qed
qed simp

end

definition hwidth :: "dyn_img_hdr \<Rightarrow> fld \<Rightarrow> nat" where
  "hwidth h f =
     (if f \<in> set (exposed (dh_class h)) then snd (the (offsetof (layout (dh_class h)) f)) else 0)"

lemma hset_class [simp]: "dh_class (hset f v h) = dh_class h"
  by (simp add: hset_def split: option.split)

lemma hset_wf:
  assumes "hdr_wf h"
  shows "hdr_wf (hset f v h)"
proof (cases "f \<in> set (exposed (dh_class h))")
  case True
  then obtain off n where o: "offsetof (layout (dh_class h)) f = Some (off, n)"
    using exposed_layout by blast
  then have "off + n \<le> length (dh_raw h)"
    using assms offsetof_bound [OF o] by (simp add: hdr_wf_def)
  with True o assms show ?thesis by (simp add: hset_def hdr_wf_def length_splice)
qed (use assms in \<open>simp add: hset_def\<close>)

lemma page_size_exposed: "f \<in> set (exposed c) \<Longrightarrow> c \<in> {V3, V4} \<Longrightarrow> f \<noteq> F_page_size"
  by auto

lemma hget_offset:
  assumes "f \<in> set (exposed (dh_class h))" and "offsetof (layout (dh_class h)) f = Some (off, n)"
  shows "hget f h = of_le (slice off n (dh_raw h))"
proof -
  have "\<not> (f = F_page_size \<and> dh_class h \<in> {V3, V4})"
    using page_size_exposed [OF assms(1)] by blast
  then show ?thesis unfolding hget_def using assms by (simp only: if_False if_True option.case prod.case)
qed

lemma hset_offset:
  assumes "f \<in> set (exposed (dh_class h))" and "offsetof (layout (dh_class h)) f = Some (off, n)"
  shows "hset f v h = h\<lparr>dh_raw := splice (dh_raw h) off (le_bytes n v)\<rparr>"
  using assms by (simp add: hset_def)

lemma hset_hidden: "f \<notin> set (exposed (dh_class h)) \<Longrightarrow> hset f v h = h"
  by (simp add: hset_def)

lemma hget_hidden: "f \<notin> set (exposed (dh_class h)) \<Longrightarrow> dh_class h' = dh_class h \<Longrightarrow> hget f h' = hget f h"
  by (simp add: hget_def)

lemma exposed_off: 
  assumes "f \<in> set (exposed c)"
  obtains off n where "offsetof (layout c) f = Some (off, n)"
  using exposed_layout [OF assms] by blast

lemma hget_hset_same:
  assumes wf: "hdr_wf h" and f: "f \<in> set (exposed (dh_class h))"
  shows "hget f (hset f v h) = v mod 256 ^ hwidth h f"
proof -
  obtain off n where o: "offsetof (layout (dh_class h)) f = Some (off, n)" using exposed_off [OF f] .
  have b: "off + length (le_bytes n v) \<le> length (dh_raw h)"
    using offsetof_bound [OF o] wf unfolding hdr_wf_def by simp
  have "hget f (hset f v h) = of_le (slice off n (dh_raw (hset f v h)))"
    using f o by (intro hget_offset) simp_all
  also have "\<dots> = of_le (le_bytes n v)"
    using slice_splice_same [OF b] by (simp add: hset_offset [OF f o])
  finally show ?thesis using f o by (simp add: hwidth_def of_le_le_bytes)
qed

lemma hget_hset_other:
  assumes wf: "hdr_wf h" and ne: "f \<noteq> g"
  shows "hget g (hset f v h) = hget g h"
proof (cases "f \<in> set (exposed (dh_class h)) \<and> g \<in> set (exposed (dh_class h))")
  case True
  then have fg: "f \<in> set (exposed (dh_class h))" "g \<in> set (exposed (dh_class h))" by auto
  obtain off n where o: "offsetof (layout (dh_class h)) f = Some (off, n)" using exposed_off [OF fg(1)] .
  obtain p m where p: "offsetof (layout (dh_class h)) g = Some (p, m)" using exposed_off [OF fg(2)] .
  have b: "off + length (le_bytes n v) \<le> length (dh_raw h)"
    using offsetof_bound [OF o] wf unfolding hdr_wf_def by simp
  have "slice p m (splice (dh_raw h) off (le_bytes n v)) = slice p m (dh_raw h)"
    using exposed_disjoint [OF fg ne o p] by (intro slice_splice_other [OF b]) auto
  moreover have "hget g (hset f v h) = of_le (slice p m (dh_raw (hset f v h)))"
    using fg p by (intro hget_offset) simp_all
  ultimately show ?thesis by (simp add: hset_offset [OF fg(1) o] hget_offset [OF fg(2) p])
next
  case False
  then show ?thesis using hset_hidden [of f h v] hget_hidden [of g h "hset f v h"] by auto
qed

interpretation hdr: field_access hget hset hdr_wf hwidth
proof
  fix h f v g
  show "hdr_wf h \<Longrightarrow> hdr_wf (hset f v h)" by (rule hset_wf)
  show "hwidth (hset f v h) g = hwidth h g" by (simp add: hwidth_def)
  show "hdr_wf h \<Longrightarrow> 0 < hwidth h f \<Longrightarrow> hget f (hset f v h) = v mod 256 ^ hwidth h f"
    by (rule hget_hset_same) (simp_all add: hwidth_def split: if_splits)
  show "hdr_wf h \<Longrightarrow> f \<noteq> g \<Longrightarrow> hget g (hset f v h) = hget g h" by (rule hget_hset_other)
qed

section \<open>Dumping and loading the header file\<close>

text \<open>A header whose text fields hold \<open>nm\<close> and \<open>cl\<close>, zero-padded, and that its property file can carry.\<close>

definition hdr_text :: "string \<Rightarrow> string \<Rightarrow> dyn_img_hdr \<Rightarrow> bool" where
  "hdr_text nm cl h \<longleftrightarrow>
     hdr_wf h \<and> prop_pair (''name'', nm) \<and> length nm < 16 \<and> prop_pair (''cmdline'', cl) \<and>
     length cl \<le> BOOT_ARGS_SIZE + BOOT_EXTRA_ARGS_SIZE \<and>
     (has_name (dh_class h) \<longrightarrow> slice (str_off (dh_class h) F_name) 16 (dh_raw h) = pad0 16 (bytes_of nm)) \<and>
     slice (str_off (dh_class h) F_cmdline) BOOT_ARGS_SIZE (dh_raw h) =
       pad0 BOOT_ARGS_SIZE (bytes_of (take BOOT_ARGS_SIZE cl)) \<and>
     slice (str_off (dh_class h) F_extra_cmdline) BOOT_EXTRA_ARGS_SIZE (dh_raw h) =
       pad0 BOOT_EXTRA_ARGS_SIZE (bytes_of (drop BOOT_ARGS_SIZE cl))"

lemma c_str_append_nul: "CHR 0x00 \<notin> set s \<Longrightarrow> c_str (s @ CHR 0x00 # t) = s"
  unfolding c_str_def by (induction s) auto

lemma string_of_append: "string_of (a @ b) = string_of a @ string_of b"
  by (simp add: string_of_def)

lemma char_of_0: "char_of (0 :: nat) = CHR 0x00"
  by (simp add: char_of_def)

lemma string_of_Cons0: "string_of (0 # bs) = CHR 0x00 # string_of bs"
  by (simp add: string_of_def char_of_0)

lemma string_of_zeros: "string_of (replicate n 0) = replicate n CHR 0x00"
  by (simp add: string_of_def char_of_0)

lemma c_str_pad0: "CHR 0x00 \<notin> set s \<Longrightarrow> c_str (string_of (pad0 n (bytes_of s))) = s"
  by (cases "n - length s")
    (simp_all add: pad0_def string_of_append string_of_Cons0 c_str_append_nul c_str_no_nul)

lemma take_bytes_of: "take n (bytes_of s) = bytes_of (take n s)"
  by (simp add: bytes_of_def take_map)

lemma drop_bytes_of: "drop n (bytes_of s) = bytes_of (drop n s)"
  by (simp add: bytes_of_def drop_map)

lemma str_off_bounds:
  "has_name c \<Longrightarrow> str_off c F_name + 16 \<le> sizeof (layout c)"
  "str_off c F_cmdline + BOOT_ARGS_SIZE \<le> sizeof (layout c)"
  "str_off c F_extra_cmdline + BOOT_EXTRA_ARGS_SIZE \<le> sizeof (layout c)"
  by (cases c; simp add: layout_defs size_defs has_name_def str_off.simps)+

lemma length_pad0 [simp]: "length bs \<le> n \<Longrightarrow> length (pad0 n bs) = n"
  by (simp add: pad0_def)

lemma name_text_canon:
  assumes "hdr_text nm cl h" and "has_name (dh_class h)"
  shows "name_text h = nm"
proof -
  let ?o = "str_off (dh_class h) F_name"
  have "drop ?o (dh_raw h) = slice ?o 16 (dh_raw h) @ drop (?o + 16) (dh_raw h)"
    by (metis append_take_drop_id drop_drop slice_def add.commute)
  also have "slice ?o 16 (dh_raw h) = pad0 16 (bytes_of nm)"
    using assms by (simp add: hdr_text_def)
  also have "16 - length nm = Suc (15 - length nm)"
    using assms by (auto simp: hdr_text_def)
  then have "pad0 16 (bytes_of nm) = bytes_of nm @ 0 # replicate (15 - length nm) 0"
    by (simp add: pad0_def)
  finally have "string_of (drop ?o (dh_raw h)) =
      nm @ CHR 0x00 # (string_of (replicate (15 - length nm) 0) @ string_of (drop (?o + 16) (dh_raw h)))"
    by (simp add: string_of_append string_of_Cons0)
  moreover have "CHR 0x00 \<notin> set nm" using assms by (simp add: hdr_text_def prop_pair_def)
  ultimately show ?thesis unfolding name_text_def by (simp add: c_str_append_nul)
qed

lemma cmdline_text_canon:
  assumes "hdr_text nm cl h"
  shows "cmdline_text h = cl"
proof -
  have "CHR 0x00 \<notin> set cl" using assms by (simp add: hdr_text_def prop_pair_def)
  then have "CHR 0x00 \<notin> set (take n cl)" "CHR 0x00 \<notin> set (drop n cl)" for n
    by (auto dest: in_set_takeD in_set_dropD)
  then show ?thesis
    using assms by (simp add: cmdline_text_def hstr_def hdr_text_def c_str_pad0)
qed

text \<open>The text fields: their widths, and that writing one leaves the others and the numbers alone.\<close>

fun text_len :: "fld \<Rightarrow> nat" where
  "text_len F_name = 16"
| "text_len F_cmdline = BOOT_ARGS_SIZE"
| "text_len F_extra_cmdline = BOOT_EXTRA_ARGS_SIZE"
| "text_len _ = 0"

definition text_flds :: "hdr_class \<Rightarrow> fld set" where
  "text_flds c = (if has_name c then {F_name} else {}) \<union> {F_cmdline, F_extra_cmdline}"

lemma text_fld_bound: "f \<in> text_flds c \<Longrightarrow> str_off c f + text_len f \<le> sizeof (layout c)"
  using str_off_bounds [of c] by (auto simp: text_flds_def split: if_splits)

lemma text_flds_disjoint:
  "f \<in> text_flds c \<Longrightarrow> g \<in> text_flds c \<Longrightarrow> f \<noteq> g \<Longrightarrow>
   str_off c g + text_len g \<le> str_off c f \<or> str_off c f + text_len f \<le> str_off c g"
  by (cases c) (auto simp: text_flds_def has_name_def layout_defs size_defs str_off.simps)

lemma text_exposed_disjoint:
  "f \<in> text_flds c \<Longrightarrow> g \<in> set (exposed c) \<Longrightarrow> offsetof (layout c) g = Some (p, m) \<Longrightarrow>
   p + m \<le> str_off c f \<or> str_off c f + text_len f \<le> p"
  by (cases c) (auto simp: text_flds_def has_name_def layout_defs size_defs str_off.simps)

definition text_slice :: "fld \<Rightarrow> dyn_img_hdr \<Rightarrow> bytes" where
  "text_slice f h = slice (str_off (dh_class h) f) (text_len f) (dh_raw h)"

lemma hput_class [simp]: "dh_class (hput f n bs h) = dh_class h"
  by (simp add: hput_def)

lemma hput_text:
  assumes "hdr_wf h" and "f \<in> text_flds (dh_class h)" and "length bs = text_len f"
  shows "hdr_wf (hput f 0 bs h)" and "hget g (hput f 0 bs h) = hget g h"
    and "g \<in> text_flds (dh_class h) \<Longrightarrow> text_slice g (hput f 0 bs h) = (if g = f then bs else text_slice g h)"
proof -
  let ?c = "dh_class h" and ?raw = "splice (dh_raw h) (str_off (dh_class h) f) bs"
  have b: "str_off ?c f + length bs \<le> length (dh_raw h)"
    using text_fld_bound [OF assms(2)] assms(1,3) by (simp add: hdr_wf_def)
  have raw: "dh_raw (hput f 0 bs h) = ?raw" by (simp add: hput_def)
  show "hdr_wf (hput f 0 bs h)"
    using assms(1) length_splice [OF b] by (simp add: hdr_wf_def raw)
  show "hget g (hput f 0 bs h) = hget g h"
  proof (cases "g \<in> set (exposed ?c)")
    case True
    obtain p m where o: "offsetof (layout ?c) g = Some (p, m)" using exposed_off [OF True] .
    have "slice p m ?raw = slice p m (dh_raw h)"
      using text_exposed_disjoint [OF assms(2) True o] assms(3) by (intro slice_splice_other [OF b]) auto
    then show ?thesis
      using hget_offset [OF True o] hget_offset [of g "hput f 0 bs h" p m] True o raw by simp
  next
    case False
    then show ?thesis by (intro hget_hidden) simp_all
  qed
  show "text_slice g (hput f 0 bs h) = (if g = f then bs else text_slice g h)" if "g \<in> text_flds ?c"
  proof (cases "g = f")
    case True
    then show ?thesis using slice_splice_same [OF b] assms(3) by (simp add: text_slice_def raw)
  next
    case False
    then show ?thesis
      using slice_splice_other [OF b] text_flds_disjoint [OF assms(2) that] assms(3)
      by (auto simp: text_slice_def raw)
  qed
qed

lemma hset_text:
  assumes "hdr_wf h" and "g \<in> text_flds (dh_class h)"
  shows "text_slice g (hset f v h) = text_slice g h"
proof (cases "f \<in> set (exposed (dh_class h))")
  case True
  obtain p m where o: "offsetof (layout (dh_class h)) f = Some (p, m)" using exposed_off [OF True] .
  have "p + length (le_bytes m v) \<le> length (dh_raw h)"
    using offsetof_bound [OF o] assms(1) unfolding hdr_wf_def by simp
  then show ?thesis
    using slice_splice_other text_exposed_disjoint [OF assms(2) True o]
    by (auto simp: text_slice_def hset_offset [OF True o])
qed (simp add: hset_hidden)

lemma hdr_text_slices:
  "hdr_text nm cl h \<longleftrightarrow>
     hdr_wf h \<and> prop_pair (''name'', nm) \<and> length nm < 16 \<and> prop_pair (''cmdline'', cl) \<and>
     length cl \<le> BOOT_ARGS_SIZE + BOOT_EXTRA_ARGS_SIZE \<and>
     (has_name (dh_class h) \<longrightarrow> text_slice F_name h = pad0 16 (bytes_of nm)) \<and>
     text_slice F_cmdline h = pad0 BOOT_ARGS_SIZE (bytes_of (take BOOT_ARGS_SIZE cl)) \<and>
     text_slice F_extra_cmdline h = pad0 BOOT_EXTRA_ARGS_SIZE (bytes_of (drop BOOT_ARGS_SIZE cl))"
  by (simp add: hdr_text_def text_slice_def)

text \<open>What a property of the file may change: a header agrees with another outside its texts and version.\<close>

definition same_numbers :: "dyn_img_hdr \<Rightarrow> dyn_img_hdr \<Rightarrow> bool" where
  "same_numbers h r \<longleftrightarrow> hdr_wf r \<and> dh_class r = dh_class h \<and> (\<forall>g. g \<noteq> F_os_version \<longrightarrow> hget g r = hget g h)"

lemma load_name_into:
  assumes "hdr_wf h" and "length nm < 16" and "has_name (dh_class h)"
  obtains r where "load_prop (Some h) ''name'' nm = (Some r, True)" and "same_numbers h r"
    and "os_version r = os_version h" and "text_slice F_name r = pad0 16 (bytes_of nm)"
proof -
  let ?r = "hput F_name 0 (pad0 16 (bytes_of nm)) h"
  have "load_prop (Some h) ''name'' nm = (Some ?r, True)" using assms by (simp add: load_prop_def)
  then show thesis
    using hput_text [of h F_name "pad0 16 (bytes_of nm)"] assms
    by (intro that [of ?r]) (simp_all add: text_flds_def same_numbers_def os_version_def)
qed

lemma load_cmdline_into:
  assumes "hdr_wf h" and "length cl \<le> BOOT_ARGS_SIZE + BOOT_EXTRA_ARGS_SIZE"
  obtains r where "load_prop (Some h) ''cmdline'' cl = (Some r, True)" and "same_numbers h r"
    and "os_version r = os_version h"
    and "has_name (dh_class h) \<Longrightarrow> text_slice F_name r = text_slice F_name h"
    and "text_slice F_cmdline r = pad0 BOOT_ARGS_SIZE (bytes_of (take BOOT_ARGS_SIZE cl))"
    and "text_slice F_extra_cmdline r = pad0 BOOT_EXTRA_ARGS_SIZE (bytes_of (drop BOOT_ARGS_SIZE cl))"
proof -
  let ?a = "pad0 BOOT_ARGS_SIZE (bytes_of (take BOOT_ARGS_SIZE cl))"
    and ?b = "pad0 BOOT_EXTRA_ARGS_SIZE (bytes_of (drop BOOT_ARGS_SIZE cl))"
  let ?h1 = "hput F_cmdline 0 ?a h"
  let ?r = "hput F_extra_cmdline 0 ?b ?h1"
  have l: "length ?a = text_len F_cmdline" "length ?b = text_len F_extra_cmdline" using assms(2) by auto
  have f: "F_cmdline \<in> text_flds (dh_class h)" "F_extra_cmdline \<in> text_flds (dh_class ?h1)"
    by (simp_all add: text_flds_def)
  note p = hput_text [OF assms(1) f(1) l(1)]
  note q = hput_text [OF p(1) f(2) l(2)]
  have "take BOOT_EXTRA_ARGS_SIZE (drop BOOT_ARGS_SIZE cl) = drop BOOT_ARGS_SIZE cl" using assms(2) by simp
  then have "load_prop (Some h) ''cmdline'' cl = (Some ?r, True)"
    by (simp add: load_prop_def load_cmdline_def take_bytes_of drop_bytes_of)
  then show thesis
    by (rule that) (use p q in \<open>simp_all add: text_flds_def same_numbers_def os_version_def\<close>)
qed

lemma version_word_over:
  "drop_bit 11 (push_bit 11 (push_bit 14 (drop_bit 14 (drop_bit 11 ver) AND 0x7f) OR
     push_bit 7 (drop_bit 7 (drop_bit 11 ver) AND 0x7f) OR (drop_bit 11 ver AND 0x7f)) OR (old AND 0x7ff)) =
   drop_bit 11 (ver :: u32)"
proof -
  have m: "(0x7f :: u32) = mask 7" "(0x7ff :: u32) = mask 11" by (simp_all add: mask_eq_exp_minus_1)
  show ?thesis unfolding m
  proof (rule bit_word_eqI)
    fix n
    show "bit (drop_bit 11 (push_bit 11 (push_bit 14 (drop_bit 14 (drop_bit 11 ver) AND mask 7) OR
        push_bit 7 (drop_bit 7 (drop_bit 11 ver) AND mask 7) OR (drop_bit 11 ver AND mask 7)) OR (old AND mask 11))) n
        \<longleftrightarrow> bit (drop_bit 11 ver) n" if "n < LENGTH(32)"
      using that by (cases "n < 7"; cases "n < 14"; cases "n < 21") (auto simp: bit_simps not_less dest: bit_imp_le_length)
  qed
qed

lemma patch_year: "int (unat (drop_bit 4 (ver AND 0x7ff) + 2000 :: u32)) - 2000 = int (unat (drop_bit 4 (ver AND 0x7ff)))"
proof -
  have "ver AND 0x7ff = take_bit 11 ver" by (simp add: take_bit_eq_mask mask_eq_exp_minus_1)
  then have "unat (ver AND 0x7ff) < 2 ^ 11"
    using take_bit_nat_less_exp [of 11 "unat ver"] by (simp add: unsigned_take_bit_eq)
  moreover have "unat (drop_bit 4 (ver AND 0x7ff)) \<le> unat (ver AND 0x7ff)"
    by (simp only: unat_drop_bit_eq) (simp only: drop_bit_eq_div div_le_dividend)
  ultimately have "unat (drop_bit 4 (ver AND 0x7ff)) + 2000 < 2 ^ 32" by simp
  then show ?thesis unfolding unat_word_ariths by simp
qed

lemma os_version_hset:
  assumes "hdr_wf h" and "F_os_version \<in> set (exposed (dh_class h))"
  shows "os_version (hset F_os_version (unat x) h) = x"
proof -
  have "hwidth h F_os_version = 4"
    using assms(2) by (cases "dh_class h") (auto simp: hwidth_def layout_defs size_defs)
  moreover have "unat x < 2 ^ 32" using unsigned_less [of x] by simp
  ultimately show ?thesis by (simp add: os_version_def hget_hset_same [OF assms])
qed

lemma hset_version:
  assumes "hdr_wf h"
  shows "same_numbers h (hset F_os_version x h)"
    and "g \<in> text_flds (dh_class h) \<Longrightarrow> text_slice g (hset F_os_version x h) = text_slice g h"
  using hset_text [OF assms] hset_wf [OF assms] hget_hset_other [OF assms]
  by (simp_all add: same_numbers_def)

lemma load_version_prop:
  "\<exists>x. load_prop (Some h) ''os_version'' (version_text ver) = (Some (hset F_os_version (unat x) h), True) \<and>
     drop_bit 11 x = drop_bit 11 ver"
proof -
  obtain a b c where p: "version_parts ver = (a, b, c)" by (metis prod_cases3)
  then have abc: "a = drop_bit 14 (drop_bit 11 ver) AND 0x7f" "b = drop_bit 7 (drop_bit 11 ver) AND 0x7f"
      "c = drop_bit 11 ver AND 0x7f"
    unfolding version_parts_def Let_def prod.inject by blast+
  let ?x = "push_bit 11 (push_bit 14 a OR push_bit 7 b OR c) OR (os_version h AND 0x7ff)"
  have "scan_ints CHR ''.'' 3 (version_text ver) = [int (unat a), int (unat b), int (unat c)]"
    using scan_version by (simp add: version_text_def p)
  then have "load_prop (Some h) ''os_version'' (version_text ver) = (Some (hset F_os_version (unat ?x) h), True)"
    by (simp add: load_prop_def del: push_bit_or push_bit_push_bit)
  moreover have "drop_bit 11 ?x = drop_bit 11 ver" unfolding abc by (rule version_word_over)
  ultimately show ?thesis by blast
qed

lemma load_patch_prop:
  assumes "drop_bit 11 (os_version h) = drop_bit 11 ver"
  shows "load_prop (Some h) ''os_patch_level'' (patch_text ver) = (Some (hset F_os_version (unat ver) h), True)"
proof -
  obtain y m where q: "patch_parts ver = (y, m)" by fastforce
  then have ym: "y = drop_bit 4 (ver AND 0x7ff) + 2000" "m = (ver AND 0x7ff) AND 0xf"
    unfolding patch_parts_def Let_def prod.inject by blast+
  have "scan_ints CHR ''-'' 2 (patch_text ver) = [int (unat y), int (unat m)]"
    using scan_patch by (simp add: patch_text_def q)
  moreover have "push_bit 11 (drop_bit 11 (os_version h)) OR push_bit 4 (of_int (int (unat y) - 2000)) OR
      of_int (int (unat m)) = ver"
    unfolding assms ym patch_year of_int_of_nat_eq by (simp only: of_nat_unat ucast_id patch_word)
  ultimately show ?thesis by (simp add: load_prop_def)
qed

lemma load_version_into:
  assumes wf: "hdr_wf h" and v: "F_os_version \<in> set (exposed (dh_class h))"
  obtains h1 r where "load_prop (Some h) ''os_version'' (version_text ver) = (Some h1, True)"
    and "load_prop (Some h1) ''os_patch_level'' (patch_text ver) = (Some r, True)"
    and "same_numbers h r" and "os_version r = ver"
    and "\<And>g. g \<in> text_flds (dh_class h) \<Longrightarrow> text_slice g r = text_slice g h"
proof -
  obtain x where x: "load_prop (Some h) ''os_version'' (version_text ver) = (Some (hset F_os_version (unat x) h), True)"
      "drop_bit 11 x = drop_bit 11 ver"
    using load_version_prop [of h ver] by (elim exE conjE)
  let ?h1 = "hset F_os_version (unat x) h"
  have h1: "hdr_wf ?h1" "F_os_version \<in> set (exposed (dh_class ?h1))" using hset_wf [OF wf] v by simp_all
  have "drop_bit 11 (os_version ?h1) = drop_bit 11 ver" using x(2) by (simp add: os_version_hset [OF wf v])
  note y = load_patch_prop [OF this]
  show thesis
    by (rule that [OF x(1) y])
      (use hset_version [OF wf] hset_version [OF h1(1)] os_version_hset [OF h1] in \<open>simp_all add: same_numbers_def\<close>)
qed

text \<open>A version is only ever set where the class has the field.\<close>

lemma os_version_exposed: "os_version h \<noteq> 0 \<Longrightarrow> F_os_version \<in> set (exposed (dh_class h))"
  by (auto simp: os_version_def hget_def split: if_splits)

lemma load_texts_into:
  assumes t: "hdr_text nm cl h" and wf: "hdr_wf h'" and c: "dh_class h' = dh_class h"
  obtains r where "feed_props load_prop (Some h')
      ((if has_name (dh_class h) then [(''name'', nm)] else []) @ (''cmdline'', cl) # kvs) =
      feed_props load_prop (Some r) kvs"
    and "hdr_text nm cl r" and "same_numbers h' r" and "os_version r = os_version h'"
proof -
  have l: "length nm < 16" "length cl \<le> BOOT_ARGS_SIZE + BOOT_EXTRA_ARGS_SIZE" using t by (simp_all add: hdr_text_def)
  obtain h1 where h1: "feed_props load_prop (Some h')
      ((if has_name (dh_class h) then [(''name'', nm)] else []) @ (''cmdline'', cl) # kvs) =
      feed_props load_prop (Some h1) ((''cmdline'', cl) # kvs)" "same_numbers h' h1" "os_version h1 = os_version h'"
      "has_name (dh_class h) \<Longrightarrow> text_slice F_name h1 = pad0 16 (bytes_of nm)"
  proof (cases "has_name (dh_class h)")
    case True
    obtain r where "load_prop (Some h') ''name'' nm = (Some r, True)" "same_numbers h' r"
      "os_version r = os_version h'" "text_slice F_name r = pad0 16 (bytes_of nm)"
      using load_name_into [OF wf l(1)] True c by metis
    then show ?thesis using True by (intro that [of r]) simp_all
  next
    case False
    then show ?thesis using wf by (intro that [of h']) (simp_all add: same_numbers_def)
  qed
  have wf1: "hdr_wf h1" using h1(2) by (simp add: same_numbers_def)
  obtain r where r: "load_prop (Some h1) ''cmdline'' cl = (Some r, True)" "same_numbers h1 r"
    "os_version r = os_version h1" "has_name (dh_class h1) \<Longrightarrow> text_slice F_name r = text_slice F_name h1"
    "text_slice F_cmdline r = pad0 BOOT_ARGS_SIZE (bytes_of (take BOOT_ARGS_SIZE cl))"
    "text_slice F_extra_cmdline r = pad0 BOOT_EXTRA_ARGS_SIZE (bytes_of (drop BOOT_ARGS_SIZE cl))"
    using load_cmdline_into [OF wf1 l(2)] by metis
  show thesis
  proof (rule that [of r])
    show "hdr_text nm cl r"
      unfolding hdr_text_slices using r h1(2,4) c t by (simp add: same_numbers_def hdr_text_def)
  qed (use h1 r in \<open>simp_all add: same_numbers_def\<close>)
qed

text \<open>Digits with a separator between them: a value the property file carries unchanged.\<close>

definition digits_sep :: "char \<Rightarrow> string \<Rightarrow> bool" where
  "digits_sep d s \<longleftrightarrow> list_all (\<lambda>c. isdigit c \<or> c = d) s \<and> s \<noteq> [] \<and> isdigit (last s)"

lemma digits_sep_decimal: "digits_sep d (decimal n)"
  using decimal_digits [of n] by (auto simp: digits_sep_def list_all_iff)

lemma digits_sep_decimal2: "digits_sep d (decimal2 n)"
  using digits_sep_decimal [of d n] by (auto simp: digits_sep_def decimal2_def isdigit_def)

lemma digits_sep_append: "digits_sep d s \<Longrightarrow> digits_sep d t \<Longrightarrow> digits_sep d (s @ d # t)"
  by (simp add: digits_sep_def)

lemma version_printable: "digits_sep CHR ''.'' (version_text v)"
proof -
  obtain a b c where "version_parts v = (a, b, c)" by (cases "version_parts v")
  then show ?thesis
    using digits_sep_append [OF digits_sep_decimal digits_sep_append [OF digits_sep_decimal digits_sep_decimal]]
    by (simp add: version_text_def)
qed

lemma patch_printable: "digits_sep CHR ''-'' (patch_text v)"
proof -
  obtain y m where "patch_parts v = (y, m)" by (cases "patch_parts v")
  then show ?thesis
    using digits_sep_append [OF digits_sep_decimal digits_sep_decimal2] by (simp add: patch_text_def)
qed

lemma digits_pair:
  assumes "digits_sep d v" and "d \<in> {CHR ''.'', CHR ''-''}"
  shows "prop_pair (''os_version'', v)" and "prop_pair (''os_patch_level'', v)"
  using assms by (auto simp: prop_pair_def isdigit_def digits_sep_def list_all_iff)

lemma dump_pairs_ok:
  assumes "hdr_text nm cl h"
  shows "\<forall>kv \<in> set (dump_pairs h). prop_pair kv"
  using assms name_text_canon [OF assms] cmdline_text_canon [OF assms]
    digits_pair(1) [OF version_printable] digits_pair(2) [OF patch_printable]
  by (auto simp: dump_pairs_def hdr_text_def)


definition sample_hdr :: "u32 \<Rightarrow> dyn_img_hdr" where
  "sample_hdr sz =
     \<lparr>dh_class = V0, dh_raw = replicate 8 0 @ le32 sz @ replicate 32 0 @ [0x61, 0x01, 0x00, 0x14] @
        pad0 16 (bytes_of ''board'') @ pad0 512 (bytes_of ''quiet'') @ replicate 32 0 @ pad0 1024 (bytes_of [])\<rparr>"

lemma sample_hdr_text: "hdr_text ''board'' ''quiet'' (sample_hdr sz)"
  by (simp add: hdr_text_def sample_hdr_def hdr_wf_def layout_defs size_defs prop_pair_def str_off.simps
      slice_def has_name_def)

lemma sample_hdr_version: "os_version (sample_hdr sz) = 0x14000161"
  by (simp add: os_version_def hget_def sample_hdr_def layout_defs size_defs slice_def)

definition blank_hdr :: "u32 \<Rightarrow> dyn_img_hdr" where
  "blank_hdr sz = \<lparr>dh_class = V0, dh_raw = replicate 8 0 @ le32 sz @ replicate 1620 0\<rparr>"

lemma blank_hdr_facts:
  "hdr_wf (blank_hdr sz)" "dh_class (blank_hdr sz) = dh_class (sample_hdr n)" "hget F_kernel_size (blank_hdr 7) = 7"
  by (simp_all add: blank_hdr_def sample_hdr_def hdr_wf_def hget_def layout_defs size_defs slice_def)


text \<open>C9: the accessors of every header class are a record: a size written to a field the class has reads
  back truncated to its width, no other field changes, and a field the class lacks is never written.\<close>

theorem hdr_fields:
  assumes "hdr_wf h"
  shows "hget g (hset f v h) =
    (if f = g \<and> f \<in> set (exposed (dh_class h)) then v mod 256 ^ hwidth h f else hget g h) \<and>
    hdr_wf (hset f v h) \<and> hwidth h f \<in> {0, 4, 8}"
proof -
  have "hwidth h f \<in> {0, 4, 8} \<and> (f \<in> set (exposed (dh_class h)) \<longrightarrow> 0 < hwidth h f)"
    using exposed_layout [of f "dh_class h"] by (auto simp: hwidth_def)
  then show ?thesis
    using hdr.get_put_same [OF assms, of f v] hdr.get_put_other [OF assms, of f g v]
      hdr.wf_put [OF assms, of f v] hset_hidden [of f h v] by (cases "f = g") auto
qed

theorem hdr_fields_witness:
  "hget F_kernel_size (hset F_kernel_size 77 (sample_hdr 5)) = 77 \<and>
   hget F_dtb_size (hset F_dtb_size 77 (sample_hdr 5)) = 0"
proof -
  have wf: "hdr_wf (sample_hdr 5)" using sample_hdr_text by (simp add: hdr_text_def)
  have c: "dh_class (sample_hdr 5) = V0" by (simp add: sample_hdr_def)
  have "hwidth (sample_hdr 5) F_kernel_size = 4" by (simp add: hwidth_def c layout_defs size_defs)
  moreover have "hget F_dtb_size (sample_hdr 5) = 0" by (simp add: hget_def c layout_defs size_defs)
  ultimately show ?thesis
    using hdr_fields [OF wf, of F_kernel_size F_kernel_size 77] hdr_fields [OF wf, of F_dtb_size F_dtb_size 77]
    by (simp add: c)
qed

end
