(* ===== verification/Boot_Compress.thy ===== *)
theory Boot_Compress
  imports Boot_Format Base_Stream
begin

text \<open>
  The compression streams of \<^verbatim>\<open>src/native/src/boot/compress.cpp\<close>. The codecs themselves (zlib, bzip2,
  liblzma, lz4, zopfli) are third-party code: the record \<open>codecs\<close> holds what the streams call of them,
  with one type \<open>'l\<close> for the state a library keeps, and is an argument of every definition.
  Each stream is a record of its fields and its base stream; \<open>out_strm\<close> is the object behind an
  \<open>out_strm_ptr\<close> and \<open>strm_put\<close>, \<open>strm_end\<close> are its virtual \<open>write\<close> and destructor.
\<close>

section \<open>The codec libraries\<close>

text \<open>A step of a streaming codec gets the pending input, the room for output and the flush flag, and
  gives its return code, the number of bytes consumed, the output and its new state.\<close>

type_synonym 'l codec_step = "'l \<Rightarrow> bytes \<Rightarrow> nat \<Rightarrow> bool \<Rightarrow> int \<times> nat \<times> bytes \<times> 'l"

record 'l codecs =
  inflateInit :: 'l
  inflate :: "'l codec_step"
  inflateReset :: "'l \<Rightarrow> 'l"
  deflateInit :: 'l
  deflate :: "'l codec_step"
  bzDecompressInit :: 'l
  bzDecompress :: "'l codec_step"
  bzCompressInit :: 'l
  bzCompress :: "'l codec_step"
  lzma_auto_decoder :: 'l
  lzma_stream_encoder :: 'l
  lzma_alone_encoder :: 'l
  lzma_code :: "'l codec_step"
  LZ4F_newDecompression :: 'l
  LZ4F_getFrameInfo :: "'l \<Rightarrow> bytes \<Rightarrow> nat \<times> nat option \<times> 'l"
  LZ4F_decompress :: "'l \<Rightarrow> nat \<Rightarrow> bytes \<Rightarrow> bool \<times> nat \<times> bytes \<times> 'l"
  LZ4F_newCompression :: 'l
  LZ4F_compressBegin :: "'l \<Rightarrow> bytes \<times> 'l"
  LZ4F_compressUpdate :: "'l \<Rightarrow> bytes \<Rightarrow> bytes option \<times> 'l"
  LZ4F_compressEnd :: "'l \<Rightarrow> bytes option"
  LZ4_compress_HC :: "bytes \<Rightarrow> nat \<Rightarrow> bytes"
  LZ4_decompress_safe :: "bytes \<Rightarrow> nat \<Rightarrow> bytes option"
  LZ4_COMPRESSED :: nat
  ZOPFLI_MASTER_BLOCK_SIZE :: nat
  ZopfliDeflatePart :: "bool \<Rightarrow> bytes \<Rightarrow> u8 \<Rightarrow> bytes \<Rightarrow> u8 \<times> bytes"
  crc32 :: "u64 \<Rightarrow> bytes \<Rightarrow> u64"

definition CHUNK :: nat where
  "CHUNK = 0x40000"

definition LZ4_UNCOMPRESSED :: nat where
  "LZ4_UNCOMPRESSED = 0x800000"

definition Z_STREAM_ERROR :: int where
  "Z_STREAM_ERROR = -2"

definition Z_STREAM_END :: int where
  "Z_STREAM_END = 1"

section \<open>gzip\<close>

datatype gz_mode = GZ_DECODE | GZ_ENCODE | GZ_WAIT | GZ_COPY

record ('l, 'b) gz_strm =
  gz_mode :: gz_mode
  gz_lib :: 'l
  gz_base :: 'b

definition gz_decoder :: "'l codecs \<Rightarrow> 'b \<Rightarrow> ('l, 'b) gz_strm" where
  "gz_decoder L b = \<lparr>gz_mode = GZ_DECODE, gz_lib = inflateInit L, gz_base = b\<rparr>"

definition gz_encoder :: "'l codecs \<Rightarrow> 'b \<Rightarrow> ('l, 'b) gz_strm" where
  "gz_encoder L b = \<lparr>gz_mode = GZ_ENCODE, gz_lib = deflateInit L, gz_base = b\<rparr>"

text \<open>The \<open>do\<close>-\<open>while\<close> loop of \<open>do_write\<close>; \<open>inp\<close> is what \<open>next_in\<close> and \<open>avail_in\<close> describe. At the end of
  a member the next two bytes decide whether another member follows; the loop goes on for it
  because \<open>avail_out\<close> is set to zero.\<close>

partial_function (option) gz_loop ::
    "'l codecs \<Rightarrow> 'b writer \<Rightarrow> bool \<Rightarrow> ('l, 'b) gz_strm \<Rightarrow> bytes \<Rightarrow> (bool \<times> ('l, 'b) gz_strm) option" where
  "gz_loop L bwrite flush s inp =
    (case gz_mode s of
       GZ_COPY \<Rightarrow> Some (True, s)
     | GZ_WAIT \<Rightarrow> Some (False, s)
     | mode \<Rightarrow>
      (case (if mode = GZ_DECODE then inflate L else deflate L) (gz_lib s) inp CHUNK flush of
         (code, used, out, l) \<Rightarrow>
          (let s1 = s\<lparr>gz_lib := l\<rparr>; rest = drop used inp in
           if code = Z_STREAM_ERROR then Some (False, s1)
           else Option.bind (bwrite (gz_base s) out) (\<lambda>(ok, b).
             (let s2 = s1\<lparr>gz_base := b\<rparr> in
              if \<not> ok then Some (False, s2)
              else if mode = GZ_DECODE \<and> code = Z_STREAM_END then
                (if 1 < length rest then
                   (if rest ! 0 = 0x1f \<and> rest ! 1 = 0x8b
                    then gz_loop L bwrite flush (s2\<lparr>gz_lib := inflateReset L l\<rparr>) rest
                    else Some (True, s2\<lparr>gz_mode := GZ_COPY\<rparr>))
                 else if length rest = 1 then
                   Some (True, s2\<lparr>gz_mode := (if rest ! 0 = 0x1f then GZ_WAIT else GZ_COPY)\<rparr>)
                 else Some (True, s2))
              else if length out = CHUNK then gz_loop L bwrite flush s2 rest
              else Some (True, s2))))))"

text \<open>\<open>do_write\<close>; in \<open>WAIT\<close> the pending \<open>0x1f\<close> is fed first when the magic is completed (the room left
  in the output buffer is irrelevant for a header byte and written as \<open>CHUNK\<close>).\<close>

definition gz_do_write ::
    "'l codecs \<Rightarrow> 'b writer \<Rightarrow> ('l, 'b) gz_strm \<Rightarrow> bytes \<Rightarrow> bool \<Rightarrow> (bool \<times> ('l, 'b) gz_strm) option" where
  "gz_do_write L bwrite s buf flush =
     (if gz_mode s = GZ_WAIT then
        (if buf = [] then Some (True, s)
         else if hd buf = 0x8b then
           (case inflate L (inflateReset L (gz_lib s)) [0x1f] CHUNK flush of
              (_, _, _, l) \<Rightarrow> gz_loop L bwrite flush (s\<lparr>gz_mode := GZ_DECODE, gz_lib := l\<rparr>) buf)
         else Some (True, s\<lparr>gz_mode := GZ_COPY\<rparr>))
      else gz_loop L bwrite flush s buf)"

definition gz_write :: "'l codecs \<Rightarrow> 'b writer \<Rightarrow> ('l, 'b) gz_strm writer" where
  "gz_write L bwrite s buf =
     (if buf = [] then Some (True, s) else gz_do_write L bwrite s buf False)"

definition gz_end :: "'l codecs \<Rightarrow> 'b writer \<Rightarrow> ('l, 'b) gz_strm \<Rightarrow> 'b option" where
  "gz_end L bwrite s = map_option (\<lambda>(_, s'). gz_base s') (gz_do_write L bwrite s [] True)"

section \<open>zopfli\<close>

record 'b zopfli_strm =
  zo_out :: bytes
  zo_crc :: u64
  zo_in_total :: u32
  zo_bp :: u8
  zo_base :: 'b

definition zopfli_header :: bytes where
  "zopfli_header = [31, 139, 8, 0, 0, 0, 0, 0, 2, 3]"

definition zopfli_encoder :: "'l codecs \<Rightarrow> 'b \<Rightarrow> 'b zopfli_strm chunk_strm" where
  "zopfli_encoder L b =
     chunk_new (ZOPFLI_MASTER_BLOCK_SIZE L) (ZOPFLI_MASTER_BLOCK_SIZE L)
       \<lparr>zo_out = zopfli_header, zo_crc = crc32 L 0 [], zo_in_total = 0, zo_bp = 0, zo_base = b\<rparr>"

definition zopfli_write_chunk :: "'l codecs \<Rightarrow> 'b writer \<Rightarrow> 'b zopfli_strm chunk_writer" where
  "zopfli_write_chunk L bwrite s buf len fin =
     Option.bind (rd buf 0 len) (\<lambda>d.
       (let z = cs_sub s;
            (bp, out) = ZopfliDeflatePart L fin d (zo_bp z) (zo_out z);
            z1 = z\<lparr>zo_in_total := zo_in_total z + of_nat len, zo_crc := crc32 L (zo_crc z) d,
                   zo_bp := bp, zo_out := out\<rparr> in
        if out = [] then None
        else Option.bind (bwrite (zo_base z) (butlast out)) (\<lambda>(ok, b).
          if ok then Some (True, s\<lparr>cs_sub := z1\<lparr>zo_out := [last out], zo_base := b\<rparr>\<rparr>)
          else Some (False, s\<lparr>cs_sub := z1\<lparr>zo_base := b\<rparr>\<rparr>))))"

text \<open>The destructor appends the low 32 bits of the checksum and the length, each byte taken \<open>% 256\<close>.\<close>

definition append_le :: "u64 \<Rightarrow> bytes" where
  "append_le v = map (\<lambda>k. ucast (drop_bit k v mod 256)) [0, 8, 16, 24]"

definition zopfli_end :: "'l codecs \<Rightarrow> 'b writer \<Rightarrow> 'b zopfli_strm chunk_strm \<Rightarrow> 'b option" where
  "zopfli_end L bwrite s =
     Option.bind (chunk_finalize (zopfli_write_chunk L bwrite) s) (\<lambda>s'.
       (let z = cs_sub s';
            out = zo_out z @ append_le (zo_crc z) @ append_le (ucast (zo_in_total z)) in
        map_option snd (bwrite (zo_base z) out)))"

section \<open>bzip2 and lzma\<close>

definition BZ_STREAM_END :: int where
  "BZ_STREAM_END = 4"

datatype bz_mode = BZ_DECODE | BZ_ENCODE

record ('l, 'b) bz_strm =
  bz_mode :: bz_mode
  bz_lib :: 'l
  bz_base :: 'b

definition bz_decoder :: "'l codecs \<Rightarrow> 'b \<Rightarrow> ('l, 'b) bz_strm" where
  "bz_decoder L b = \<lparr>bz_mode = BZ_DECODE, bz_lib = bzDecompressInit L, bz_base = b\<rparr>"

definition bz_encoder :: "'l codecs \<Rightarrow> 'b \<Rightarrow> ('l, 'b) bz_strm" where
  "bz_encoder L b = \<lparr>bz_mode = BZ_ENCODE, bz_lib = bzCompressInit L, bz_base = b\<rparr>"

partial_function (option) bz_do_write ::
    "'l codecs \<Rightarrow> 'b writer \<Rightarrow> bool \<Rightarrow> ('l, 'b) bz_strm \<Rightarrow> bytes \<Rightarrow> (bool \<times> ('l, 'b) bz_strm) option" where
  "bz_do_write L bwrite flush s inp =
    (case (case bz_mode s of BZ_DECODE \<Rightarrow> bzDecompress L | BZ_ENCODE \<Rightarrow> bzCompress L)
        (bz_lib s) inp CHUNK flush of
       (code, used, out, l) \<Rightarrow>
        (if code < 0 then Some (False, s\<lparr>bz_lib := l\<rparr>)
         else Option.bind (bwrite (bz_base s) out) (\<lambda>(ok, b).
           (let s' = s\<lparr>bz_lib := l, bz_base := b\<rparr> in
            if \<not> ok then Some (False, s')
            else if code = BZ_STREAM_END then Some (True, s')
            else if length out = CHUNK then bz_do_write L bwrite flush s' (drop used inp)
            else Some (True, s')))))"

definition bz_write :: "'l codecs \<Rightarrow> 'b writer \<Rightarrow> ('l, 'b) bz_strm writer" where
  "bz_write L bwrite s buf = (if buf = [] then Some (True, s) else bz_do_write L bwrite False s buf)"

definition bz_end :: "'l codecs \<Rightarrow> 'b writer \<Rightarrow> ('l, 'b) bz_strm \<Rightarrow> 'b option" where
  "bz_end L bwrite s =
     (case bz_mode s of
        BZ_DECODE \<Rightarrow> Some (bz_base s)
      | BZ_ENCODE \<Rightarrow> map_option (\<lambda>(_, s'). bz_base s') (bz_do_write L bwrite True s []))"

datatype lzma_mode = LZMA_DECODE | LZMA_ENCODE_XZ | LZMA_ENCODE_LZMA

record ('l, 'b) lzma_strm =
  lz_mode :: lzma_mode
  lz_lib :: 'l
  lz_base :: 'b

definition lzma_new :: "'l codecs \<Rightarrow> lzma_mode \<Rightarrow> 'b \<Rightarrow> ('l, 'b) lzma_strm" where
  "lzma_new L mode b =
     \<lparr>lz_mode = mode,
      lz_lib = (case mode of LZMA_DECODE \<Rightarrow> lzma_auto_decoder L
                | LZMA_ENCODE_XZ \<Rightarrow> lzma_stream_encoder L
                | LZMA_ENCODE_LZMA \<Rightarrow> lzma_alone_encoder L),
      lz_base = b\<rparr>"

partial_function (option) lzma_do_write ::
    "'l codecs \<Rightarrow> 'b writer \<Rightarrow> bool \<Rightarrow> ('l, 'b) lzma_strm \<Rightarrow> bytes \<Rightarrow> (bool \<times> ('l, 'b) lzma_strm) option" where
  "lzma_do_write L bwrite flush s inp =
    (case lzma_code L (lz_lib s) inp CHUNK flush of
       (code, used, out, l) \<Rightarrow>
        (if code \<noteq> 0 \<and> code \<noteq> 1 then Some (False, s\<lparr>lz_lib := l\<rparr>)
         else Option.bind (bwrite (lz_base s) out) (\<lambda>(ok, b).
           (let s' = s\<lparr>lz_lib := l, lz_base := b\<rparr> in
            if \<not> ok then Some (False, s')
            else if length out = CHUNK then lzma_do_write L bwrite flush s' (drop used inp)
            else Some (True, s')))))"

definition lzma_write :: "'l codecs \<Rightarrow> 'b writer \<Rightarrow> ('l, 'b) lzma_strm writer" where
  "lzma_write L bwrite s buf = (if buf = [] then Some (True, s) else lzma_do_write L bwrite False s buf)"

definition lzma_strm_end :: "'l codecs \<Rightarrow> 'b writer \<Rightarrow> ('l, 'b) lzma_strm \<Rightarrow> 'b option" where
  "lzma_strm_end L bwrite s = map_option (\<lambda>(_, s'). lz_base s') (lzma_do_write L bwrite True s [])"

section \<open>lz4 frames\<close>

record ('l, 'b) lz4f_dec =
  fd_ctx :: 'l
  fd_outbuf :: bool
  fd_outCapacity :: nat
  fd_base :: 'b

definition LZ4F_decoder :: "'l codecs \<Rightarrow> 'b \<Rightarrow> ('l, 'b) lz4f_dec" where
  "LZ4F_decoder L b =
     \<lparr>fd_ctx = LZ4F_newDecompression L, fd_outbuf = False, fd_outCapacity = 0, fd_base = b\<rparr>"

text \<open>The size of the output buffer for a frame's block size id; an id outside the switch leaves the
  field as it was.\<close>

definition block_capacity :: "nat \<Rightarrow> nat \<Rightarrow> nat" where
  "block_capacity old bid =
     (if bid = 0 \<or> bid = 4 then 2 ^ 16 else if bid = 5 then 2 ^ 18
      else if bid = 6 then 2 ^ 20 else if bid = 7 then 2 ^ 22 else old)"

partial_function (option) LZ4F_dec_loop ::
    "'l codecs \<Rightarrow> 'b writer \<Rightarrow> ('l, 'b) lz4f_dec \<Rightarrow> bytes \<Rightarrow> (bool \<times> ('l, 'b) lz4f_dec) option" where
  "LZ4F_dec_loop L bwrite s inp =
    (case LZ4F_decompress L (fd_ctx s) (fd_outCapacity s) inp of
       (err, used, out, ctx) \<Rightarrow>
        (if err then Some (False, s\<lparr>fd_ctx := ctx\<rparr>)
         else Option.bind (bwrite (fd_base s) out) (\<lambda>(ok, b).
           (let s' = s\<lparr>fd_ctx := ctx, fd_base := b\<rparr> in
            if \<not> ok then Some (False, s')
            else if drop used inp \<noteq> [] \<or> out \<noteq> [] then LZ4F_dec_loop L bwrite s' (drop used inp)
            else Some (True, s')))))"

text \<open>The frame header is read on the first write; its failure is not checked, and then the block
  size id is indeterminate.\<close>

definition LZ4F_dec_write :: "'l codecs \<Rightarrow> 'b writer \<Rightarrow> ('l, 'b) lz4f_dec writer" where
  "LZ4F_dec_write L bwrite s buf =
     (if fd_outbuf s then LZ4F_dec_loop L bwrite s buf
      else
        (case LZ4F_getFrameInfo L (fd_ctx s) buf of
           (used, info, ctx) \<Rightarrow>
             Option.bind info (\<lambda>bid.
               LZ4F_dec_loop L bwrite
                 (s\<lparr>fd_ctx := ctx, fd_outbuf := True, fd_outCapacity := block_capacity (fd_outCapacity s) bid\<rparr>)
                 (drop used buf))))"

record ('l, 'b) lz4f_enc =
  fe_ctx :: 'l
  fe_outbuf :: bool
  fe_base :: 'b

definition LZ4F_BLOCK_SZ :: nat where
  "LZ4F_BLOCK_SZ = 2 ^ 22"

lemma LZ4F_BLOCK_SZ_pos [simp]: "0 < LZ4F_BLOCK_SZ"
  by (simp add: LZ4F_BLOCK_SZ_def)

definition LZ4F_encoder :: "'l codecs \<Rightarrow> 'b \<Rightarrow> ('l, 'b) lz4f_enc" where
  "LZ4F_encoder L b = \<lparr>fe_ctx = LZ4F_newCompression L, fe_outbuf = False, fe_base = b\<rparr>"

function LZ4F_enc_loop ::
    "'l codecs \<Rightarrow> 'b writer \<Rightarrow> ('l, 'b) lz4f_enc \<Rightarrow> bytes \<Rightarrow> (bool \<times> ('l, 'b) lz4f_enc) option" where
  "LZ4F_enc_loop L bwrite s inp =
    (case LZ4F_compressUpdate L (fe_ctx s) (take LZ4F_BLOCK_SZ inp) of
       (out, ctx) \<Rightarrow>
        (case out of None \<Rightarrow> Some (False, s\<lparr>fe_ctx := ctx\<rparr>)
         | Some o' \<Rightarrow>
           Option.bind (bwrite (fe_base s) o') (\<lambda>(ok, b).
             (let s' = s\<lparr>fe_ctx := ctx, fe_base := b\<rparr> in
              if \<not> ok then Some (False, s')
              else if drop LZ4F_BLOCK_SZ inp \<noteq> [] then LZ4F_enc_loop L bwrite s' (drop LZ4F_BLOCK_SZ inp)
              else Some (True, s')))))"
  by pat_completeness auto

termination
  by (relation "measure (\<lambda>(L, bw, s, inp). length inp)") (auto simp: LZ4F_BLOCK_SZ_def)

declare LZ4F_enc_loop.simps [simp del]

definition LZ4F_enc_write :: "'l codecs \<Rightarrow> 'b writer \<Rightarrow> ('l, 'b) lz4f_enc writer" where
  "LZ4F_enc_write L bwrite s buf =
     Option.bind
       (if fe_outbuf s then Some (True, s)
        else
          (case LZ4F_compressBegin L (fe_ctx s) of
             (hdr, ctx) \<Rightarrow>
               map_option (\<lambda>(ok, b). (ok, s\<lparr>fe_ctx := ctx, fe_outbuf := True, fe_base := b\<rparr>))
                 (bwrite (fe_base s) hdr)))
       (\<lambda>(ok, s1).
          if \<not> ok then Some (False, s1)
          else if buf = [] then Some (True, s1)
          else LZ4F_enc_loop L bwrite s1 buf)"

definition LZ4F_enc_end :: "'l codecs \<Rightarrow> 'b writer \<Rightarrow> ('l, 'b) lz4f_enc \<Rightarrow> 'b option" where
  "LZ4F_enc_end L bwrite s =
     (case LZ4F_compressEnd L (fe_ctx s) of
        None \<Rightarrow> Some (fe_base s)
      | Some o' \<Rightarrow> map_option snd (bwrite (fe_base s) o'))"

section \<open>Legacy lz4\<close>

record 'b lz4_dec =
  ld_block_sz :: u32
  ld_base :: 'b

definition LZ4_MAGIC :: u32 where
  "LZ4_MAGIC = 0x184C2102"

definition LZ4_decoder :: "'l codecs \<Rightarrow> 'b \<Rightarrow> 'b lz4_dec chunk_strm" where
  "LZ4_decoder L b = chunk_new (LZ4_COMPRESSED L) 4 \<lparr>ld_block_sz = 0, ld_base = b\<rparr>"

text \<open>\<open>write_chunk\<close> reads four bytes for a block size even when it was given fewer; a block of 2 GiB or
  more would be a negative \<open>int\<close> for the library.\<close>

definition LZ4_dec_chunk :: "'l codecs \<Rightarrow> 'b writer \<Rightarrow> 'b lz4_dec chunk_writer" where
  "LZ4_dec_chunk L bwrite s buf len fin =
     (let d = cs_sub s in
      if len \<noteq> chunk_sz s then Some (False, s)
      else if ld_block_sz d = 0 then
        Option.bind (rd_u32 buf 0) (\<lambda>v.
          if v = LZ4_MAGIC then Some (True, s\<lparr>chunk_sz := 4, cs_sub := d\<lparr>ld_block_sz := 0\<rparr>\<rparr>)
          else Some (True, s\<lparr>chunk_sz := unat v, cs_sub := d\<lparr>ld_block_sz := v\<rparr>\<rparr>))
      else if 2 ^ 31 \<le> unat (ld_block_sz d) then None
      else
        Option.bind (rd buf 0 (unat (ld_block_sz d))) (\<lambda>blk.
          (let s1 = s\<lparr>chunk_sz := 4, cs_sub := d\<lparr>ld_block_sz := 0\<rparr>\<rparr> in
           case LZ4_decompress_safe L blk LZ4_UNCOMPRESSED of
             None \<Rightarrow> Some (False, s1)
           | Some out \<Rightarrow>
               map_option (\<lambda>(ok, b). (ok, s1\<lparr>cs_sub := d\<lparr>ld_block_sz := 0, ld_base := b\<rparr>\<rparr>))
                 (bwrite (ld_base d) out))))"

definition LZ4_dec_end :: "'l codecs \<Rightarrow> 'b writer \<Rightarrow> 'b lz4_dec chunk_strm \<Rightarrow> 'b option" where
  "LZ4_dec_end L bwrite s =
     map_option (\<lambda>s'. ld_base (cs_sub s')) (chunk_finalize (LZ4_dec_chunk L bwrite) s)"

record 'b lz4_enc =
  le_lg :: bool
  le_in_total :: u32
  le_base :: 'b

definition LZ4_encoder :: "'b writer \<Rightarrow> bool \<Rightarrow> 'b \<Rightarrow> 'b lz4_enc chunk_strm option" where
  "LZ4_encoder bwrite lg b =
     map_option (\<lambda>(_, b'). chunk_new LZ4_UNCOMPRESSED LZ4_UNCOMPRESSED
         \<lparr>le_lg = lg, le_in_total = 0, le_base = b'\<rparr>)
       (bwrite b [0x02, 0x21, 0x4c, 0x18])"

definition LZ4_enc_chunk :: "'l codecs \<Rightarrow> 'b writer \<Rightarrow> 'b lz4_enc chunk_writer" where
  "LZ4_enc_chunk L bwrite s buf len fin =
     Option.bind (rd buf 0 len) (\<lambda>inp.
       (let e = cs_sub s; blk = LZ4_compress_HC L inp (LZ4_COMPRESSED L) in
        if blk = [] then Some (False, s)
        else
          Option.bind (bwrite (le_base e) (le32 (of_nat (length blk)))) (\<lambda>(ok, b1).
            if \<not> ok then Some (False, s\<lparr>cs_sub := e\<lparr>le_base := b1\<rparr>\<rparr>)
            else
              Option.bind (bwrite b1 blk) (\<lambda>(ok2, b2).
                if ok2 then
                  Some (True, s\<lparr>cs_sub := e\<lparr>le_in_total := le_in_total e + of_nat len, le_base := b2\<rparr>\<rparr>)
                else Some (False, s\<lparr>cs_sub := e\<lparr>le_base := b2\<rparr>\<rparr>)))))"

definition LZ4_enc_end :: "'l codecs \<Rightarrow> 'b writer \<Rightarrow> 'b lz4_enc chunk_strm \<Rightarrow> 'b option" where
  "LZ4_enc_end L bwrite s =
     Option.bind (chunk_finalize (LZ4_enc_chunk L bwrite) s) (\<lambda>s'.
       if le_lg (cs_sub s') then map_option snd (bwrite (le_base (cs_sub s')) (le32 (le_in_total (cs_sub s'))))
       else Some (le_base (cs_sub s')))"

section \<open>The stream factory\<close>

datatype ('l, 'b) out_strm =
    GzStrm "('l, 'b) gz_strm"
  | ZopfliStrm "'b zopfli_strm chunk_strm"
  | BzStrm "('l, 'b) bz_strm"
  | LzmaStrm "('l, 'b) lzma_strm"
  | Lz4fDec "('l, 'b) lz4f_dec"
  | Lz4fEnc "('l, 'b) lz4f_enc"
  | Lz4Dec "'b lz4_dec chunk_strm"
  | Lz4Enc "'b lz4_enc chunk_strm"

definition get_encoder :: "'l codecs \<Rightarrow> 'b writer \<Rightarrow> format_t \<Rightarrow> 'b \<Rightarrow> ('l, 'b) out_strm option" where
  "get_encoder L bwrite type b =
     (case type of
        XZ \<Rightarrow> Some (LzmaStrm (lzma_new L LZMA_ENCODE_XZ b))
      | LZMA \<Rightarrow> Some (LzmaStrm (lzma_new L LZMA_ENCODE_LZMA b))
      | BZIP2 \<Rightarrow> Some (BzStrm (bz_encoder L b))
      | LZ4 \<Rightarrow> Some (Lz4fEnc (LZ4F_encoder L b))
      | LZ4_LEGACY \<Rightarrow> map_option Lz4Enc (LZ4_encoder bwrite False b)
      | LZ4_LG \<Rightarrow> map_option Lz4Enc (LZ4_encoder bwrite True b)
      | ZOPFLI \<Rightarrow> Some (ZopfliStrm (zopfli_encoder L b))
      | _ \<Rightarrow> Some (GzStrm (gz_encoder L b)))"

definition get_decoder :: "'l codecs \<Rightarrow> format_t \<Rightarrow> 'b \<Rightarrow> ('l, 'b) out_strm" where
  "get_decoder L type b =
     (case type of
        XZ \<Rightarrow> LzmaStrm (lzma_new L LZMA_DECODE b)
      | LZMA \<Rightarrow> LzmaStrm (lzma_new L LZMA_DECODE b)
      | BZIP2 \<Rightarrow> BzStrm (bz_decoder L b)
      | LZ4 \<Rightarrow> Lz4fDec (LZ4F_decoder L b)
      | LZ4_LEGACY \<Rightarrow> Lz4Dec (LZ4_decoder L b)
      | LZ4_LG \<Rightarrow> Lz4Dec (LZ4_decoder L b)
      | _ \<Rightarrow> GzStrm (gz_decoder L b))"

text \<open>The virtual \<open>write\<close> and the destructor, which returns the base stream as it leaves it.\<close>

definition strm_put :: "'l codecs \<Rightarrow> 'b writer \<Rightarrow> ('l, 'b) out_strm writer" where
  "strm_put L bwrite s buf =
     (case s of
        GzStrm x \<Rightarrow> map_option (apsnd GzStrm) (gz_write L bwrite x buf)
      | ZopfliStrm x \<Rightarrow> map_option (apsnd ZopfliStrm) (chunk_write (zopfli_write_chunk L bwrite) x buf)
      | BzStrm x \<Rightarrow> map_option (apsnd BzStrm) (bz_write L bwrite x buf)
      | LzmaStrm x \<Rightarrow> map_option (apsnd LzmaStrm) (lzma_write L bwrite x buf)
      | Lz4fDec x \<Rightarrow> map_option (apsnd Lz4fDec) (LZ4F_dec_write L bwrite x buf)
      | Lz4fEnc x \<Rightarrow> map_option (apsnd Lz4fEnc) (LZ4F_enc_write L bwrite x buf)
      | Lz4Dec x \<Rightarrow> map_option (apsnd Lz4Dec) (chunk_write (LZ4_dec_chunk L bwrite) x buf)
      | Lz4Enc x \<Rightarrow> map_option (apsnd Lz4Enc) (chunk_write (LZ4_enc_chunk L bwrite) x buf))"

definition strm_end :: "'l codecs \<Rightarrow> 'b writer \<Rightarrow> ('l, 'b) out_strm \<Rightarrow> 'b option" where
  "strm_end L bwrite s =
     (case s of
        GzStrm x \<Rightarrow> gz_end L bwrite x
      | ZopfliStrm x \<Rightarrow> zopfli_end L bwrite x
      | BzStrm x \<Rightarrow> bz_end L bwrite x
      | LzmaStrm x \<Rightarrow> lzma_strm_end L bwrite x
      | Lz4fDec x \<Rightarrow> Some (fd_base x)
      | Lz4fEnc x \<Rightarrow> LZ4F_enc_end L bwrite x
      | Lz4Dec x \<Rightarrow> LZ4_dec_end L bwrite x
      | Lz4Enc x \<Rightarrow> LZ4_enc_end L bwrite x)"

section \<open>Whole files\<close>

text \<open>The command-line program runs with \<open>LOGE\<close> terminating the process: \<open>Exit\<close>. \<open>reads\<close> are the
  successive results of \<open>read\<close>, none empty, up to the end of the file; \<open>open_out\<close> gives the base
  stream of an output path.\<close>

record 'b zip_res =
  zr_out :: "(string \<times> 'b) option"
  zr_unlink :: "string option"

fun put_all :: "'l codecs \<Rightarrow> 'b writer \<Rightarrow> ('l, 'b) out_strm \<Rightarrow> bytes list \<Rightarrow> ('l, 'b) out_strm run option" where
  "put_all L bwrite s [] = Some (Done s)"
| "put_all L bwrite s (r # rs) =
     Option.bind (strm_put L bwrite s r) (\<lambda>(ok, s'). if ok then put_all L bwrite s' rs else Some Exit)"

definition strrchr_dot :: "string \<Rightarrow> (string \<times> string) option" where
  "strrchr_dot s =
     (if CHR ''.'' \<in> set s then
        (let t = takeWhile (\<lambda>c. c \<noteq> CHR ''.'') (rev s) in
         Some (take (length s - length t - 1) s, CHR ''.'' # rev t))
      else None)"

text \<open>Where \<open>decompress\<close> writes and whether the input is to be removed.\<close>

definition decompress_target :: "format_t \<Rightarrow> string \<Rightarrow> string option \<Rightarrow> (string \<times> bool) run" where
  "decompress_target type infile outfile =
     (case outfile of
        Some f \<Rightarrow> Done (f, False)
      | None \<Rightarrow>
          if infile = ''-'' then Done (infile, False)
          else
            (case strrchr_dot infile of
               None \<Rightarrow> Exit
             | Some (stem, ext) \<Rightarrow> if ext \<noteq> fmt2ext type then Exit else Done (stem, True)))"

definition decompress_file ::
    "'l codecs \<Rightarrow> 'b writer \<Rightarrow> (string \<Rightarrow> 'b) \<Rightarrow> string \<Rightarrow> string option \<Rightarrow> bytes list \<Rightarrow> 'b zip_res run option" where
  "decompress_file L bwrite open_out infile outfile reads =
     (case reads of
        [] \<Rightarrow> Some (Done \<lparr>zr_out = None, zr_unlink = None\<rparr>)
      | r # rs \<Rightarrow>
          Option.bind (check_fmt r 0 (length r)) (\<lambda>type.
            if \<not> COMPRESSED type then Some Exit
            else
              (case decompress_target type infile outfile of
                 Exit \<Rightarrow> Some Exit
               | Done (path, rm_in) \<Rightarrow>
                   Option.bind (put_all L bwrite (get_decoder L type (open_out path)) (r # rs)) (\<lambda>res.
                     (case res of
                        Exit \<Rightarrow> Some Exit
                      | Done s \<Rightarrow>
                          map_option (\<lambda>b. Done \<lparr>zr_out = Some (path, b),
                              zr_unlink = (if rm_in then Some infile else None)\<rparr>)
                            (strm_end L bwrite s))))))"

definition compress_file ::
    "'l codecs \<Rightarrow> 'b writer \<Rightarrow> (string \<Rightarrow> 'b) \<Rightarrow> string \<Rightarrow> string \<Rightarrow> string option \<Rightarrow> bytes list \<Rightarrow> 'b zip_res run option" where
  "compress_file L bwrite open_out method infile outfile reads =
     (let fmt = name2fmt method in
      if fmt = UNKNOWN then Some Exit
      else
        (let (path, rm_in) =
           (case outfile of
              Some f \<Rightarrow> (f, False)
            | None \<Rightarrow> if infile = ''-'' then (''-'', False) else (infile @ fmt2ext fmt, True)) in
         Option.bind (get_encoder L bwrite fmt (open_out path)) (\<lambda>s.
           Option.bind (put_all L bwrite s reads) (\<lambda>res.
             (case res of
                Exit \<Rightarrow> Some Exit
              | Done s' \<Rightarrow>
                  map_option (\<lambda>b. Done \<lparr>zr_out = Some (path, b),
                      zr_unlink = (if rm_in then Some infile else None)\<rparr>)
                    (strm_end L bwrite s'))))))"

text \<open>The in-memory variants: the returned flag and the base stream after destruction. A failing
  \<open>write\<close> still runs the destructor.\<close>

definition through :: "'l codecs \<Rightarrow> 'b writer \<Rightarrow> ('l, 'b) out_strm \<Rightarrow> bytes \<Rightarrow> (bool \<times> 'b) option" where
  "through L bwrite s buf =
     Option.bind (strm_put L bwrite s buf)
       (\<lambda>(ok, s'). map_option (Pair ok) (strm_end L bwrite s'))"

definition decompress_buf :: "'l codecs \<Rightarrow> 'b writer \<Rightarrow> 'b \<Rightarrow> bytes \<Rightarrow> (bool \<times> 'b) option" where
  "decompress_buf L bwrite b buf =
     Option.bind (check_fmt buf 0 (length buf)) (\<lambda>type.
       if \<not> COMPRESSED type then Some (False, b) else through L bwrite (get_decoder L type b) buf)"

definition xz_buf :: "'l codecs \<Rightarrow> byte \<Rightarrow> bytes \<Rightarrow> bytes \<Rightarrow> (bool \<times> vec_strm) option" where
  "xz_buf L junk buf out =
     Option.bind (get_encoder L (vs_write junk) XZ \<lparr>vs_data = out, vs_pos = 0\<rparr>)
       (\<lambda>s. through L (vs_write junk) s buf)"

definition unxz_buf :: "'l codecs \<Rightarrow> byte \<Rightarrow> bytes \<Rightarrow> bytes \<Rightarrow> (bool \<times> vec_strm) option" where
  "unxz_buf L junk buf out =
     Option.bind (check_fmt buf 0 (length buf)) (\<lambda>type.
       if type \<noteq> XZ then Some (False, \<lparr>vs_data = out, vs_pos = 0\<rparr>)
       else through L (vs_write junk) (get_decoder L XZ \<lparr>vs_data = out, vs_pos = 0\<rparr>) buf)"

section \<open>Legacy lz4: what the encoder writes\<close>

text \<open>The documented behaviour of the block codec: compressing a non-empty block of at most
  \<open>LZ4_UNCOMPRESSED\<close> bytes succeeds within the bound and decompression gives the block back.\<close>

definition lz4_ok :: "'l codecs \<Rightarrow> bool" where
  "lz4_ok L \<longleftrightarrow> 4 \<le> LZ4_COMPRESSED L \<and> LZ4_COMPRESSED L < 2 ^ 28 \<and>
     (\<forall>x. x \<noteq> [] \<and> length x \<le> LZ4_UNCOMPRESSED \<longrightarrow>
        (let c = LZ4_compress_HC L x (LZ4_COMPRESSED L) in
         c \<noteq> [] \<and> length c \<le> LZ4_COMPRESSED L \<and> LZ4_decompress_safe L c LZ4_UNCOMPRESSED = Some x))"

lemma lz4_okD:
  assumes "lz4_ok L" and "x \<noteq> []" and "length x \<le> LZ4_UNCOMPRESSED"
  shows "LZ4_compress_HC L x (LZ4_COMPRESSED L) \<noteq> []"
    and "length (LZ4_compress_HC L x (LZ4_COMPRESSED L)) \<le> LZ4_COMPRESSED L"
    and "length (LZ4_compress_HC L x (LZ4_COMPRESSED L)) < 2 ^ 28"
    and "LZ4_decompress_safe L (LZ4_compress_HC L x (LZ4_COMPRESSED L)) LZ4_UNCOMPRESSED = Some x"
  using assms by (auto simp: lz4_ok_def Let_def intro: le_less_trans)

definition lz4_block :: "'l codecs \<Rightarrow> bytes \<Rightarrow> bytes" where
  "lz4_block L x =
     (let c = LZ4_compress_HC L x (LZ4_COMPRESSED L) in le32 (of_nat (length c)) @ c)"

definition lz4_image :: "'l codecs \<Rightarrow> bool \<Rightarrow> bytes \<Rightarrow> bytes" where
  "lz4_image L lg xs =
     [0x02, 0x21, 0x4c, 0x18] @ concat (map (lz4_block L) (all_chunks LZ4_UNCOMPRESSED xs)) @
     (if lg then le32 (of_nat (length xs)) else [])"

definition lz4_emit :: "'l codecs \<Rightarrow> 'b writer \<Rightarrow> 'b lz4_enc \<Rightarrow> bytes \<Rightarrow> 'b lz4_enc" where
  "lz4_emit L wrt e x =
     (let c = LZ4_compress_HC L x (LZ4_COMPRESSED L);
          b1 = snd (the (wrt (le_base e) (le32 (of_nat (length c)))));
          b2 = snd (the (wrt b1 c)) in
      e\<lparr>le_in_total := le_in_total e + of_nat (length x), le_base := b2\<rparr>)"

lemma LZ4_UNCOMPRESSED_pos [simp]: "0 < LZ4_UNCOMPRESSED"
  by (simp add: LZ4_UNCOMPRESSED_def)

lemma LZ4_enc_chunk_mono: "mono_wc (LZ4_enc_chunk L wrt)"
  unfolding mono_wc_def LZ4_enc_chunk_def by (auto simp: bind_eq_Some_conv dest: rd_append)

context sink
begin

lemma LZ4_enc_chunker:
  assumes "lz4_ok L"
  shows "chunker (LZ4_enc_chunk L wrt) (\<lambda>_. lz4_emit L wrt) (\<lambda>e. good (le_base e)) LZ4_UNCOMPRESSED"
proof
  fix s :: "'s lz4_enc chunk_strm" and buf xtra :: bytes and fin
  assume g: "good (le_base (cs_sub s))" and buf: "buf \<noteq> []" "length buf \<le> LZ4_UNCOMPRESSED"
  let ?c = "LZ4_compress_HC L buf (LZ4_COMPRESSED L)"
  obtain b1 where b1: "wrt (le_base (cs_sub s)) (le32 (of_nat (length ?c))) = Some (True, b1)" "good b1"
    using wrt_appends [OF g] by blast
  obtain b2 where b2: "wrt b1 ?c = Some (True, b2)" "good b2"
    using wrt_appends [OF b1(2)] by blast
  show "LZ4_enc_chunk L wrt s (buf @ xtra) (length buf) fin =
      Some (True, s\<lparr>cs_sub := lz4_emit L wrt (cs_sub s) buf\<rparr>) \<and> good (le_base (lz4_emit L wrt (cs_sub s) buf))"
    using b1 b2 lz4_okD(1) [OF assms buf]
    by (simp add: LZ4_enc_chunk_def lz4_emit_def rd_def slice_def Let_def)
qed (simp_all add: LZ4_enc_chunk_mono)

lemma lz4_emits:
  assumes "good (le_base e)"
  shows "good (le_base (foldl (lz4_emit L wrt) e cs)) \<and>
    out (le_base (foldl (lz4_emit L wrt) e cs)) = out (le_base e) @ concat (map (lz4_block L) cs) \<and>
    le_lg (foldl (lz4_emit L wrt) e cs) = le_lg e \<and>
    le_in_total (foldl (lz4_emit L wrt) e cs) = le_in_total e + of_nat (length (concat cs))"
  using assms
proof (induction cs arbitrary: e)
  case (Cons c cs)
  let ?c = "LZ4_compress_HC L c (LZ4_COMPRESSED L)"
  obtain b1 where b1: "wrt (le_base e) (le32 (of_nat (length ?c))) = Some (True, b1)" "good b1"
      "out b1 = out (le_base e) @ le32 (of_nat (length ?c))"
    using wrt_appends [OF Cons.prems] by blast
  obtain b2 where b2: "wrt b1 ?c = Some (True, b2)" "good b2" "out b2 = out b1 @ ?c"
    using wrt_appends [OF b1(2)] by blast
  have e: "lz4_emit L wrt e c = e\<lparr>le_in_total := le_in_total e + of_nat (length c), le_base := b2\<rparr>"
    using b1 b2 by (simp add: lz4_emit_def Let_def)
  from Cons.IH [of "lz4_emit L wrt e c"] b1 b2 show ?case
    by (simp add: e lz4_block_def Let_def add.assoc)
qed simp

lemma LZ4_encode:
  assumes "lz4_ok L" and "good b"
  shows "\<exists>s0 s1 b1. LZ4_encoder wrt lg b = Some s0 \<and>
    writes (chunk_write (LZ4_enc_chunk L wrt)) s0 ws = Some (True, s1) \<and>
    LZ4_enc_end L wrt s1 = Some b1 \<and> good b1 \<and> out b1 = out b @ lz4_image L lg (concat ws)"
proof -
  obtain b0 where b0: "wrt b [0x02, 0x21, 0x4c, 0x18] = Some (True, b0)" "good b0"
      "out b0 = out b @ [0x02, 0x21, 0x4c, 0x18]"
    using wrt_appends [OF assms(2)] by blast
  let ?e = "\<lparr>le_lg = lg, le_in_total = 0, le_base = b0\<rparr>"
  let ?f = "foldl (lz4_emit L wrt) ?e (all_chunks LZ4_UNCOMPRESSED (concat ws))"
  obtain s1 where s1: "writes (chunk_write (LZ4_enc_chunk L wrt)) (chunk_new LZ4_UNCOMPRESSED LZ4_UNCOMPRESSED ?e) ws = Some (True, s1)"
      "chunk_finalize (LZ4_enc_chunk L wrt) s1 = Some \<lparr>chunk_sz = LZ4_UNCOMPRESSED, cs_buf = [], cs_cap = LZ4_UNCOMPRESSED, cs_sub = ?f\<rparr>"
    using chunker.chunk_session [OF LZ4_enc_chunker [OF assms(1)], of ?e LZ4_UNCOMPRESSED ws] b0(2)
    by (auto simp: emit_all_no_flag)
  have f: "good (le_base ?f)" "out (le_base ?f) = out b0 @ concat (map (lz4_block L) (all_chunks LZ4_UNCOMPRESSED (concat ws)))"
      "le_lg ?f = lg" "le_in_total ?f = of_nat (length (concat ws))"
    using lz4_emits [of ?e L "all_chunks LZ4_UNCOMPRESSED (concat ws)"] b0(2)
    by (simp_all add: all_chunks_concat)
  obtain b1 where b1: "wrt (le_base ?f) (le32 (le_in_total ?f)) = Some (True, b1)" "good b1"
      "out b1 = out (le_base ?f) @ le32 (le_in_total ?f)"
    using wrt_appends [OF f(1)] by blast
  show ?thesis
    using b0 s1 f b1 by (cases lg) (auto simp: LZ4_encoder_def LZ4_enc_end_def lz4_image_def)
qed

end

section \<open>Legacy lz4: what the decoder makes of it\<close>

lemma LZ4_dec_chunk_mono: "mono_wc (LZ4_dec_chunk L wrt)"
  unfolding mono_wc_def LZ4_dec_chunk_def Let_def
  by (auto simp: bind_eq_Some_conv split: if_splits dest: rd_append rd_u32_append)

lemma le32_magic: "le32 LZ4_MAGIC = [0x02, 0x21, 0x4c, 0x18]"
  by (simp add: le32_list LZ4_MAGIC_def)

abbreviation dec_st :: "nat \<Rightarrow> nat \<Rightarrow> u32 \<Rightarrow> 'b \<Rightarrow> 'b lz4_dec chunk_strm" where
  "dec_st cap csz bsz b \<equiv>
     \<lparr>chunk_sz = csz, cs_buf = [], cs_cap = cap, cs_sub = \<lparr>ld_block_sz = bsz, ld_base = b\<rparr>\<rparr>"

lemma LZ4_dec_size:
  assumes "4 \<le> cap" and "w \<noteq> LZ4_MAGIC"
    and "chunk_run (LZ4_dec_chunk L wrt) (dec_st cap (unat w) w b) rest s'"
  shows "chunk_run (LZ4_dec_chunk L wrt) (dec_st cap 4 0 b) (le32 w @ rest) s'"
  by (rule chunk_run.full [where ?s1.0 = "dec_st cap (unat w) w b"])
    (use assms in \<open>simp_all add: LZ4_dec_chunk_def\<close>)

lemma LZ4_dec_magic:
  assumes "4 \<le> cap" and "chunk_run (LZ4_dec_chunk L wrt) (dec_st cap 4 0 b) rest s'"
  shows "chunk_run (LZ4_dec_chunk L wrt) (dec_st cap 4 0 b) (le32 LZ4_MAGIC @ rest) s'"
  by (rule chunk_run.full [where ?s1.0 = "dec_st cap 4 0 b"])
    (use assms in \<open>simp_all add: LZ4_dec_chunk_def\<close>)

context sink
begin

lemma LZ4_dec_block:
  assumes ok: "lz4_ok L" and x: "x \<noteq> []" "length x \<le> LZ4_UNCOMPRESSED"
    and wrt: "wrt b x = Some (True, b')"
    and rest: "chunk_run (LZ4_dec_chunk L wrt) (dec_st (LZ4_COMPRESSED L) 4 0 b') rest s'"
  shows "chunk_run (LZ4_dec_chunk L wrt) (dec_st (LZ4_COMPRESSED L) 4 0 b) (lz4_block L x @ rest) s'"
proof -
  let ?c = "LZ4_compress_HC L x (LZ4_COMPRESSED L)"
  let ?w = "of_nat (length ?c) :: u32"
  note c = lz4_okD [OF ok x]
  have u: "unat ?w = length ?c"
    using c(3) by (simp add: unat_of_nat take_bit_nat_eq_self)
  have "?w \<noteq> 0" using u c(1) by (metis length_0_conv unat_0)
  moreover have "?w \<noteq> LZ4_MAGIC" using u c(3) by (auto simp: LZ4_MAGIC_def)
  moreover have "chunk_run (LZ4_dec_chunk L wrt) (dec_st (LZ4_COMPRESSED L) (unat ?w) ?w b) (?c @ rest) s'"
    by (rule chunk_run.full [where ?s1.0 = "dec_st (LZ4_COMPRESSED L) 4 0 b'"])
      (use c u wrt rest \<open>?w \<noteq> 0\<close> in \<open>simp_all add: LZ4_dec_chunk_def rd_def slice_def Let_def\<close>)
  ultimately show ?thesis
    using ok by (simp add: lz4_block_def Let_def LZ4_dec_size lz4_ok_def)
qed

lemma LZ4_dec_blocks:
  assumes ok: "lz4_ok L" and "good b" and "\<And>c. c \<in> set cs \<Longrightarrow> c \<noteq> [] \<and> length c \<le> LZ4_UNCOMPRESSED"
    and tail: "\<And>b'. good b' \<Longrightarrow> out b' = out b @ concat cs \<Longrightarrow>
      \<exists>s'. chunk_run (LZ4_dec_chunk L wrt) (dec_st (LZ4_COMPRESSED L) 4 0 b') tailb s' \<and>
        cs_buf s' = [] \<and> ld_base (cs_sub s') = b'"
  shows "\<exists>s'. chunk_run (LZ4_dec_chunk L wrt) (dec_st (LZ4_COMPRESSED L) 4 0 b)
      (concat (map (lz4_block L) cs) @ tailb) s' \<and> cs_buf s' = [] \<and>
    good (ld_base (cs_sub s')) \<and> out (ld_base (cs_sub s')) = out b @ concat cs"
  using assms(2-)
proof (induction cs arbitrary: b)
  case Nil
  then show ?case by fastforce
next
  case (Cons c cs)
  obtain b1 where b1: "wrt b c = Some (True, b1)" "good b1" "out b1 = out b @ c"
    using wrt_appends [OF Cons.prems(1)] by blast
  from Cons.IH [OF b1(2)] Cons.prems(2,3) b1(3) obtain s' where s':
    "chunk_run (LZ4_dec_chunk L wrt) (dec_st (LZ4_COMPRESSED L) 4 0 b1) (concat (map (lz4_block L) cs) @ tailb) s'"
    "cs_buf s' = []" "good (ld_base (cs_sub s'))" "out (ld_base (cs_sub s')) = out b1 @ concat cs"
    by auto
  with LZ4_dec_block [OF ok _ _ b1(1) s'(1)] Cons.prems(2) b1 show ?case by auto
qed

lemma LZ4_dec_tail:
  assumes "4 \<le> cap"
  shows "\<exists>s'. chunk_run (LZ4_dec_chunk L wrt) (dec_st cap 4 0 b') (if lg then le32 w else []) s' \<and>
    cs_buf s' = [] \<and> ld_base (cs_sub s') = b'"
proof (cases "lg \<and> w \<noteq> LZ4_MAGIC")
  case True
  with LZ4_dec_size [OF assms _ chunk_run.idle, of w L wrt b'] show ?thesis by fastforce
next
  case False
  then show ?thesis
    using chunk_run.idle [of "LZ4_dec_chunk L wrt" "dec_st cap 4 0 b'"]
      LZ4_dec_magic [OF assms chunk_run.idle, of L wrt b'] by (cases lg) fastforce+
qed

lemma LZ4_decode:
  assumes "lz4_ok L" and "good b" and "concat ps = lz4_image L lg xs"
  shows "\<exists>s1 b1. writes (chunk_write (LZ4_dec_chunk L wrt)) (LZ4_decoder L b) ps = Some (True, s1) \<and>
    LZ4_dec_end L wrt s1 = Some b1 \<and> good b1 \<and> out b1 = out b @ xs"
proof -
  let ?tailb = "if lg then le32 (of_nat (length xs)) else []"
  have cap: "4 \<le> LZ4_COMPRESSED L" using assms(1) by (simp add: lz4_ok_def)
  obtain s1 where s1: "chunk_run (LZ4_dec_chunk L wrt) (dec_st (LZ4_COMPRESSED L) 4 0 b)
      (concat (map (lz4_block L) (all_chunks LZ4_UNCOMPRESSED xs)) @ ?tailb) s1" "cs_buf s1 = []"
      "good (ld_base (cs_sub s1))" "out (ld_base (cs_sub s1)) = out b @ xs"
    using LZ4_dec_blocks [OF assms(1,2), of "all_chunks LZ4_UNCOMPRESSED xs" ?tailb,
        OF all_chunks_lengths [OF LZ4_UNCOMPRESSED_pos, where xs = xs] LZ4_dec_tail [OF cap]]
    unfolding all_chunks_concat [OF LZ4_UNCOMPRESSED_pos] by blast
  have "chunk_run (LZ4_dec_chunk L wrt) (LZ4_decoder L b) (concat ps) s1"
    using LZ4_dec_magic [OF cap s1(1)] assms(3) by (simp add: LZ4_decoder_def chunk_new_def lz4_image_def le32_magic)
  from chunk_run_writes [OF this LZ4_dec_chunk_mono] s1(2-) show ?thesis
    by (simp add: LZ4_dec_end_def chunk_finalize_def)
qed

end

section \<open>Whole lz4 files\<close>

lemma put_all_Lz4Enc:
  "put_all L wrt (Lz4Enc s) ps =
     map_option (\<lambda>(ok, s'). if ok then Done (Lz4Enc s') else Exit) (writes (chunk_write (LZ4_enc_chunk L wrt)) s ps)"
proof (induction ps arbitrary: s)
  case (Cons p ps)
  then show ?case by (cases "chunk_write (LZ4_enc_chunk L wrt) s p") (auto simp: strm_put_def)
qed simp

lemma put_all_Lz4Dec:
  "put_all L wrt (Lz4Dec s) ps =
     map_option (\<lambda>(ok, s'). if ok then Done (Lz4Dec s') else Exit) (writes (chunk_write (LZ4_dec_chunk L wrt)) s ps)"
proof (induction ps arbitrary: s)
  case (Cons p ps)
  then show ?case by (cases "chunk_write (LZ4_dec_chunk L wrt) s p") (auto simp: strm_put_def)
qed simp

lemma check_fmt_lz4:
  assumes "take 4 r = [0x02, 0x21, 0x4c, 0x18]"
  shows "check_fmt r 0 (length r) = Some LZ4_LEGACY"
proof -
  have "announces LZ4_LEGACY r"
    using assms by (simp add: announces_def starts_def LZ4_LEG_MAGIC_def numeral_eq_Suc)
  then have "find (\<lambda>f. announces f r) detect_order = Some LZ4_LEGACY"
    by (simp add: find_announces)
  then show ?thesis by (simp add: check_fmt_in slice_def)
qed

lemma strrchr_dot_lz4: "strrchr_dot (s @ ''.lz4'') = Some (s, ''.lz4'')"
  by (simp add: strrchr_dot_def)

lemma lz4_names:
  "m \<in> {''lz4_legacy'', ''lz4_lg''} \<Longrightarrow>
     name2fmt m = (if m = ''lz4_lg'' then LZ4_LG else LZ4_LEGACY) \<and> fmt2ext (name2fmt m) = ''.lz4''"
  by (auto simp: name2fmt_def)

lemma image_first_piece:
  assumes "concat (p # ps) = lz4_image L lg xs" and "4 \<le> length p"
  shows "take 4 p = [0x02, 0x21, 0x4c, 0x18]"
proof -
  have "take 4 p = take 4 (concat (p # ps))" using assms(2) by simp
  then show ?thesis unfolding assms(1) by (simp add: lz4_image_def)
qed

context sink
begin

lemma compress_lz4:
  assumes "lz4_ok L" and "m \<in> {''lz4_legacy'', ''lz4_lg''}" and "infile \<noteq> ''-''"
    and "good (op (infile @ ''.lz4''))"
  shows "\<exists>b. compress_file L wrt op m infile None ws =
      Some (Done \<lparr>zr_out = Some (infile @ ''.lz4'', b), zr_unlink = Some infile\<rparr>) \<and>
    out b = out (op (infile @ ''.lz4'')) @ lz4_image L (m = ''lz4_lg'') (concat ws)"
proof -
  obtain s0 s1 b where e: "LZ4_encoder wrt (m = ''lz4_lg'') (op (infile @ ''.lz4'')) = Some s0"
      "writes (chunk_write (LZ4_enc_chunk L wrt)) s0 ws = Some (True, s1)" "LZ4_enc_end L wrt s1 = Some b"
      "out b = out (op (infile @ ''.lz4'')) @ lz4_image L (m = ''lz4_lg'') (concat ws)"
    using LZ4_encode [OF assms(1,4)] by blast
  have "get_encoder L wrt (name2fmt m) (op (infile @ ''.lz4'')) = Some (Lz4Enc s0)"
    using lz4_names [OF assms(2)] e(1) by (cases "m = ''lz4_lg''") (simp_all add: get_encoder_def)
  with e lz4_names [OF assms(2)] assms(3) show ?thesis
    by (auto simp: compress_file_def put_all_Lz4Enc strm_end_def split: if_splits)
qed

lemma decompress_lz4:
  assumes "lz4_ok L" and "good (op infile)" and "concat (p # ps) = lz4_image L lg xs" and "4 \<le> length p"
    and "infile @ ''.lz4'' \<noteq> ''-''"
  shows "\<exists>b. decompress_file L wrt op (infile @ ''.lz4'') None (p # ps) =
      Some (Done \<lparr>zr_out = Some (infile, b), zr_unlink = Some (infile @ ''.lz4'')\<rparr>) \<and>
    out b = out (op infile) @ xs"
proof -
  obtain s1 b where d: "writes (chunk_write (LZ4_dec_chunk L wrt)) (LZ4_decoder L (op infile)) (p # ps) = Some (True, s1)"
      "LZ4_dec_end L wrt s1 = Some b" "out b = out (op infile) @ xs"
    using LZ4_decode [OF assms(1-3)] by blast
  have t: "decompress_target LZ4_LEGACY (infile @ ''.lz4'') None = Done (infile, True)"
    using assms(5) by (simp add: decompress_target_def strrchr_dot_lz4)
  have "put_all L wrt (get_decoder L LZ4_LEGACY (op infile)) (p # ps) = Some (Done (Lz4Dec s1))"
    using d(1) by (simp only: get_decoder_def format_t.case put_all_Lz4Dec) simp
  with d(2,3) t check_fmt_lz4 [OF image_first_piece [OF assms(3,4)]] show ?thesis
    by (simp add: decompress_file_def strm_end_def del: put_all.simps)
qed

end

section \<open>Legacy lz4: malformed input\<close>

lemma le32_not_Nil [simp]: "le32 w \<noteq> []"
  by (metis length_le32 list.size(3) zero_neq_numeral)

lemma LZ4_zero_size_loops:
  assumes "chunk_write wc s inp = Some r" and "wc = LZ4_dec_chunk L wrt"
  shows "\<not> (s = dec_st cap 0 0 b \<and> inp = le32 0 @ rest)"
proof (rule chunk_write.raw_induct [where P = "\<lambda>wc s inp r.
      wc = LZ4_dec_chunk L wrt \<longrightarrow> \<not> (s = dec_st cap 0 0 b \<and> inp = le32 0 @ rest)", rule_format], goal_cases)
  case (1 rec wc s inp r)
  show ?case
  proof
    assume a: "s = dec_st cap 0 0 b \<and> inp = le32 0 @ rest"
    then have s: "s = dec_st cap 0 0 b" and inp: "inp = le32 0 @ rest" by auto
    have "rec wc s inp = Some r"
      using 1(2) by (simp add: s inp 1(3) LZ4_dec_chunk_def LZ4_MAGIC_def)
    with 1(1,3) a show False by blast
  qed
qed (use assms in auto)

section \<open>zopfli: flushing all but the last byte\<close>

text \<open>What the stream relies on: a part appends to the output and touches only its last byte.\<close>

definition zopfli_ok :: "'l codecs \<Rightarrow> bool" where
  "zopfli_ok L \<longleftrightarrow> 0 < ZOPFLI_MASTER_BLOCK_SIZE L \<and>
     (\<forall>fin x bp y. snd (ZopfliDeflatePart L fin x bp [y]) \<noteq> []) \<and>
     (\<forall>fin x bp pre y. ZopfliDeflatePart L fin x bp (pre @ [y]) =
        apsnd (append pre) (ZopfliDeflatePart L fin x bp [y]))"

text \<open>The reference: all parts appended to one buffer that is never flushed.\<close>

definition zopfli_part :: "'l codecs \<Rightarrow> bool \<Rightarrow> u8 \<times> bytes \<Rightarrow> bytes \<Rightarrow> u8 \<times> bytes" where
  "zopfli_part L fin r x = ZopfliDeflatePart L fin x (fst r) (snd r)"

definition zopfli_image :: "'l codecs \<Rightarrow> bytes \<Rightarrow> bytes" where
  "zopfli_image L xs =
     snd (emit_all (ZOPFLI_MASTER_BLOCK_SIZE L) (zopfli_part L) (0, zopfli_header) xs) @
     append_le (foldl (crc32 L) (crc32 L 0 []) (all_chunks (ZOPFLI_MASTER_BLOCK_SIZE L) xs)) @
     append_le (ucast (of_nat (length xs) :: u32))"

definition zopfli_emit :: "'l codecs \<Rightarrow> 'b writer \<Rightarrow> bool \<Rightarrow> 'b zopfli_strm \<Rightarrow> bytes \<Rightarrow> 'b zopfli_strm" where
  "zopfli_emit L wrt fin z x =
     (let (bp, o') = ZopfliDeflatePart L fin x (zo_bp z) (zo_out z) in
      z\<lparr>zo_in_total := zo_in_total z + of_nat (length x), zo_crc := crc32 L (zo_crc z) x, zo_bp := bp,
        zo_out := [last o'], zo_base := snd (the (wrt (zo_base z) (butlast o')))\<rparr>)"

lemma zopfli_okD:
  assumes "zopfli_ok L" and "o' \<noteq> []"
  shows "snd (ZopfliDeflatePart L fin x bp o') \<noteq> []"
    and "ZopfliDeflatePart L fin x bp o' = apsnd (append (butlast o')) (ZopfliDeflatePart L fin x bp [last o'])"
proof -
  have o: "o' = butlast o' @ [last o']" using assms(2) by simp
  show *: "ZopfliDeflatePart L fin x bp o' = apsnd (append (butlast o')) (ZopfliDeflatePart L fin x bp [last o'])"
    using assms(1) by (subst o) (simp add: zopfli_ok_def)
  show "snd (ZopfliDeflatePart L fin x bp o') \<noteq> []"
    using assms(1) by (subst *) (simp add: zopfli_ok_def)
qed

lemma zopfli_write_chunk_mono: "mono_wc (zopfli_write_chunk L wrt)"
  unfolding mono_wc_def zopfli_write_chunk_def by (auto simp: bind_eq_Some_conv dest: rd_append)

context sink
begin

lemma zopfli_chunker:
  assumes "zopfli_ok L"
  shows "chunker (zopfli_write_chunk L wrt) (zopfli_emit L wrt)
    (\<lambda>z. good (zo_base z) \<and> zo_out z \<noteq> []) (ZOPFLI_MASTER_BLOCK_SIZE L)"
proof
  fix s :: "'s zopfli_strm chunk_strm" and buf xtra :: bytes and fin
  assume g: "good (zo_base (cs_sub s)) \<and> zo_out (cs_sub s) \<noteq> []"
  let ?z = "cs_sub s"
  obtain bp o' where p: "ZopfliDeflatePart L fin buf (zo_bp ?z) (zo_out ?z) = (bp, o')" by fastforce
  with zopfli_okD(1) [OF assms, of "zo_out ?z" fin buf "zo_bp ?z"] g have "o' \<noteq> []" by simp
  obtain b where b: "wrt (zo_base ?z) (butlast o') = Some (True, b)" "good b"
    using wrt_appends g by blast
  show "zopfli_write_chunk L wrt s (buf @ xtra) (length buf) fin =
      Some (True, s\<lparr>cs_sub := zopfli_emit L wrt fin (cs_sub s) buf\<rparr>) \<and>
    good (zo_base (zopfli_emit L wrt fin (cs_sub s) buf)) \<and> zo_out (zopfli_emit L wrt fin (cs_sub s) buf) \<noteq> []"
    using p b \<open>o' \<noteq> []\<close> by (simp add: zopfli_write_chunk_def zopfli_emit_def rd_def slice_def Let_def)
qed (use assms in \<open>simp_all add: zopfli_write_chunk_mono zopfli_ok_def\<close>)

text \<open>The simulation: written out plus kept back is the unflushed buffer.\<close>

definition zsim :: "bytes \<Rightarrow> 's zopfli_strm \<Rightarrow> u8 \<times> bytes \<Rightarrow> bool" where
  "zsim pre z r \<longleftrightarrow> good (zo_base z) \<and> zo_out z \<noteq> [] \<and> snd r \<noteq> [] \<and>
     out (zo_base z) @ zo_out z = pre @ snd r \<and> zo_bp z = fst r"

lemma zsim_step:
  assumes ok: "zopfli_ok L" and sim: "zsim pre z r"
  shows "zsim pre (zopfli_emit L wrt fin z x) (zopfli_part L fin r x)"
proof -
  from sim have ne: "zo_out z \<noteq> []" "snd r \<noteq> []" and g: "good (zo_base z)"
    and eq: "out (zo_base z) @ zo_out z = pre @ snd r" and bp: "zo_bp z = fst r"
    by (auto simp: zsim_def)
  have l: "last (zo_out z) = last (snd r)" using eq ne by (metis last_appendR)
  have bl: "out (zo_base z) @ butlast (zo_out z) = pre @ butlast (snd r)"
    using arg_cong [OF eq, of butlast] ne by (simp add: butlast_append)
  obtain bp' o' where p: "ZopfliDeflatePart L fin x (fst r) [last (snd r)] = (bp', o')" by fastforce
  have o': "o' \<noteq> []" using ok p unfolding zopfli_ok_def by (metis snd_conv)
  obtain b where b: "wrt (zo_base z) (butlast (butlast (zo_out z) @ o')) = Some (True, b)" "good b"
      "out b = out (zo_base z) @ butlast (butlast (zo_out z) @ o')"
    using wrt_appends [OF g] by blast
  have "zopfli_emit L wrt fin z x =
      z\<lparr>zo_in_total := zo_in_total z + of_nat (length x), zo_crc := crc32 L (zo_crc z) x, zo_bp := bp',
        zo_out := [last o'], zo_base := b\<rparr>"
    using zopfli_okD(2) [OF ok ne(1)] p l b(1) o' bp by (simp add: zopfli_emit_def)
  moreover have "zopfli_part L fin r x = (bp', butlast (snd r) @ o')"
    using zopfli_okD(2) [OF ok ne(2)] p by (simp add: zopfli_part_def)
  moreover have "out b @ [last o'] = (out (zo_base z) @ butlast (zo_out z)) @ o'"
    using b(3) o' by (simp add: butlast_append)
  ultimately show ?thesis using b(2) o' bl by (simp add: zsim_def)
qed

lemma zsim_foldl:
  "zopfli_ok L \<Longrightarrow> zsim pre z r \<Longrightarrow>
    zsim pre (foldl (zopfli_emit L wrt fin) z xs) (foldl (zopfli_part L fin) r xs)"
  by (induction xs arbitrary: z r) (simp_all add: zsim_step)

lemma zopfli_emit_sums:
  "zo_crc (zopfli_emit L wrt fin z x) = crc32 L (zo_crc z) x"
  "zo_in_total (zopfli_emit L wrt fin z x) = zo_in_total z + of_nat (length x)"
  by (simp_all add: zopfli_emit_def split: prod.split)

lemma zopfli_emits_sums:
  "zo_crc (foldl (zopfli_emit L wrt fin) z xs) = foldl (crc32 L) (zo_crc z) xs"
  "zo_in_total (foldl (zopfli_emit L wrt fin) z xs) = zo_in_total z + of_nat (length (concat xs))"
  by (induction xs arbitrary: z) (simp_all add: zopfli_emit_sums add.assoc)

lemma zopfli_encode:
  assumes ok: "zopfli_ok L" and "good b"
  shows "\<exists>s b'. writes (chunk_write (zopfli_write_chunk L wrt)) (zopfli_encoder L b) ws = Some (True, s) \<and>
    zopfli_end L wrt s = Some b' \<and> out b' = out b @ zopfli_image L (concat ws)"
proof -
  let ?n = "ZOPFLI_MASTER_BLOCK_SIZE L" and ?xs = "concat ws"
  let ?z = "\<lparr>zo_out = zopfli_header, zo_crc = crc32 L 0 [], zo_in_total = 0, zo_bp = 0, zo_base = b\<rparr>"
  let ?f = "emit_all ?n (zopfli_emit L wrt) ?z ?xs" and ?r = "emit_all ?n (zopfli_part L) (0, zopfli_header) ?xs"
  have n: "0 < ?n" using ok by (simp add: zopfli_ok_def)
  obtain s where s: "writes (chunk_write (zopfli_write_chunk L wrt)) (zopfli_encoder L b) ws = Some (True, s)"
      "chunk_finalize (zopfli_write_chunk L wrt) s = Some \<lparr>chunk_sz = ?n, cs_buf = [], cs_cap = ?n, cs_sub = ?f\<rparr>"
    using chunker.chunk_session [OF zopfli_chunker [OF ok], of ?z ?n ws] assms(2)
    by (auto simp: zopfli_encoder_def zopfli_header_def)
  have "zsim (out b) ?z (0, zopfli_header)" using assms(2) by (simp add: zsim_def zopfli_header_def)
  then have sim: "zsim (out b) ?f ?r"
    using zsim_foldl [OF ok, of "out b" ?z] zsim_step [OF ok] by (simp add: emit_all_def Let_def)
  have sums: "zo_crc ?f = foldl (crc32 L) (crc32 L 0 []) (all_chunks ?n ?xs)"
      "zo_in_total ?f = of_nat (length (concat (all_chunks ?n ?xs)))"
    by (simp_all add: emit_all_def all_chunks_def Let_def zopfli_emits_sums zopfli_emit_sums)
  obtain b' where "wrt (zo_base ?f) (zo_out ?f @ append_le (zo_crc ?f) @ append_le (ucast (zo_in_total ?f))) = Some (True, b')"
      "out b' = out (zo_base ?f) @ zo_out ?f @ append_le (zo_crc ?f) @ append_le (ucast (zo_in_total ?f))"
    using wrt_appends sim unfolding zsim_def by blast
  with s sim sums show ?thesis
    by (simp add: zopfli_end_def zopfli_image_def zsim_def all_chunks_concat [OF n])
qed

end

section \<open>gzip: members and what follows them\<close>

text \<open>\<open>gz_member L m p\<close>: from a reset state the library decodes \<open>m\<close> to \<open>p\<close> in one call and stops there.\<close>

definition gz_member :: "'l codecs \<Rightarrow> bytes \<times> bytes \<Rightarrow> bool" where
  "gz_member L mp \<longleftrightarrow>
     (\<exists>m p. mp = (0x1f # 0x8b # m, p) \<and>
       (\<forall>rest. \<exists>l. inflate L (inflateInit L) ((0x1f # 0x8b # m) @ rest) CHUNK False =
           (Z_STREAM_END, length m + 2, p, l) \<and> inflateReset L l = inflateInit L))"

lemma Z_codes [simp]: "Z_STREAM_END \<noteq> Z_STREAM_ERROR"
  by (simp add: Z_STREAM_END_def Z_STREAM_ERROR_def)

text \<open>What the stream does after the end of a member with state \<open>l\<close> and the input \<open>rest\<close> left.\<close>

definition gz_after :: "'l codecs \<Rightarrow> 'b writer \<Rightarrow> 'l \<Rightarrow> 'b \<Rightarrow> bytes \<Rightarrow> (bool \<times> ('l, 'b) gz_strm) option" where
  "gz_after L bw l b rest =
     (if rest = [] then Some (True, \<lparr>gz_mode = GZ_DECODE, gz_lib = l, gz_base = b\<rparr>)
      else if take 2 rest = [0x1f, 0x8b] then gz_loop L bw False (gz_decoder L b) rest
      else if rest = [0x1f] then Some (True, \<lparr>gz_mode = GZ_WAIT, gz_lib = l, gz_base = b\<rparr>)
      else Some (True, \<lparr>gz_mode = GZ_COPY, gz_lib = l, gz_base = b\<rparr>))"

lemma gz_write_decoder:
  "buf \<noteq> [] \<Longrightarrow> gz_write L bw (gz_decoder L b) buf = gz_loop L bw False (gz_decoder L b) buf"
  by (simp add: gz_write_def gz_do_write_def gz_decoder_def)

context sink
begin

lemma gz_loop_member:
  assumes "gz_member L (m, p)" and "good b"
  shows "\<exists>l b'. good b' \<and> out b' = out b @ p \<and>
    gz_loop L wrt False (gz_decoder L b) (m @ rest) = gz_after L wrt l b' rest"
proof -
  obtain m' where m: "m = 0x1f # 0x8b # m'"
      and i: "\<And>rest. \<exists>l. inflate L (inflateInit L) (m @ rest) CHUNK False =
        (Z_STREAM_END, length m' + 2, p, l) \<and> inflateReset L l = inflateInit L"
    using assms(1) by (auto simp: gz_member_def)
  obtain l where l: "inflate L (inflateInit L) (m @ rest) CHUNK False = (Z_STREAM_END, length m' + 2, p, l)"
      "inflateReset L l = inflateInit L"
    using i by blast
  obtain b' where b': "wrt b p = Some (True, b')" "good b'" "out b' = out b @ p"
    using wrt_appends [OF assms(2)] by blast
  have d: "drop (length m' + 2) (m @ rest) = rest" by (simp add: m)
  have "gz_loop L wrt False (gz_decoder L b) (m @ rest) = gz_after L wrt l b' rest"
    using l b'(1) d
    by (subst gz_loop.simps, cases rest; cases "tl rest")
      (auto simp: gz_decoder_def gz_after_def Let_def)
  with b' show ?thesis by blast
qed

lemma gz_members:
  assumes "ms \<noteq> []" and "\<forall>mp \<in> set ms. gz_member L mp" and "good b"
  shows "\<exists>s'. gz_loop L wrt False (gz_decoder L b) (concat (map fst ms)) = Some (True, s') \<and>
    good (gz_base s') \<and> out (gz_base s') = out b @ concat (map snd ms)"
  using assms
proof (induction ms arbitrary: b)
  case (Cons mp ms)
  obtain m p where mp: "mp = (m, p)" "gz_member L (m, p)" using Cons.prems(2) by (cases mp) auto
  obtain l b' where l: "good b'" "out b' = out b @ p"
    "gz_loop L wrt False (gz_decoder L b) (m @ concat (map fst ms)) = gz_after L wrt l b' (concat (map fst ms))"
    using gz_loop_member [OF mp(2) Cons.prems(3), of "concat (map fst ms)"] by blast
  show ?case
  proof (cases "ms = []")
    case True
    with l mp show ?thesis by (simp add: gz_after_def)
  next
    case False
    then obtain m2 xs where "concat (map fst ms) = 0x1f # 0x8b # xs"
      using Cons.prems(2) by (cases ms) (auto simp: gz_member_def)
    then have "gz_after L wrt l b' (concat (map fst ms)) = gz_loop L wrt False (gz_decoder L b') (concat (map fst ms))"
      by (simp add: gz_after_def)
    with Cons.IH [OF False _ l(1)] Cons.prems(2) l(2,3) mp show ?thesis by auto
  qed
qed simp

lemma gz_copy_ignores: "gz_mode s = GZ_COPY \<Longrightarrow> writes (gz_write L wrt) s ps = Some (True, s)"
proof (induction ps)
  case (Cons p ps)
  then have "gz_write L wrt s p = Some (True, s)"
    by (simp add: gz_write_def gz_do_write_def gz_loop.simps)
  with Cons show ?case by simp
qed simp

lemma gz_trailing:
  assumes "gz_member L (m, p)" and "good b" and "1 < length junk" and "take 2 junk \<noteq> [0x1f, 0x8b]"
  shows "\<exists>s'. writes (gz_write L wrt) (gz_decoder L b) ((m @ junk) # ps) = Some (True, s') \<and>
    out (gz_base s') = out b @ p"
proof -
  have j: "junk \<noteq> []" "junk \<noteq> [0x1f]" using assms(3) by auto
  obtain l b' where l: "out b' = out b @ p"
      "gz_loop L wrt False (gz_decoder L b) (m @ junk) = gz_after L wrt l b' junk"
    using gz_loop_member [OF assms(1,2), of junk] by blast
  have "gz_write L wrt (gz_decoder L b) (m @ junk) =
      Some (True, \<lparr>gz_mode = GZ_COPY, gz_lib = l, gz_base = b'\<rparr>)"
    using l(2) j assms(4) gz_write_decoder [of "m @ junk" L wrt b] by (simp add: gz_after_def)
  with l(1) gz_copy_ignores [of "\<lparr>gz_mode = GZ_COPY, gz_lib = l, gz_base = b'\<rparr>"] show ?thesis by simp
qed

end

section \<open>Concrete codecs\<close>

text \<open>Codecs that store their input, to evaluate the streams on: a gzip member is its magic, a length
  byte and the data.\<close>

definition store_step :: "unit codec_step" where
  "store_step l inp room flush = (0, length inp, take room inp, l)"

definition stored :: "unit codecs" where
  "stored =
     \<lparr>inflateInit = (),
      inflate = (\<lambda>l inp room flush.
        if length inp < 3 then (0, length inp, [], l)
        else (Z_STREAM_END, 3 + unat (inp ! 2), take (unat (inp ! 2)) (drop 3 inp), l)),
      inflateReset = id, deflateInit = (), deflate = store_step,
      bzDecompressInit = (), bzDecompress = store_step, bzCompressInit = (), bzCompress = store_step,
      lzma_auto_decoder = (), lzma_stream_encoder = (), lzma_alone_encoder = (), lzma_code = store_step,
      LZ4F_newDecompression = (), LZ4F_getFrameInfo = (\<lambda>l inp. (0, Some 0, l)),
      LZ4F_decompress = (\<lambda>l room inp. (False, length inp, inp, l)),
      LZ4F_newCompression = (), LZ4F_compressBegin = (\<lambda>l. ([], l)),
      LZ4F_compressUpdate = (\<lambda>l inp. (Some inp, l)), LZ4F_compressEnd = (\<lambda>l. Some []),
      LZ4_compress_HC = (\<lambda>x cap. x), LZ4_decompress_safe = (\<lambda>x cap. Some x),
      LZ4_COMPRESSED = 8421520, ZOPFLI_MASTER_BLOCK_SIZE = 1000000,
      ZopfliDeflatePart = (\<lambda>fin x bp out. (bp, out @ x)), crc32 = (\<lambda>c x. c)\<rparr>"

lemma stored_lz4_ok: "lz4_ok stored"
  by (auto simp: lz4_ok_def stored_def LZ4_UNCOMPRESSED_def)

lemma stored_zopfli_ok: "zopfli_ok stored"
  by (simp add: zopfli_ok_def stored_def)

lemma stored_member: "length p < 256 \<Longrightarrow> gz_member stored (0x1f # 0x8b # of_nat (length p) # p, p)"
  by (simp add: gz_member_def stored_def unat_of_nat take_bit_nat_eq_self)

section \<open>Properties\<close>

text \<open>C7: compressing a file with the legacy lz4 methods and decompressing the result gives the file
  back, under its old name and with the intermediate file removed, however the kernel cuts the reads
  of either file and the writes to it; only the first read of the compressed file must hold the magic.\<close>

theorem lz4_file_roundtrip:
  assumes "lz4_ok L" and "m \<in> {''lz4_legacy'', ''lz4_lg''}" and "infile \<noteq> ''-''"
    and "\<And>path. kf_out (op path) = []"
  shows "\<exists>b. compress_file L (file_write k_write) op m infile None ws =
      Some (Done \<lparr>zr_out = Some (infile @ ''.lz4'', b), zr_unlink = Some infile\<rparr>) \<and>
    (\<forall>p ps. concat (p # ps) = kf_out b \<and> 4 \<le> length p \<longrightarrow>
      (\<exists>b'. decompress_file L (file_write k_write) op (infile @ ''.lz4'') None (p # ps) =
          Some (Done \<lparr>zr_out = Some (infile, b'), zr_unlink = Some (infile @ ''.lz4'')\<rparr>) \<and>
        kf_out b' = concat ws))"
proof -
  obtain b where b: "compress_file L (file_write k_write) op m infile None ws =
      Some (Done \<lparr>zr_out = Some (infile @ ''.lz4'', b), zr_unlink = Some infile\<rparr>)"
      "kf_out b = lz4_image L (m = ''lz4_lg'') (concat ws)"
    using kfd.fdsink.compress_lz4 [OF assms(1-3), of op ws] assms(4) by auto
  have ne: "infile @ ''.lz4'' \<noteq> ''-''" by (cases infile) auto
  show ?thesis
  proof (rule exI [of _ b], intro conjI allI impI)
    fix p ps
    assume p: "concat (p # ps) = kf_out b \<and> 4 \<le> length p"
    then show "\<exists>b'. decompress_file L (file_write k_write) op (infile @ ''.lz4'') None (p # ps) =
          Some (Done \<lparr>zr_out = Some (infile, b'), zr_unlink = Some (infile @ ''.lz4'')\<rparr>) \<and>
        kf_out b' = concat ws"
      using kfd.fdsink.decompress_lz4 [OF assms(1), where op = op and infile = infile and p = p and ps = ps
          and lg = "m = ''lz4_lg''" and xs = "concat ws"] b(2) assms(4) ne by simp
  qed (rule b(1))
qed

theorem lz4_file_roundtrip_witness:
  "\<exists>b. compress_file stored (file_write k_write) (\<lambda>_. \<lparr>kf_script = [KIntr, KXfer 1], kf_out = []\<rparr>)
      ''lz4_lg'' ''a'' None [[1, 2], [3]] =
    Some (Done \<lparr>zr_out = Some (''a.lz4'', b), zr_unlink = Some ''a''\<rparr>)"
  using lz4_file_roundtrip [OF stored_lz4_ok, of "''lz4_lg''" "''a''"
      "\<lambda>_. \<lparr>kf_script = [KIntr, KXfer 1], kf_out = []\<rparr>" "[[1, 2], [3]]"] by auto



text \<open>C13: the zopfli stream, which flushes all but the last byte after each block, writes exactly the
  gzip header, the parts appended to one buffer, the checksum and the length.\<close>

theorem zopfli_stream_output:
  assumes "zopfli_ok L"
  shows "\<exists>s b'. writes (chunk_write (zopfli_write_chunk L (file_write k_write))) (zopfli_encoder L b) ws = Some (True, s) \<and>
    zopfli_end L (file_write k_write) s = Some b' \<and> kf_out b' = kf_out b @ zopfli_image L (concat ws)"
  using assms by (intro kfd.fdsink.zopfli_encode) simp_all

theorem zopfli_stream_output_witness:
  "\<exists>s b'. writes (chunk_write (zopfli_write_chunk stored (file_write k_write)))
      (zopfli_encoder stored \<lparr>kf_script = [KXfer 3], kf_out = []\<rparr>) [[7], [8]] = Some (True, s) \<and>
    zopfli_end stored (file_write k_write) s = Some b' \<and> kf_out b' = zopfli_image stored [7, 8]"
  using zopfli_stream_output [OF stored_zopfli_ok, of "\<lparr>kf_script = [KXfer 3], kf_out = []\<rparr>" "[[7], [8]]"] by simp

text \<open>When the input is a whole number of zopfli blocks (the empty input included) no block is ever
  declared final: the encoder writes what it would write with a library that never hears that the
  input is complete.\<close>

theorem zopfli_never_final:
  assumes "zopfli_ok L" and "ZOPFLI_MASTER_BLOCK_SIZE L dvd length (concat ws)"
    and "L' = L\<lparr>ZopfliDeflatePart := (\<lambda>fin. ZopfliDeflatePart L False)\<rparr>"
  shows "\<exists>s b1 s' b2.
    writes (chunk_write (zopfli_write_chunk L (file_write k_write))) (zopfli_encoder L b) ws = Some (True, s) \<and>
    zopfli_end L (file_write k_write) s = Some b1 \<and>
    writes (chunk_write (zopfli_write_chunk L' (file_write k_write))) (zopfli_encoder L' b) ws = Some (True, s') \<and>
    zopfli_end L' (file_write k_write) s' = Some b2 \<and> kf_out b1 = kf_out b2"
proof -
  have "left_over (ZOPFLI_MASTER_BLOCK_SIZE L) (concat ws) = []"
    using assms(2) by (simp add: left_over_def)
  moreover have "zopfli_part L' False = zopfli_part L False"
    by (intro ext) (simp add: zopfli_part_def assms(3))
  ultimately have "zopfli_image L (concat ws) = zopfli_image L' (concat ws)"
    by (simp add: zopfli_image_def emit_all_def assms(3))
  moreover have "zopfli_ok L'" using assms(1,3) by (simp add: zopfli_ok_def)
  ultimately show ?thesis
    using kfd.fdsink.zopfli_encode [OF assms(1), of b ws] kfd.fdsink.zopfli_encode [of L' b ws]
    by (metis TrueI)
qed

theorem zopfli_never_final_witness:
  "\<exists>s b1 s' b2.
    writes (chunk_write (zopfli_write_chunk stored (file_write k_write))) (zopfli_encoder stored \<lparr>kf_script = [], kf_out = []\<rparr>) [] = Some (True, s) \<and>
    zopfli_end stored (file_write k_write) s = Some b1 \<and>
    writes (chunk_write (zopfli_write_chunk (stored\<lparr>ZopfliDeflatePart := (\<lambda>fin. ZopfliDeflatePart stored False)\<rparr>) (file_write k_write)))
      (zopfli_encoder (stored\<lparr>ZopfliDeflatePart := (\<lambda>fin. ZopfliDeflatePart stored False)\<rparr>) \<lparr>kf_script = [], kf_out = []\<rparr>) [] = Some (True, s') \<and>
    zopfli_end (stored\<lparr>ZopfliDeflatePart := (\<lambda>fin. ZopfliDeflatePart stored False)\<rparr>) (file_write k_write) s' = Some b2 \<and>
    kf_out b1 = kf_out b2"
  by (rule zopfli_never_final [OF stored_zopfli_ok]) simp_all



text \<open>Bytes after the last gzip member are dropped, in the same write and in all later ones, and
  success is reported.\<close>

theorem gz_trailing_dropped:
  assumes "gz_member L (m, p)" and "1 < length junk" and "take 2 junk \<noteq> [0x1f, 0x8b]"
  shows "\<exists>s'. writes (gz_write L (file_write k_write)) (gz_decoder L b) ((m @ junk) # ps) = Some (True, s') \<and>
    kf_out (gz_base s') = kf_out b @ p"
  using kfd.fdsink.gz_trailing [OF assms(1) _ assms(2,3)] by simp

theorem gz_trailing_dropped_witness:
  "\<exists>s'. writes (gz_write stored (file_write k_write)) (gz_decoder stored \<lparr>kf_script = [], kf_out = []\<rparr>)
      [[0x1f, 0x8b, 1, 65, 9, 9], [8]] = Some (True, s') \<and> kf_out (gz_base s') = [65]"
  using gz_trailing_dropped [of stored "[0x1f, 0x8b, 1, 65]" "[65]" "[9, 9]" "\<lparr>kf_script = [], kf_out = []\<rparr>" "[[8]]"]
    stored_member [of "[65]"] by simp

end
