(* ===== verification/Boot_Image.thy ===== *)
theory Boot_Image
  imports Boot_Header Boot_Compress
begin

text \<open>
  Parsing and unpacking of boot images: \<open>boot_img\<close>, \<open>find_dtb_offset\<close>, \<open>check_fmt_lg\<close>, \<open>split_image_dtb\<close> and
  \<open>unpack\<close> of \<^verbatim>\<open>src/native/src/boot/bootimg.cpp\<close>. The image is the bytes of the mapping; a pointer into
  it is an offset from its start, and a read outside the mapping has no result. What is printed is
  not modelled. \<open>verify_boot_image\<close> is the signature check of the Rust side, an argument.
\<close>

section \<open>Structures read in place\<close>

definition le_at :: "bytes \<Rightarrow> nat \<Rightarrow> nat \<Rightarrow> nat option" where
  "le_at mem off n = map_option of_le (rd mem off n)"

definition be_at :: "bytes \<Rightarrow> nat \<Rightarrow> nat \<Rightarrow> nat option" where
  "be_at mem off n = map_option of_be (rd mem off n)"

text \<open>Sizes in bytes of the packed structures, and the offsets of the fields that are used.\<close>

definition mtk_hdr_sz :: nat where "mtk_hdr_sz = 4 + 4 + 32 + 472"
definition mtk_hdr_size_off :: nat where "mtk_hdr_size_off = 4"
definition dhtb_hdr_sz :: nat where "dhtb_hdr_sz = 8 + 40 + 4 + 460"
definition dhtb_hdr_checksum_off :: nat where "dhtb_hdr_checksum_off = 8"
definition dhtb_hdr_size_off :: nat where "dhtb_hdr_size_off = 8 + 40"
definition blob_hdr_sz :: nat where
  "blob_hdr_sz = 20 + 4 + 4 + 16 + 4 + 4 + 4 + 4 + 4 * 7 + 4 + 4 + 4 + 4"
definition blob_hdr_size_off :: nat where
  "blob_hdr_size_off = 20 + 4 + 4 + 16 + 4 + 4 + 4 + 4 + 4 * 7 + 4 + 4"
definition zimage_hdr_start_off :: nat where "zimage_hdr_start_off = 4 * 9 + 4"
definition zimage_hdr_end_off :: nat where "zimage_hdr_end_off = 4 * 9 + 4 + 4"
definition AvbFooter_sz :: nat where "AvbFooter_sz = 4 + 4 + 4 + 8 + 8 + 8 + 28"
definition AvbFooter_original_image_size_off :: nat where "AvbFooter_original_image_size_off = 4 + 4 + 4"
definition AvbFooter_vbmeta_offset_off :: nat where "AvbFooter_vbmeta_offset_off = 4 + 4 + 4 + 8"
definition AvbFooter_vbmeta_size_off :: nat where "AvbFooter_vbmeta_size_off = 4 + 4 + 4 + 8 + 8"
definition AvbVBMeta_flags_off :: nat where
  "AvbVBMeta_flags_off = 4 + 4 + 4 + 8 + 8 + 4 + 8 * 11"
definition fdt_header_sz :: nat where "fdt_header_sz = 4 * 10"

lemmas struct_defs = mtk_hdr_sz_def mtk_hdr_size_off_def dhtb_hdr_sz_def dhtb_hdr_checksum_off_def
  dhtb_hdr_size_off_def blob_hdr_sz_def blob_hdr_size_off_def zimage_hdr_start_off_def
  zimage_hdr_end_off_def AvbFooter_sz_def AvbFooter_original_image_size_off_def
  AvbFooter_vbmeta_offset_off_def AvbFooter_vbmeta_size_off_def AvbVBMeta_flags_off_def
  fdt_header_sz_def

record table_entry =
  te_size :: nat
  te_offset :: nat
  te_type :: nat
  te_name :: bytes
  te_board_id :: bytes

definition table_entry_sz :: nat where "table_entry_sz = 4 + 4 + 4 + 32 + 4 * 16"

definition rd_entry :: "bytes \<Rightarrow> nat \<Rightarrow> table_entry option" where
  "rd_entry mem off =
     map_option (\<lambda>r. \<lparr>te_size = of_le (slice 0 4 r), te_offset = of_le (slice 4 4 r),
         te_type = of_le (slice 8 4 r), te_name = slice 12 32 r, te_board_id = slice 44 64 r\<rparr>)
       (rd mem off table_entry_sz)"

fun rd_entries :: "bytes \<Rightarrow> nat \<Rightarrow> nat \<Rightarrow> table_entry list option" where
  "rd_entries mem off 0 = Some []"
| "rd_entries mem off (Suc n) =
     do { e \<leftarrow> rd_entry mem off;
          es \<leftarrow> rd_entries mem (off + table_entry_sz) n;
          Some (e # es) }"

definition vendor_ramdisk_type :: "nat \<Rightarrow> string" where
  "vendor_ramdisk_type ty =
     (if ty = 1 then ''platform'' else if ty = 2 then ''recovery'' else if ty = 3 then ''dlkm''
      else ''none'')"

section \<open>Device trees behind a kernel\<close>

text \<open>The checks on a candidate \<open>p\<close> that has \<open>room\<close> bytes up to the end: each one skips the rest when it
  fails, so nothing behind it is read.\<close>

definition fdt_ok :: "bytes \<Rightarrow> nat \<Rightarrow> nat \<Rightarrow> bool option" where
  "fdt_ok mem p room =
     do { totalsize \<leftarrow> be_at mem (p + 4) 4;
          if room < totalsize then Some False
          else
            do { off_dt_struct \<leftarrow> be_at mem (p + 8) 4;
                 if room < off_dt_struct then Some False
                 else do { tag \<leftarrow> be_at mem (p + off_dt_struct) 4; Some (tag = 1) } } }"

text \<open>\<open>find_dtb_offset\<close>: the search goes on behind the header of a rejected candidate. The offset is
  returned as an \<open>int\<close>.\<close>

function find_dtb_from :: "bytes \<Rightarrow> nat \<Rightarrow> nat \<Rightarrow> nat \<Rightarrow> nat option option" where
  "find_dtb_from mem buf sz cur =
     (if cur < sz then
        do { hay \<leftarrow> rd mem (buf + cur) (sz - cur);
             case memmem DTB_MAGIC hay of
               None \<Rightarrow> Some None
             | Some i \<Rightarrow>
                 do { ok \<leftarrow> fdt_ok mem (buf + cur + i) (sz - (cur + i));
                      if ok then Some (Some (cur + i))
                      else find_dtb_from mem buf sz (cur + i + fdt_header_sz) } }
      else Some None)"
  by pat_completeness auto

termination
  by (relation "measure (\<lambda>(mem, buf, sz, cur). sz - cur)") (auto simp: fdt_header_sz_def)

declare find_dtb_from.simps [simp del]

definition find_dtb_offset :: "bytes \<Rightarrow> nat \<Rightarrow> u32 \<Rightarrow> int option" where
  "find_dtb_offset mem buf sz =
     map_option (\<lambda>r. case r of None \<Rightarrow> - 1 | Some c \<Rightarrow> sint (of_nat c :: u32))
       (find_dtb_from mem buf (unat sz) 0)"

section \<open>LG's variant of legacy lz4\<close>

text \<open>\<open>check_fmt_lg\<close>: the offset is 32 bits wide and wraps around, so the walk over the blocks may go on
  for ever.\<close>

partial_function (option) lg_loop :: "bytes \<Rightarrow> nat \<Rightarrow> u32 \<Rightarrow> u32 \<Rightarrow> format_t option" where
  "lg_loop mem buf sz off =
     (if unat off + 4 \<le> unat sz then
        Option.bind (rd_u32 mem (buf + unat off)) (\<lambda>block_sz.
          if sz < off + 4 + block_sz then Some LZ4_LG
          else lg_loop mem buf sz (off + 4 + block_sz))
      else Some LZ4_LEGACY)"

definition check_fmt_lg :: "bytes \<Rightarrow> nat \<Rightarrow> u32 \<Rightarrow> format_t option" where
  "check_fmt_lg mem buf sz =
     do { fmt \<leftarrow> check_fmt mem buf (unat sz);
          if fmt = LZ4_LEGACY then lg_loop mem buf sz 4 else Some fmt }"

section \<open>The image\<close>

datatype boot_flag =
    MTK_KERNEL | MTK_RAMDISK | CHROMEOS_FLAG | DHTB_FLAG | SEANDROID_FLAG | LG_BUMP_FLAG
  | SHA256_FLAG | BLOB_FLAG | NOOKHD_FLAG | ACCLAIM_FLAG | AMONET_FLAG | AVB1_SIGNED_FLAG
  | AVB_FLAG | ZIMAGE_KERNEL

datatype blk =
    B_kernel | B_ramdisk | B_second | B_extra | B_recovery_dtbo | B_dtb | B_signature
  | B_vendor_ramdisk_table | B_bootconfig

fun blk_size :: "blk \<Rightarrow> fld" where
  "blk_size B_kernel = F_kernel_size"
| "blk_size B_ramdisk = F_ramdisk_size"
| "blk_size B_second = F_second_size"
| "blk_size B_extra = F_extra_size"
| "blk_size B_recovery_dtbo = F_recovery_dtbo_size"
| "blk_size B_dtb = F_dtb_size"
| "blk_size B_signature = F_signature_size"
| "blk_size B_vendor_ramdisk_table = F_vendor_ramdisk_table_size"
| "blk_size B_bootconfig = F_bootconfig_size"

text \<open>A \<open>byte_view\<close> is an offset and a length. \<open>bi_zinfo\<close> is \<open>z_info\<close>: the size of the zImage header and
  the tail. Pointers that start as \<open>nullptr\<close> start as \<open>None\<close>.\<close>

type_synonym view = "nat \<times> nat"

record boot_img =
  bi_map :: mmap_data
  bi_hdr :: "dyn_img_hdr option"
  bi_flags :: "boot_flag set"
  bi_k_fmt :: format_t
  bi_r_fmt :: format_t
  bi_e_fmt :: format_t
  bi_payload :: view
  bi_tail :: view
  bi_k_hdr :: "nat option"
  bi_r_hdr :: "nat option"
  bi_z_hdr :: "nat option"
  bi_zinfo :: "nat \<times> view"
  bi_avb_footer :: "nat option"
  bi_vbmeta :: "nat option"
  bi_ptr :: "blk \<Rightarrow> nat option"
  bi_kernel_dtb :: view

abbreviation bi_mem :: "boot_img \<Rightarrow> bytes" where
  "bi_mem b \<equiv> m_mem (bi_map b)"

definition boot_new :: "mmap_data \<Rightarrow> boot_img" where
  "boot_new m =
     \<lparr>bi_map = m, bi_hdr = None, bi_flags = {}, bi_k_fmt = UNKNOWN, bi_r_fmt = UNKNOWN, bi_e_fmt = UNKNOWN,
      bi_payload = (0, 0), bi_tail = (0, 0), bi_k_hdr = None, bi_r_hdr = None, bi_z_hdr = None,
      bi_zinfo = (0, 0, 0), bi_avb_footer = None, bi_vbmeta = None, bi_ptr = (\<lambda>_. None),
      bi_kernel_dtb = (0, 0)\<rparr>"

definition set_flag :: "boot_flag \<Rightarrow> boot_img \<Rightarrow> boot_img" where
  "set_flag f b = b\<lparr>bi_flags := insert f (bi_flags b)\<rparr>"

definition set_ptr :: "blk \<Rightarrow> nat \<Rightarrow> boot_img \<Rightarrow> boot_img" where
  "set_ptr k p b = b\<lparr>bi_ptr := (bi_ptr b)(k := Some p)\<rparr>"

section \<open>Choosing the header class\<close>

text \<open>\<open>field_at\<close> reads a field of the struct at an address.\<close>

definition field_at :: "layout \<Rightarrow> fld \<Rightarrow> bytes \<Rightarrow> nat \<Rightarrow> nat option" where
  "field_at l f mem addr =
     (case offsetof l f of Some (off, n) \<Rightarrow> le_at mem (addr + off) n | None \<Rightarrow> None)"

text \<open>The closure \<open>make_hdr\<close> of \<open>create_hdr\<close>.\<close>

definition make_hdr :: "bytes \<Rightarrow> nat \<Rightarrow> dyn_img_hdr option option" where
  "make_hdr mem p =
     do { ok \<leftarrow> buffer_match mem p BOOT_MAGIC;
          if \<not> ok then Some None
          else
            do { v \<leftarrow> field_at boot_img_hdr_v0 F_header_version mem p;
                 map_option Some
                   (dyn_new (if v = 1 then V1 else if v = 2 then V2 else if v = 3 then V3
                             else if v = 4 then V4 else V0) mem p) } }"

text \<open>\<open>CMD_MATCH\<close> against each of the NOOKHD loaders in turn.\<close>

fun any_match :: "bytes \<Rightarrow> nat \<Rightarrow> bytes list \<Rightarrow> bool option" where
  "any_match mem p [] = Some False"
| "any_match mem p (s # ss) = or_else (buffer_match mem p s) (any_match mem p ss)"

definition nookhd_magics :: "bytes list" where
  "nookhd_magics = [NOOKHD_RL_MAGIC, NOOKHD_GL_MAGIC, NOOKHD_GR_MAGIC, NOOKHD_EB_MAGIC, NOOKHD_ER_MAGIC]"

text \<open>The real header of an AMONET image, copied behind its micro loader into a zeroed buffer of the
  size of a page; the length of the copy is computed in 32 bits.\<close>

definition amonet_hdr :: "bytes \<Rightarrow> nat \<Rightarrow> bytes option" where
  "amonet_hdr mem addr =
     do { page \<leftarrow> field_at boot_img_hdr_v0 F_page_size mem (addr + AMONET_MICROLOADER_SZ);
          hdr \<leftarrow> rd mem (addr + AMONET_MICROLOADER_SZ) (unat (of_nat page - of_nat AMONET_MICROLOADER_SZ :: u32));
          Some (hdr @ replicate (page - length hdr) 0) }"

text \<open>The result is the base address and the header; the flags are set in the image.\<close>

definition create_hdr ::
    "boot_img \<Rightarrow> nat \<Rightarrow> format_t \<Rightarrow> (boot_img \<times> nat \<times> dyn_img_hdr option) option" where
  "create_hdr b addr type =
     (let mem = bi_mem b in
      if type = AOSP_VENDOR then
        do { v \<leftarrow> field_at boot_img_hdr_vnd_v3 F_header_version mem addr;
             h \<leftarrow> dyn_new (if v = 4 then VND_V4 else VND_V3) mem addr;
             Some (b, addr, Some h) }
      else
        do { page \<leftarrow> field_at boot_img_hdr_v0 F_page_size mem addr;
             if 0x02000000 \<le> page then
               do { h \<leftarrow> dyn_new PXA mem addr; Some (b, addr, Some h) }
             else
               do { loader \<leftarrow> buffer_contain mem addr AMONET_MICROLOADER_SZ AMONET_MICROLOADER_MAGIC;
                    amonet \<leftarrow> (if loader then buffer_match mem (addr + AMONET_MICROLOADER_SZ) BOOT_MAGIC
                               else Some False);
                    if amonet then
                      do { copy \<leftarrow> amonet_hdr mem addr;
                           h \<leftarrow> make_hdr copy 0;
                           Some (set_flag AMONET_FLAG b, addr, h) }
                    else
                      do { nook \<leftarrow> any_match mem (addr + str_off V0 F_cmdline) nookhd_magics;
                           if nook then
                             do { h \<leftarrow> make_hdr mem (addr + NOOKHD_PRE_HEADER_SZ);
                                  Some (set_flag NOOKHD_FLAG b, addr + NOOKHD_PRE_HEADER_SZ, h) }
                           else
                             do { acclaim \<leftarrow> buffer_match mem (addr + str_off V0 F_name) ACCLAIM_MAGIC;
                                  if acclaim then
                                    do { h \<leftarrow> make_hdr mem (addr + ACCLAIM_PRE_HEADER_SZ);
                                         Some (set_flag ACCLAIM_FLAG b, addr + ACCLAIM_PRE_HEADER_SZ, h) }
                                  else
                                    do { h \<leftarrow> make_hdr mem addr; Some (b, addr, h) } } } } })"

section \<open>Parsing\<close>

text \<open>\<open>get_block\<close> for each block in turn, up to the first one that leaves the mapping. An offset no object
  can have has no pointer.\<close>

fun get_blocks ::
    "dyn_img_hdr \<Rightarrow> nat \<Rightarrow> nat \<Rightarrow> blk list \<Rightarrow> u64 \<Rightarrow> boot_img \<Rightarrow> (bool \<times> u64 \<times> boot_img) option" where
  "get_blocks h base map_end [] off b = Some (True, off, b)"
| "get_blocks h base map_end (k # ks) off b =
     do { off' \<leftarrow> align_to (off + of_nat (hget (blk_size k) h)) (page_size h);
          if 2 ^ 63 \<le> unat off' then None
          else if map_end < base + unat off' then Some (False, off', set_ptr k (base + unat off) b)
          else get_blocks h base map_end ks off' (set_ptr k (base + unat off) b) }"

definition all_blks :: "blk list" where
  "all_blks = [B_kernel, B_ramdisk, B_second, B_extra, B_recovery_dtbo, B_dtb, B_signature,
     B_vendor_ramdisk_table, B_bootconfig]"

text \<open>Dropping the 512 bytes of an MTK header from a 32-bit size wraps around.\<close>

definition sub32 :: "nat \<Rightarrow> nat \<Rightarrow> nat" where
  "sub32 a b = unat (of_nat a - of_nat b :: u32)"

text \<open>The search for a compressed kernel inside a zImage: the first offset behind the zImage header at
  which a known format starts.\<close>

function find_piggy :: "bytes \<Rightarrow> nat \<Rightarrow> nat \<Rightarrow> nat \<Rightarrow> nat option option" where
  "find_piggy mem kern ks i =
     (if i < ks then
        do { fmt \<leftarrow> check_fmt_lg mem (kern + i) (of_nat (ks - i));
             if fmt \<noteq> UNKNOWN then Some (Some i) else find_piggy mem kern ks (Suc i) }
      else Some None)"
  by pat_completeness auto

termination
  by (relation "measure (\<lambda>(mem, kern, ks, i). ks - i)") auto

declare find_piggy.simps [simp del]

text \<open>The last of the sixteen words at the end of the zImage that lies in its last 255 bytes.\<close>

definition piggy_end :: "bytes \<Rightarrow> nat \<Rightarrow> u32 \<Rightarrow> u32 option" where
  "piggy_end mem kern zsz =
     (if kern + unat zsz < 64 then None
      else
        do { raw \<leftarrow> rd mem (kern + unat zsz - 64) 64;
             Some (case List.find (\<lambda>x. zsz - 0xFF < x \<and> x < zsz)
                     (rev (map (\<lambda>i. of_nat (of_le (slice (4 * i) 4 raw))) [0..<16])) of
                     Some x \<Rightarrow> x | None \<Rightarrow> zsz) })"

definition parse_zimage :: "boot_img \<Rightarrow> dyn_img_hdr \<Rightarrow> nat \<Rightarrow> (boot_img \<times> dyn_img_hdr) option" where
  "parse_zimage b h kern =
     (let mem = bi_mem b; ks = hget F_kernel_size h; b = b\<lparr>bi_z_hdr := Some kern\<rparr> in
      do { found \<leftarrow> find_piggy mem kern ks 0x28;
           case found of
             None \<Rightarrow> Some (b, h)
           | Some hdr_sz \<Rightarrow>
               do { start \<leftarrow> le_at mem (kern + zimage_hdr_start_off) 4;
                    endp \<leftarrow> le_at mem (kern + zimage_hdr_end_off) 4;
                    let zsz = (of_nat endp - of_nat start :: u32);
                    pe \<leftarrow> piggy_end mem kern zsz;
                    let b = b\<lparr>bi_zinfo := (hdr_sz, snd (bi_zinfo b))\<rparr>;
                    if pe = zsz then Some (b, h)
                    else
                      do { let h' = hset F_kernel_size (unat (pe - of_nat hdr_sz)) h;
                           fmt \<leftarrow> check_fmt_lg mem (kern + hdr_sz) (of_nat (hget F_kernel_size h'));
                           Some (set_ptr B_kernel (kern + hdr_sz)
                                   (set_flag ZIMAGE_KERNEL
                                     (b\<lparr>bi_zinfo := (hdr_sz, kern + unat pe, sub32 ks (unat pe)),
                                        bi_k_fmt := fmt\<rparr>)), h') } } })"

text \<open>The device tree behind the kernel is cut off.\<close>

definition parse_kernel_dtb :: "boot_img \<Rightarrow> dyn_img_hdr \<Rightarrow> nat \<Rightarrow> (boot_img \<times> dyn_img_hdr) option" where
  "parse_kernel_dtb b h kern =
     (let sz = hget F_kernel_size h in
      do { dtb_off \<leftarrow> find_dtb_offset (bi_mem b) kern (of_nat sz);
           Some (if 0 < dtb_off
                 then (b\<lparr>bi_kernel_dtb := (kern + nat dtb_off, sz - nat dtb_off)\<rparr>,
                       hset F_kernel_size (nat dtb_off) h)
                 else (b, h)) })"

text \<open>An MTK header in front of the kernel is skipped; the result has the kernel and its format.\<close>

definition parse_kernel_mtk :: "boot_img \<Rightarrow> dyn_img_hdr \<Rightarrow> nat \<Rightarrow> (boot_img \<times> dyn_img_hdr \<times> nat) option" where
  "parse_kernel_mtk b h kern =
     (let mem = bi_mem b in
      do { fmt \<leftarrow> check_fmt_lg mem kern (of_nat (hget F_kernel_size h));
           if fmt = MTK then
             do { let h' = hset F_kernel_size (sub32 (hget F_kernel_size h) mtk_hdr_sz) h;
                  fmt' \<leftarrow> check_fmt_lg mem (kern + mtk_hdr_sz) (of_nat (hget F_kernel_size h'));
                  Some (set_ptr B_kernel (kern + mtk_hdr_sz)
                          (set_flag MTK_KERNEL (b\<lparr>bi_k_hdr := Some kern, bi_k_fmt := fmt'\<rparr>)),
                        h', kern + mtk_hdr_sz) }
           else Some (b\<lparr>bi_k_fmt := fmt\<rparr>, h, kern) })"

definition parse_kernel :: "boot_img \<Rightarrow> dyn_img_hdr \<Rightarrow> (boot_img \<times> dyn_img_hdr) option" where
  "parse_kernel b h =
     (if hget F_kernel_size h = 0 then Some (b, h)
      else
        do { kern \<leftarrow> bi_ptr b B_kernel;
             (b, h) \<leftarrow> parse_kernel_dtb b h kern;
             (b, h, kern) \<leftarrow> parse_kernel_mtk b h kern;
             if bi_k_fmt b = ZIMAGE then parse_zimage b h kern else Some (b, h) })"

text \<open>The ramdisk, or the table of ramdisks of a vendor image, whose entries are only looked at.\<close>

fun check_entries :: "bytes \<Rightarrow> nat \<Rightarrow> table_entry list \<Rightarrow> unit option" where
  "check_entries mem ramdisk [] = Some ()"
| "check_entries mem ramdisk (e # es) =
     do { fmt \<leftarrow> check_fmt_lg mem (ramdisk + te_offset e) (of_nat (te_size e));
          check_entries mem ramdisk es }"

definition parse_ramdisk :: "boot_img \<Rightarrow> dyn_img_hdr \<Rightarrow> (boot_img \<times> dyn_img_hdr) run option" where
  "parse_ramdisk b h =
     (let mem = bi_mem b; sz = hget F_ramdisk_size h in
      if sz = 0 then Some (Done (b, h))
      else
        do { ramdisk \<leftarrow> bi_ptr b B_ramdisk;
             if hget F_vendor_ramdisk_table_size h \<noteq> 0 then
               (if hget F_vendor_ramdisk_table_entry_size h \<noteq> table_entry_sz then Some Exit
                else
                  do { tab \<leftarrow> bi_ptr b B_vendor_ramdisk_table;
                       es \<leftarrow> rd_entries mem tab (hget F_vendor_ramdisk_table_entry_num h);
                       _ \<leftarrow> check_entries mem ramdisk es;
                       Some (Done (b, h)) })
             else
               do { fmt \<leftarrow> check_fmt_lg mem ramdisk (of_nat sz);
                    if fmt = MTK then
                      do { let h' = hset F_ramdisk_size (sub32 sz mtk_hdr_sz) h;
                           fmt' \<leftarrow> check_fmt_lg mem (ramdisk + mtk_hdr_sz) (of_nat (hget F_ramdisk_size h'));
                           Some (Done (set_ptr B_ramdisk (ramdisk + mtk_hdr_sz)
                             (set_flag MTK_RAMDISK (b\<lparr>bi_r_hdr := Some ramdisk, bi_r_fmt := fmt'\<rparr>)), h')) }
                    else Some (Done (b\<lparr>bi_r_fmt := fmt\<rparr>, h)) } })"

definition parse_extra :: "boot_img \<Rightarrow> dyn_img_hdr \<Rightarrow> boot_img option" where
  "parse_extra b h =
     (if hget F_extra_size h = 0 then Some b
      else
        do { extra \<leftarrow> bi_ptr b B_extra;
             fmt \<leftarrow> check_fmt_lg (bi_mem b) extra (of_nat (hget F_extra_size h));
             Some (b\<lparr>bi_e_fmt := fmt\<rparr>) })"

text \<open>\<open>verify_boot_image\<close> sees the payload and the tail and an optional certificate.\<close>

type_synonym verifier = "bytes \<Rightarrow> bytes \<Rightarrow> string option \<Rightarrow> bool"

definition img_view :: "boot_img \<Rightarrow> view \<Rightarrow> bytes option" where
  "img_view b v = rd (bi_mem b) (fst v) (snd v)"

definition img_verify :: "verifier \<Rightarrow> boot_img \<Rightarrow> string option \<Rightarrow> bool option" where
  "img_verify vf b cert =
     do { p \<leftarrow> img_view b (bi_payload b); t \<leftarrow> img_view b (bi_tail b); Some (vf p t cert) }"

definition parse_tail :: "verifier \<Rightarrow> boot_img \<Rightarrow> nat \<Rightarrow> boot_img option" where
  "parse_tail vf b base =
     (let mem = bi_mem b; (tbuf, tsz) = bi_tail b in
      if tsz = 0 then Some b
      else
        do { sea \<leftarrow> (if 16 \<le> tsz then buffer_match mem tbuf SEANDROID_MAGIC else Some False);
             b \<leftarrow> (if sea then Some (set_flag SEANDROID_FLAG b)
                   else
                     do { lg \<leftarrow> (if 16 \<le> tsz then buffer_match mem tbuf LG_BUMP_MAGIC else Some False);
                          Some (if lg then set_flag LG_BUMP_FLAG b else b) });
             signed \<leftarrow> img_verify vf b None;
             let b = (if signed then set_flag AVB1_SIGNED_FLAG b else b);
             if tbuf + tsz < AvbFooter_sz then None
             else
               do { let footer = tbuf + tsz - AvbFooter_sz;
                    f \<leftarrow> buffer_match mem footer AVB_FOOTER_MAGIC;
                    if \<not> f then Some b
                    else
                      do { off \<leftarrow> be_at mem (footer + AvbFooter_vbmeta_offset_off) 8;
                           meta \<leftarrow> buffer_match mem (base + off) AVB_MAGIC;
                           let b = b\<lparr>bi_avb_footer := Some footer\<rparr>;
                           Some (if meta then set_flag AVB_FLAG (b\<lparr>bi_vbmeta := Some (base + off)\<rparr>) else b) } } })"

definition sha256_id :: "dyn_img_hdr \<Rightarrow> bool" where
  "sha256_id h \<longleftrightarrow>
     has_id (dh_class h) \<and> (\<exists>x \<in> set (slice (str_off (dh_class h) F_id + 24) 8 (dh_raw h)). x \<noteq> 0)"

text \<open>\<open>parse_image\<close> returns whether it succeeded and the image as it leaves it. \<open>page\<close> is \<open>getpagesize()\<close>.\<close>

definition parse_image :: "nat \<Rightarrow> verifier \<Rightarrow> boot_img \<Rightarrow> nat \<Rightarrow> format_t \<Rightarrow> (bool \<times> boot_img) run option" where
  "parse_image page vf b p type =
     do { (b, base, hdr) \<leftarrow> create_hdr b p type;
          case hdr of
            None \<Rightarrow> Some (Done (False, b))
          | Some h \<Rightarrow>
              do { let b = (if sha256_id h then set_flag SHA256_FLAG b else b);
                   let map_end = align_up (m_sz (bi_map b)) page;
                   off0 \<leftarrow> hdr_space h;
                   (ok, off, b) \<leftarrow> get_blocks h base map_end all_blks off0 b;
                   if \<not> ok then Some (Done (False, b))
                   else
                     do { let b = b\<lparr>bi_payload := (base, unat off),
                                    bi_tail := (base + unat off, map_end - (base + unat off))\<rparr>;
                          (b, h) \<leftarrow> parse_kernel b h;
                          r \<leftarrow> parse_ramdisk b h;
                          case r of
                            Exit \<Rightarrow> Some Exit
                          | Done (b, h) \<Rightarrow>
                              do { b \<leftarrow> parse_extra b h;
                                   b \<leftarrow> parse_tail vf b base;
                                   Some (Done (True, b\<lparr>bi_hdr := Some h\<rparr>)) } } } }"

text \<open>The constructor: \<open>check_fmt\<close> is told the size of the whole map at every address.\<close>

function boot_scan :: "nat \<Rightarrow> verifier \<Rightarrow> boot_img \<Rightarrow> nat \<Rightarrow> boot_img run option" where
  "boot_scan page vf b addr =
     (if m_sz (bi_map b) \<le> addr then Some Exit
      else
        (case check_fmt (bi_mem b) addr (m_sz (bi_map b)) of
           None \<Rightarrow> None
         | Some CHROMEOS \<Rightarrow> boot_scan page vf (set_flag CHROMEOS_FLAG b) (addr + 65536)
         | Some DHTB \<Rightarrow> boot_scan page vf (set_flag SEANDROID_FLAG (set_flag DHTB_FLAG b)) (addr + dhtb_hdr_sz)
         | Some BLOB \<Rightarrow> boot_scan page vf (set_flag BLOB_FLAG b) (addr + blob_hdr_sz)
         | Some fmt \<Rightarrow>
             if fmt = AOSP \<or> fmt = AOSP_VENDOR then
               (case parse_image page vf b addr fmt of
                  None \<Rightarrow> None
                | Some Exit \<Rightarrow> Some Exit
                | Some (Done (ok, b')) \<Rightarrow>
                    if ok then Some (Done b') else boot_scan page vf (b'\<lparr>bi_map := bi_map b\<rparr>) (addr + 1))
             else boot_scan page vf b (addr + 1)))"
  by pat_completeness auto

termination
  by (relation "measure (\<lambda>(page, vf, b, addr). m_sz (bi_map b) - addr)")
    (auto simp: set_flag_def dhtb_hdr_sz_def blob_hdr_sz_def)

declare boot_scan.simps [simp del]

definition boot_open :: "nat \<Rightarrow> verifier \<Rightarrow> bytes \<Rightarrow> boot_img run option" where
  "boot_open page vf img = boot_scan page vf (boot_new (mmap_file page img)) 0"

section \<open>Unpacking\<close>

definition HEADER_FILE :: string where "HEADER_FILE = ''header''"
definition KERNEL_FILE :: string where "KERNEL_FILE = ''kernel''"
definition RAMDISK_FILE :: string where "RAMDISK_FILE = ''ramdisk.cpio''"
definition VND_RAMDISK_DIR :: string where "VND_RAMDISK_DIR = ''vendor_ramdisk''"
definition SECOND_FILE :: string where "SECOND_FILE = ''second''"
definition EXTRA_FILE :: string where "EXTRA_FILE = ''extra''"
definition KER_DTB_FILE :: string where "KER_DTB_FILE = ''kernel_dtb''"
definition RECV_DTBO_FILE :: string where "RECV_DTBO_FILE = ''recovery_dtbo''"
definition DTB_FILE :: string where "DTB_FILE = ''dtb''"
definition BOOTCONFIG_FILE :: string where "BOOTCONFIG_FILE = ''bootconfig''"
definition NEW_BOOT :: string where "NEW_BOOT = ''new-boot.img''"

lemmas file_defs = HEADER_FILE_def KERNEL_FILE_def RAMDISK_FILE_def VND_RAMDISK_DIR_def SECOND_FILE_def
  EXTRA_FILE_def KER_DTB_FILE_def RECV_DTBO_FILE_def DTB_FILE_def BOOTCONFIG_FILE_def NEW_BOOT_def

text \<open>The working directory is a map from paths to contents. Writes to its regular files are complete:
  \<open>app_write\<close> is \<open>fd_stream\<close> on such a file, whose content is what was written so far.\<close>

type_synonym fs = "string \<rightharpoonup> bytes"

definition app_write :: "bytes writer" where
  "app_write s bs = Some (True, s @ bs)"

definition decompress_to :: "'l codecs \<Rightarrow> format_t \<Rightarrow> bytes \<Rightarrow> bytes option" where
  "decompress_to L type inp = map_option snd (through L app_write (get_decoder L type []) inp)"

text \<open>\<open>compress\<close> appends to the output and returns how much it wrote.\<close>

definition compress_to :: "'l codecs \<Rightarrow> format_t \<Rightarrow> bytes \<Rightarrow> bytes \<Rightarrow> (bytes \<times> nat) option" where
  "compress_to L type out inp =
     do { s \<leftarrow> get_encoder L app_write type out;
          (_, out') \<leftarrow> through L app_write s inp;
          Some (out', length out' - length out) }"

definition dump :: "bytes \<Rightarrow> nat \<Rightarrow> nat \<Rightarrow> string \<Rightarrow> fs \<Rightarrow> fs option" where
  "dump mem buf sz filename fs =
     (if sz = 0 then Some fs
      else do { d \<leftarrow> rd mem buf sz; Some (fs(filename \<mapsto> d)) })"

text \<open>A block that is decompressed on the way when its format allows it.\<close>

definition dump_block ::
    "'l codecs \<Rightarrow> bool \<Rightarrow> boot_img \<Rightarrow> dyn_img_hdr \<Rightarrow> blk \<Rightarrow> format_t \<Rightarrow> string \<Rightarrow> fs \<Rightarrow> fs option" where
  "dump_block L skip_decomp b h k fmt filename fs =
     do { p \<leftarrow> bi_ptr b k;
          let sz = hget (blk_size k) h;
          if \<not> skip_decomp \<and> COMPRESSED fmt then
            (if sz \<noteq> 0 then
               do { d \<leftarrow> rd (bi_mem b) p sz;
                    out \<leftarrow> decompress_to L fmt d;
                    Some (fs(filename \<mapsto> out)) }
             else Some fs)
          else dump (bi_mem b) p sz filename fs }"

definition split_image_dtb :: "'l codecs \<Rightarrow> nat \<Rightarrow> bytes \<Rightarrow> bool \<Rightarrow> fs \<Rightarrow> (int \<times> fs) option" where
  "split_image_dtb L page file skip_decomp fs =
     (let img = mmap_file page file in
      do { off \<leftarrow> find_dtb_offset (m_mem img) 0 (of_nat (m_sz img));
           if 0 < off then
             do { fmt \<leftarrow> check_fmt_lg (m_mem img) 0 (of_nat (m_sz img));
                  fs1 \<leftarrow> (if \<not> skip_decomp \<and> COMPRESSED fmt then
                           do { d \<leftarrow> rd (m_mem img) 0 (nat off);
                                out \<leftarrow> decompress_to L fmt d;
                                Some (fs(KERNEL_FILE \<mapsto> out)) }
                         else dump (m_mem img) 0 (nat off) KERNEL_FILE fs);
                  fs2 \<leftarrow> dump (m_mem img) (nat off) (m_sz img - nat off) KER_DTB_FILE fs1;
                  Some (0, fs2) }
           else Some (1, fs) })"

text \<open>The file of a vendor ramdisk; a name that is not terminated inside its array has no string.\<close>

definition entry_file :: "nat \<Rightarrow> table_entry \<Rightarrow> string option" where
  "entry_file sz e =
     (if te_name e \<noteq> [] \<and> hd (te_name e) = 0 then fst (strscpy RAMDISK_FILE sz)
      else if 0 \<in> set (te_name e) then fst (vssprintf sz (c_str (string_of (te_name e)) @ ''.cpio''))
      else None)"

fun unpack_entries ::
    "'l codecs \<Rightarrow> bool \<Rightarrow> bytes \<Rightarrow> nat \<Rightarrow> table_entry list \<Rightarrow> fs \<Rightarrow> fs option" where
  "unpack_entries L skip_decomp mem ramdisk [] fs = Some fs"
| "unpack_entries L skip_decomp mem ramdisk (e # es) fs =
     do { name \<leftarrow> entry_file 40 e;
          fmt \<leftarrow> check_fmt_lg mem (ramdisk + te_offset e) (of_nat (te_size e));
          d \<leftarrow> rd mem (ramdisk + te_offset e) (te_size e);
          out \<leftarrow> (if \<not> skip_decomp \<and> COMPRESSED fmt then decompress_to L fmt d else Some d);
          unpack_entries L skip_decomp mem ramdisk es (fs(VND_RAMDISK_DIR @ ''/'' @ name \<mapsto> out)) }"

definition unpack_ramdisk ::
    "'l codecs \<Rightarrow> bool \<Rightarrow> boot_img \<Rightarrow> dyn_img_hdr \<Rightarrow> fs \<Rightarrow> fs option" where
  "unpack_ramdisk L skip_decomp b h fs =
     (if hget F_vendor_ramdisk_table_size h \<noteq> 0 then
        do { ramdisk \<leftarrow> bi_ptr b B_ramdisk;
             tab \<leftarrow> bi_ptr b B_vendor_ramdisk_table;
             es \<leftarrow> rd_entries (bi_mem b) tab (hget F_vendor_ramdisk_table_entry_num h);
             unpack_entries L skip_decomp (bi_mem b) ramdisk es fs }
      else dump_block L skip_decomp b h B_ramdisk (bi_r_fmt b) RAMDISK_FILE fs)"

definition dump_raw :: "boot_img \<Rightarrow> dyn_img_hdr \<Rightarrow> blk \<Rightarrow> string \<Rightarrow> fs \<Rightarrow> fs option" where
  "dump_raw b h k filename fs =
     do { p \<leftarrow> bi_ptr b k; dump (bi_mem b) p (hget (blk_size k) h) filename fs }"

definition unpack_img :: "'l codecs \<Rightarrow> bool \<Rightarrow> bool \<Rightarrow> boot_img \<Rightarrow> dyn_img_hdr \<Rightarrow> fs \<Rightarrow> fs option" where
  "unpack_img L skip_decomp hdr b h fs0 =
     do { let fs = (if hdr then fs0(HEADER_FILE \<mapsto> bytes_of (dump_hdr_file h)) else fs0);
          fs \<leftarrow> dump_block L skip_decomp b h B_kernel (bi_k_fmt b) KERNEL_FILE fs;
          fs \<leftarrow> dump (bi_mem b) (fst (bi_kernel_dtb b)) (snd (bi_kernel_dtb b)) KER_DTB_FILE fs;
          fs \<leftarrow> unpack_ramdisk L skip_decomp b h fs;
          fs \<leftarrow> dump_raw b h B_second SECOND_FILE fs;
          fs \<leftarrow> dump_block L skip_decomp b h B_extra (bi_e_fmt b) EXTRA_FILE fs;
          fs \<leftarrow> dump_raw b h B_recovery_dtbo RECV_DTBO_FILE fs;
          fs \<leftarrow> dump_raw b h B_dtb DTB_FILE fs;
          dump_raw b h B_bootconfig BOOTCONFIG_FILE fs }"

definition unpack ::
    "'l codecs \<Rightarrow> nat \<Rightarrow> verifier \<Rightarrow> bytes \<Rightarrow> bool \<Rightarrow> bool \<Rightarrow> fs \<Rightarrow> (int \<times> fs) run option" where
  "unpack L page vf img skip_decomp hdr fs =
     do { r \<leftarrow> boot_open page vf img;
          case r of
            Exit \<Rightarrow> Some Exit
          | Done b \<Rightarrow>
              do { h \<leftarrow> bi_hdr b;
                   fs' \<leftarrow> unpack_img L skip_decomp hdr b h fs;
                   Some (Done (if CHROMEOS_FLAG \<in> bi_flags b then 2 else 0, fs')) } }"

section \<open>Where the blocks are\<close>

lemma exposed_u32:
  "f \<in> set (exposed c) \<Longrightarrow> f \<noteq> F_recovery_dtbo_offset \<Longrightarrow> \<exists>off. offsetof (layout c) f = Some (off, 4)"
  by (cases c) (auto simp: layout_defs)

lemma hget_u32:
  assumes "hdr_wf h" and "f \<noteq> F_recovery_dtbo_offset"
  shows "hget f h < 2 ^ 32"
proof (cases "f \<in> set (exposed (dh_class h))")
  case True
  then obtain off where o: "offsetof (layout (dh_class h)) f = Some (off, 4)"
    using exposed_u32 [OF True assms(2)] by blast
  have "hget f h < 256 ^ length (slice off 4 (dh_raw h))"
    using hget_offset [OF True o] of_le_bound [of "slice off 4 (dh_raw h)"] by simp
  also have "\<dots> \<le> 256 ^ 4" by (rule power_increasing) (simp_all add: length_slice)
  finally show ?thesis by simp
next
  case False
  then show ?thesis by (simp add: hget_def)
qed

lemma blk_size_u32: "hdr_wf h \<Longrightarrow> hget (blk_size k) h < 2 ^ 32"
  by (rule hget_u32) (cases k; simp)+

lemma align_step:
  assumes "align_to (off + of_nat n) pg = Some off'" and "unat pg < 2 ^ 31" and "unat off < 2 ^ 63" and "n < 2 ^ 32"
    and "unat off' < 2 ^ 63"
  shows "unat off' = align_up (unat off + n) (unat pg) \<and> 0 < unat pg"
proof -
  have pos: "0 < unat pg" using assms(1) by (auto simp: align_to_def unat_gt_0 split: if_splits)
  have s: "unat (off + of_nat n) = unat off + n"
    using assms(3,4) by (simp add: unat_word_ariths unat_of_nat)
  have "unat off + n + unat pg < 2 ^ 64" using assms(2-4) by simp
  then have a: "align_up (unat off + n) (unat pg) < 2 ^ 64"
    using align_up_less [OF pos, of "unat off + n"] by simp
  have "align_to (off + of_nat n) pg = Some (of_nat (align_up (unat off + n) (unat pg)))"
    using align_to_nat [OF pos assms(2), of "off + of_nat n"] s assms(2-4) by simp
  with assms(1) have "off' = of_nat (align_up (unat off + n) (unat pg))" by simp
  with a pos show ?thesis by (simp add: unat_of_nat)
qed

text \<open>What the pointers set by a successful walk satisfy: every block starts behind the previous one and
  ends before the next, and the whole stays inside the mapping.\<close>

lemma set_ptr_sel [simp]:
  "bi_ptr (set_ptr k p b) = (bi_ptr b)(k := Some p)" "bi_map (set_ptr k p b) = bi_map b"
  "bi_flags (set_ptr k p b) = bi_flags b" "bi_payload (set_ptr k p b) = bi_payload b"
  "bi_tail (set_ptr k p b) = bi_tail b" "bi_kernel_dtb (set_ptr k p b) = bi_kernel_dtb b"
  by (simp_all add: set_ptr_def)

lemma set_flag_sel [simp]:
  "bi_ptr (set_flag f b) = bi_ptr b" "bi_map (set_flag f b) = bi_map b"
  "bi_flags (set_flag f b) = insert f (bi_flags b)" "bi_payload (set_flag f b) = bi_payload b"
  "bi_tail (set_flag f b) = bi_tail b" "bi_kernel_dtb (set_flag f b) = bi_kernel_dtb b"
  by (simp_all add: set_flag_def)

lemma get_blocks_frame:
  "get_blocks h base me ks off b = Some (ok, off', b') \<Longrightarrow>
   bi_map b' = bi_map b \<and> bi_flags b' = bi_flags b \<and> bi_kernel_dtb b' = bi_kernel_dtb b \<and> (\<forall>k. k \<notin> set ks \<longrightarrow> bi_ptr b' k = bi_ptr b k)"
  by (induction ks arbitrary: off b) (fastforce split: if_splits bind_splits)+

lemma get_blocks_places:
  assumes "get_blocks h base me ks off b = Some (True, off', b')" and "hdr_wf h" and "unat (page_size h) < 2 ^ 31"
    and "unat off < 2 ^ 63" and "distinct ks"
  shows "unat off \<le> unat off' \<and> (ks \<noteq> [] \<longrightarrow> base + unat off' \<le> me \<and> unat (page_size h) dvd unat off') \<and>
    (\<forall>k \<in> set ks. \<exists>q. bi_ptr b' k = Some q \<and> base + unat off \<le> q \<and>
       q + hget (blk_size k) h \<le> base + unat off')"
  using assms
proof (induction ks arbitrary: off b)
  case (Cons k ks)
  let ?n = "hget (blk_size k) h"
  obtain o1 where o1: "align_to (off + of_nat ?n) (page_size h) = Some o1" "unat o1 < 2 ^ 63" "base + unat o1 \<le> me"
      "get_blocks h base me ks o1 (set_ptr k (base + unat off) b) = Some (True, off', b')"
    using Cons.prems(1) by (auto split: bind_splits if_splits)
  have a: "unat o1 = align_up (unat off + ?n) (unat (page_size h))" "0 < unat (page_size h)"
    using align_step [OF o1(1) Cons.prems(3,4) blk_size_u32 [OF Cons.prems(2)] o1(2)] by auto
  then have ge: "unat off + ?n \<le> unat o1" using align_up_ge by simp
  have d: "unat (page_size h) dvd unat o1" using a align_up_dvd by simp
  note IH = Cons.IH [OF o1(4) Cons.prems(2,3) o1(2)]
  have IH: "unat o1 \<le> unat off'" "ks \<noteq> [] \<Longrightarrow> base + unat off' \<le> me \<and> unat (page_size h) dvd unat off'"
      "\<And>j. j \<in> set ks \<Longrightarrow> \<exists>q. bi_ptr b' j = Some q \<and> base + unat o1 \<le> q \<and> q + hget (blk_size j) h \<le> base + unat off'"
    using IH Cons.prems(5) by auto
  have "bi_ptr b' k = Some (base + unat off)"
    using get_blocks_frame [OF o1(4)] Cons.prems(5) by auto
  moreover have "ks = [] \<Longrightarrow> off' = o1" using o1(4) by simp
  ultimately show ?case using IH ge o1(3) d by (cases "ks = []") (auto, fastforce+)
qed simp

text \<open>What each later step of \<open>parse_image\<close> leaves alone.\<close>

definition img_frame :: "boot_img \<Rightarrow> boot_img \<Rightarrow> bool" where
  "img_frame b b' \<longleftrightarrow> bi_map b' = bi_map b \<and> bi_flags b \<subseteq> bi_flags b' \<and> bi_payload b' = bi_payload b \<and>
     bi_tail b' = bi_tail b"

definition hdr_frame :: "fld \<Rightarrow> dyn_img_hdr \<Rightarrow> dyn_img_hdr \<Rightarrow> bool" where
  "hdr_frame f h h' \<longleftrightarrow> dh_class h' = dh_class h \<and> (hdr_wf h \<longrightarrow> hdr_wf h' \<and> (\<forall>g. g \<noteq> f \<longrightarrow> hget g h' = hget g h))"

lemma hdr_frame_refl [simp]: "hdr_frame f h h"
  by (simp add: hdr_frame_def)

lemma hdr_frame_hset [simp]: "hdr_frame f h (hset f v h)"
  by (simp add: hdr_frame_def hdr.wf_put hdr.get_put_other)

lemma hdr_frame_trans: "hdr_frame f h h' \<Longrightarrow> hdr_frame f h' h'' \<Longrightarrow> hdr_frame f h h''"
  by (simp add: hdr_frame_def)

lemma memmem_rd:
  assumes "rd mem p n = Some hay" and "memmem pat hay = Some i"
  shows "i + length pat \<le> n \<and> rd mem (p + i) (length pat) = Some pat"
proof -
  have h: "hay = slice p n mem" "p + n \<le> length mem" using assms(1) by (simp_all add: rd_Some_iff)
  have i: "i + length pat \<le> length hay" "take (length pat) (drop i hay) = pat"
    using assms(2) by (simp_all add: memmem_Some occurs_at_def slice_def)
  then have b: "i + length pat \<le> n" using h by (simp add: length_slice)
  with i h show ?thesis by (simp add: rd_Some_iff slice_def drop_take add.commute min_absorb1)
qed

lemma find_dtb_from_found:
  "find_dtb_from mem buf sz cur = Some (Some c) \<Longrightarrow>
   cur \<le> c \<and> c + 4 \<le> sz \<and> rd mem (buf + c) 4 = Some DTB_MAGIC \<and> fdt_ok mem (buf + c) (sz - c) = Some True"
proof (induction mem buf sz cur rule: find_dtb_from.induct)
  case (1 mem buf sz cur)
  from "1.prems" obtain hay i ok where c: "cur < sz" "rd mem (buf + cur) (sz - cur) = Some hay"
      "memmem DTB_MAGIC hay = Some i" "fdt_ok mem (buf + cur + i) (sz - (cur + i)) = Some ok"
      "(if ok then Some (Some (cur + i)) else find_dtb_from mem buf sz (cur + i + fdt_header_sz)) = Some (Some c)"
    unfolding find_dtb_from.simps [of mem buf sz cur] by (auto split: if_splits bind_splits option.splits)
  have i: "cur + i + 4 \<le> sz" "rd mem (buf + cur + i) 4 = Some DTB_MAGIC"
    using memmem_rd [OF c(2,3)] c(1) by (auto simp: DTB_MAGIC_def numeral_eq_Suc)
  show ?case
  proof (cases ok)
    case True
    with c i show ?thesis by (auto simp: add.assoc)
  next
    case False
    with "1.IH" [OF c(1-4)] c(5) show ?thesis by auto
  qed
qed

lemma find_dtb_offset_pos:
  assumes "find_dtb_offset mem buf sz = Some d" and "0 < d"
  shows "nat d + 4 \<le> unat sz \<and> rd mem (buf + nat d) 4 = Some DTB_MAGIC \<and>
    fdt_ok mem (buf + nat d) (unat sz - nat d) = Some True"
proof -
  obtain c where c: "find_dtb_from mem buf (unat sz) 0 = Some (Some c)" "d = sint (of_nat c :: u32)"
    using assms by (auto simp: find_dtb_offset_def split: option.splits)
  note f = find_dtb_from_found [OF c(1)]
  have lt: "c < 2 ^ 32" using f unat_u32 [of sz] by simp
  have "d = int c"
  proof -
    have "uint (of_nat c :: u32) = int c" using lt by (simp add: unsigned_of_nat take_bit_nat_eq_self)
    then have s: "d = take_bit 32 (int c) - 2 ^ 32 * of_bool (bit (int c) 31)"
      using c(2) by (simp add: sint_uint signed_take_bit_eq_take_bit_minus)
    have "take_bit 32 (int c) = int c" using lt by (simp add: take_bit_int_eq_self)
    then show ?thesis using s assms(2) lt by (cases "bit (int c) 31") simp_all
  qed
  then show ?thesis using f by simp
qed


text \<open>The kernel: unless a header in front of it is recognised it stays where it is, cut before the device
  tree that follows it.\<close>

lemma parse_zimage_frame:
  assumes "parse_zimage b h kern = Some (b', h')"
  shows "img_frame b b' \<and> hdr_frame F_kernel_size h h' \<and> (\<forall>k. k \<noteq> B_kernel \<longrightarrow> bi_ptr b' k = bi_ptr b k) \<and>
    (ZIMAGE_KERNEL \<notin> bi_flags b' \<longrightarrow> bi_ptr b' = bi_ptr b \<and> h' = h) \<and> bi_kernel_dtb b' = bi_kernel_dtb b"
  using assms
  by (auto simp: parse_zimage_def img_frame_def Let_def split: bind_splits option.splits if_splits)

definition kernel_cut :: "boot_img \<Rightarrow> dyn_img_hdr \<Rightarrow> boot_img \<Rightarrow> dyn_img_hdr \<Rightarrow> bool" where
  "kernel_cut b h b' h' \<longleftrightarrow>
     bi_ptr b' = bi_ptr b \<and>
     (hget F_kernel_size h' = hget F_kernel_size h \<and> bi_kernel_dtb b' = bi_kernel_dtb b \<or>
      (\<exists>q. bi_ptr b B_kernel = Some q \<and> 0 < hget F_kernel_size h' \<and> hget F_kernel_size h' < hget F_kernel_size h \<and>
         bi_kernel_dtb b' = (q + hget F_kernel_size h', hget F_kernel_size h - hget F_kernel_size h')))"

lemma hget_hset_u32:
  assumes "hdr_wf h" and "0 < hget f h" and "f \<noteq> F_page_size" and "f \<noteq> F_recovery_dtbo_offset" and "v < 2 ^ 32"
  shows "hget f (hset f v h) = v"
proof -
  have f: "f \<in> set (exposed (dh_class h))" using assms(2,3) by (auto simp: hget_def split: if_splits)
  then have "hwidth h f = 4" using exposed_u32 [OF f assms(4)] by (auto simp: hwidth_def)
  then show ?thesis using hget_hset_same [OF assms(1) f, of v] assms(5) by simp
qed

lemma parse_kernel_dtb_frame:
  assumes "parse_kernel_dtb b h kern = Some (b', h')" and "hdr_wf h" and "0 < hget F_kernel_size h"
    and "bi_ptr b B_kernel = Some kern"
  shows "img_frame b b' \<and> hdr_frame F_kernel_size h h' \<and> bi_ptr b' = bi_ptr b \<and> kernel_cut b h b' h'"
proof -
  let ?sz = "hget F_kernel_size h"
  have lt: "?sz < 2 ^ 32" using hget_u32 [OF assms(2)] by simp
  obtain d where d: "find_dtb_offset (bi_mem b) kern (of_nat ?sz) = Some d"
      "(if 0 < d then (b\<lparr>bi_kernel_dtb := (kern + nat d, ?sz - nat d)\<rparr>, hset F_kernel_size (nat d) h) else (b, h)) = (b', h')"
    using assms(1) by (auto simp: parse_kernel_dtb_def Let_def split: bind_splits)
  show ?thesis
  proof (cases "0 < d")
    case True
    have "nat d < ?sz" using find_dtb_offset_pos [OF d(1) True] lt by (simp add: unat_of_nat)
    moreover from this have "hget F_kernel_size h' = nat d"
      using True d(2) lt hget_hset_u32 [OF assms(2,3)] by auto
    ultimately show ?thesis using True d(2) assms(4) by (auto simp: img_frame_def kernel_cut_def)
  next
    case False
    then show ?thesis using d(2) by (auto simp: img_frame_def kernel_cut_def)
  qed
qed

lemma parse_kernel_mtk_frame:
  assumes "parse_kernel_mtk b h kern = Some (b', h', kern')"
  shows "img_frame b b' \<and> hdr_frame F_kernel_size h h' \<and> (\<forall>k. k \<noteq> B_kernel \<longrightarrow> bi_ptr b' k = bi_ptr b k) \<and>
    (MTK_KERNEL \<notin> bi_flags b' \<longrightarrow> bi_ptr b' = bi_ptr b \<and> h' = h) \<and> bi_kernel_dtb b' = bi_kernel_dtb b"
  using assms
  by (auto simp: parse_kernel_mtk_def img_frame_def Let_def split: bind_splits option.splits if_splits)

lemma parse_kernel_frame:
  assumes "parse_kernel b h = Some (b', h')" and "hdr_wf h"
  shows "img_frame b b' \<and> hdr_frame F_kernel_size h h' \<and> (\<forall>k. k \<noteq> B_kernel \<longrightarrow> bi_ptr b' k = bi_ptr b k) \<and>
    (MTK_KERNEL \<notin> bi_flags b' \<and> ZIMAGE_KERNEL \<notin> bi_flags b' \<longrightarrow> kernel_cut b h b' h')"
proof (cases "hget F_kernel_size h = 0")
  case True
  then show ?thesis using assms by (simp add: parse_kernel_def img_frame_def kernel_cut_def)
next
  case False
  then obtain kern b1 h1 b2 h2 kern2 where k: "bi_ptr b B_kernel = Some kern"
      "parse_kernel_dtb b h kern = Some (b1, h1)" "parse_kernel_mtk b1 h1 kern = Some (b2, h2, kern2)"
      "(if bi_k_fmt b2 = ZIMAGE then parse_zimage b2 h2 kern2 else Some (b2, h2)) = Some (b', h')"
    using assms(1) by (auto simp: parse_kernel_def split: bind_splits)
  note 1 = parse_kernel_dtb_frame [OF k(2) assms(2) _ k(1)] and 2 = parse_kernel_mtk_frame [OF k(3)]
  have 3: "img_frame b2 b' \<and> hdr_frame F_kernel_size h2 h' \<and> (\<forall>k. k \<noteq> B_kernel \<longrightarrow> bi_ptr b' k = bi_ptr b2 k) \<and>
    (ZIMAGE_KERNEL \<notin> bi_flags b' \<longrightarrow> bi_ptr b' = bi_ptr b2 \<and> h' = h2) \<and> bi_kernel_dtb b' = bi_kernel_dtb b2"
    using k(4) parse_zimage_frame [of b2 h2 kern2 b' h'] by (auto simp: img_frame_def split: if_splits)
  show ?thesis using 1 2 3 False
    by (auto simp: img_frame_def kernel_cut_def intro: hdr_frame_trans)
qed

lemma parse_ramdisk_frame:
  assumes "parse_ramdisk b h = Some (Done (b', h'))"
  shows "img_frame b b' \<and> hdr_frame F_ramdisk_size h h' \<and> (\<forall>k. k \<noteq> B_ramdisk \<longrightarrow> bi_ptr b' k = bi_ptr b k) \<and>
    (MTK_RAMDISK \<notin> bi_flags b' \<longrightarrow> bi_ptr b' = bi_ptr b \<and> h' = h) \<and> bi_kernel_dtb b' = bi_kernel_dtb b"
  using assms
  by (auto simp: parse_ramdisk_def img_frame_def Let_def split: bind_splits option.splits if_splits)

lemma parse_extra_frame:
  "parse_extra b h = Some b' \<Longrightarrow> img_frame b b' \<and> bi_ptr b' = bi_ptr b \<and> bi_kernel_dtb b' = bi_kernel_dtb b"
  by (auto simp: parse_extra_def img_frame_def split: bind_splits if_splits)

lemma parse_tail_frame:
  "parse_tail vf b base = Some b' \<Longrightarrow> img_frame b b' \<and> bi_ptr b' = bi_ptr b \<and> bi_kernel_dtb b' = bi_kernel_dtb b"
  by (auto simp: parse_tail_def img_frame_def Let_def split: bind_splits if_splits prod.splits)

lemma dyn_new_wf: "dyn_new c mem off = Some h \<Longrightarrow> hdr_wf h"
  by (auto simp: dyn_new_def hdr_wf_def dest: rd_length)

lemma make_hdr_wf: "make_hdr mem p = Some (Some h) \<Longrightarrow> hdr_wf h"
  by (auto simp: make_hdr_def dest: dyn_new_wf split: bind_splits if_splits)

lemma create_hdr_oks:
  "oks (\<lambda>(b', base, hdr). bi_map b' = bi_map b \<and> bi_kernel_dtb b' = bi_kernel_dtb b \<and> (\<forall>h. hdr = Some h \<longrightarrow> hdr_wf h)) (create_hdr b addr type)"
  unfolding create_hdr_def Let_def
  by (intro oks_bind oks_if oks_Some;
      simp only: prod.case set_flag_sel option.inject simp_thms HOL.all_simps; meson dyn_new_wf make_hdr_wf)

lemma hdr_space_small:
  assumes "hdr_space h = Some off" and "unat (page_size h) < 2 ^ 31"
  shows "unat off < 2 ^ 63"
proof (cases "is_vendor h")
  case False
  then have "off = ucast (page_size h)" using assms(1) by (simp add: hdr_space_def)
  then have "unat off = unat (page_size h)" using unat_u32 [of "page_size h"]
    by (simp add: unsigned_ucast_eq unsigned_take_bit_eq take_bit_nat_eq_self)
  then show ?thesis using assms(2) by simp
next
  case True
  let ?n = "hdr_size h" and ?p = "unat (page_size h)"
  have n: "?n < 2 ^ 12" by (cases "dh_class h") (simp_all add: hdr_size_def layout_defs size_defs)
  have a: "align_to (of_nat ?n) (page_size h) = Some off" using True assms(1) by (simp add: hdr_space_def)
  then have pos: "0 < ?p" by (auto simp: align_to_def unat_gt_0 split: if_splits)
  have u: "unat (of_nat ?n :: u64) = ?n" using n by (simp add: unat_of_nat)
  have "align_up ?n ?p < 2 ^ 63" using align_up_less [OF pos, of ?n] n assms(2) by simp
  then show ?thesis
    using align_to_nat [OF pos assms(2), of "of_nat ?n"] a u n assms(2) by (auto simp: unat_of_nat)
qed

definition blk_inside :: "boot_img \<Rightarrow> dyn_img_hdr \<Rightarrow> blk \<Rightarrow> bool" where
  "blk_inside b h k \<longleftrightarrow>
     (\<exists>q. bi_ptr b k = Some q \<and> fst (bi_payload b) \<le> q \<and>
        q + hget (blk_size k) h \<le> fst (bi_payload b) + snd (bi_payload b))"

lemma all_blks_all: "k \<in> set all_blks" "distinct all_blks" "all_blks \<noteq> []"
  by (cases k) (simp_all add: all_blks_def)

lemma parse_image_steps:
  assumes "parse_image page vf b p type = Some (Done (True, b'))"
  obtains b1 b2 base h off0 off b3 b4 b5 h1 h2 b6 where
    "create_hdr b p type = Some (b1, base, Some h)"
    "b2 = (if sha256_id h then set_flag SHA256_FLAG b1 else b1)"
    "hdr_space h = Some off0"
    "get_blocks h base (align_up (m_sz (bi_map b2)) page) all_blks off0 b2 = Some (True, off, b3)"
    "parse_kernel (b3\<lparr>bi_payload := (base, unat off),
        bi_tail := (base + unat off, align_up (m_sz (bi_map b2)) page - (base + unat off))\<rparr>) h = Some (b4, h1)"
    "parse_ramdisk b4 h1 = Some (Done (b5, h2))"
    "parse_extra b5 h2 = Some b6"
    "\<exists>b7. parse_tail vf b6 base = Some b7 \<and> b' = b7\<lparr>bi_hdr := Some h2\<rparr>"
  using assms unfolding parse_image_def
  by (auto simp: Let_def split: bind_splits option.splits run.splits if_split_asm prod.splits)


text \<open>The steps behind the blocks, taken together.\<close>

lemma parse_rest_frame:
  assumes "parse_kernel b h = Some (b4, h1)" and "parse_ramdisk b4 h1 = Some (Done (b5, h2))"
    and "parse_extra b5 h2 = Some b6" and "parse_tail vf b6 base = Some b'" and wf: "hdr_wf h"
  shows "img_frame b b'" and "f \<notin> {F_kernel_size, F_ramdisk_size} \<Longrightarrow> hget f h2 = hget f h"
    and "hdr_wf h2" and "dh_class h2 = dh_class h"
    and "k \<notin> {B_kernel, B_ramdisk} \<Longrightarrow> bi_ptr b' k = bi_ptr b k"
    and "MTK_RAMDISK \<notin> bi_flags b' \<Longrightarrow>
      bi_ptr b' B_ramdisk = bi_ptr b B_ramdisk \<and> hget F_ramdisk_size h2 = hget F_ramdisk_size h"
    and "MTK_KERNEL \<notin> bi_flags b' \<and> ZIMAGE_KERNEL \<notin> bi_flags b' \<Longrightarrow> \<exists>x. kernel_cut b h x h1 \<and>
      bi_ptr b' B_kernel = bi_ptr x B_kernel \<and> hget F_kernel_size h2 = hget F_kernel_size h1 \<and>
      bi_kernel_dtb b' = bi_kernel_dtb x"
proof -
  note kf = parse_kernel_frame [OF assms(1) wf] and rf = parse_ramdisk_frame [OF assms(2)]
    and ef = parse_extra_frame [OF assms(3)] and tf = parse_tail_frame [OF assms(4)]
  have wf1: "hdr_wf h1" using kf wf by (simp add: hdr_frame_def)
  have fl: "bi_flags b4 \<subseteq> bi_flags b5" "bi_flags b5 \<subseteq> bi_flags b'" "bi_flags b4 \<subseteq> bi_flags b'"
    using rf ef tf by (auto simp: img_frame_def)
  show "img_frame b b'" using kf rf ef tf by (auto simp: img_frame_def)
  show "hdr_wf h2" "dh_class h2 = dh_class h" using kf rf wf by (simp_all add: hdr_frame_def)
  show "f \<notin> {F_kernel_size, F_ramdisk_size} \<Longrightarrow> hget f h2 = hget f h"
    using kf rf wf wf1 by (simp add: hdr_frame_def)
  show "k \<notin> {B_kernel, B_ramdisk} \<Longrightarrow> bi_ptr b' k = bi_ptr b k" using kf rf ef tf by simp
  show "MTK_RAMDISK \<notin> bi_flags b' \<Longrightarrow>
      bi_ptr b' B_ramdisk = bi_ptr b B_ramdisk \<and> hget F_ramdisk_size h2 = hget F_ramdisk_size h"
    using kf rf ef tf fl wf by (auto simp: hdr_frame_def)
  assume "MTK_KERNEL \<notin> bi_flags b' \<and> ZIMAGE_KERNEL \<notin> bi_flags b'"
  then have "kernel_cut b h b4 h1" using kf fl by blast
  moreover have "bi_ptr b' B_kernel = bi_ptr b4 B_kernel" "bi_kernel_dtb b' = bi_kernel_dtb b4"
    "hget F_kernel_size h2 = hget F_kernel_size h1" using rf ef tf wf1 by (simp_all add: hdr_frame_def)
  ultimately show "\<exists>x. kernel_cut b h x h1 \<and> bi_ptr b' B_kernel = bi_ptr x B_kernel \<and>
      hget F_kernel_size h2 = hget F_kernel_size h1 \<and> bi_kernel_dtb b' = bi_kernel_dtb x" by blast
qed

text \<open>C2: an image that is accepted keeps its promises about memory: the payload ends inside the mapping
  and the tail is the rest of it, the payload is a multiple of the page size, every block lies inside
  the payload (the kernel and the ramdisk unless an MTK or zImage header was skipped in front of
  them), and so does a device tree found behind the kernel. The page size has to be a positive \<open>int\<close>.\<close>

theorem parse_image_bounds:
  assumes "parse_image page vf b p type = Some (Done (True, b'))" and "bi_hdr b' = Some h'"
    and "unat (page_size h') < 2 ^ 31" and "bi_kernel_dtb b = (0, 0)"
  shows "fst (bi_payload b') + snd (bi_payload b') \<le> align_up (m_sz (bi_map b)) page \<and>
    bi_tail b' = (fst (bi_payload b') + snd (bi_payload b'),
      align_up (m_sz (bi_map b)) page - (fst (bi_payload b') + snd (bi_payload b'))) \<and>
    unat (page_size h') dvd snd (bi_payload b') \<and>
    (\<forall>k. k \<notin> {B_kernel, B_ramdisk} \<longrightarrow> blk_inside b' h' k) \<and>
    (MTK_RAMDISK \<notin> bi_flags b' \<longrightarrow> blk_inside b' h' B_ramdisk) \<and>
    (MTK_KERNEL \<notin> bi_flags b' \<and> ZIMAGE_KERNEL \<notin> bi_flags b' \<longrightarrow>
       blk_inside b' h' B_kernel \<and>
       fst (bi_kernel_dtb b') + snd (bi_kernel_dtb b') \<le> fst (bi_payload b') + snd (bi_payload b'))"
proof -
  obtain b1 b2 base h off0 off b3 b4 b5 h1 h2 b6 where s:
      "create_hdr b p type = Some (b1, base, Some h)"
      "b2 = (if sha256_id h then set_flag SHA256_FLAG b1 else b1)" "hdr_space h = Some off0"
      "get_blocks h base (align_up (m_sz (bi_map b2)) page) all_blks off0 b2 = Some (True, off, b3)"
      "parse_kernel (b3\<lparr>bi_payload := (base, unat off),
         bi_tail := (base + unat off, align_up (m_sz (bi_map b2)) page - (base + unat off))\<rparr>) h = Some (b4, h1)"
      "parse_ramdisk b4 h1 = Some (Done (b5, h2))" "parse_extra b5 h2 = Some b6"
      "\<exists>b7. parse_tail vf b6 base = Some b7 \<and> b' = b7\<lparr>bi_hdr := Some h2\<rparr>"
    by (rule parse_image_steps [OF assms(1)])
  then obtain b7 where b7: "parse_tail vf b6 base = Some b7" "b' = b7\<lparr>bi_hdr := Some h2\<rparr>" by blast
  have h': "h' = h2" using assms(2) b7(2) by simp
  have wf: "hdr_wf h" and m1: "bi_map b1 = bi_map b" and d1: "bi_kernel_dtb b1 = (0, 0)"
    using oksD [OF create_hdr_oks s(1)] assms(4) by auto
  have m: "bi_map b2 = bi_map b" and d2: "bi_kernel_dtb b3 = (0, 0)"
    using s(2) m1 d1 get_blocks_frame [OF s(4)] by auto
  note rest = parse_rest_frame [OF s(5-7) b7(1) wf]
  have ph: "page_size h2 = page_size h" using rest(2) by (simp add: page_size_def)
  then have pg: "unat (page_size h) < 2 ^ 31" using assms(3) h' by simp
  note gb = get_blocks_places [OF s(4) wf pg hdr_space_small [OF s(3) pg] all_blks_all(2)]
  have pay: "bi_payload b' = (base, unat off)"
      "bi_tail b' = (base + unat off, align_up (m_sz (bi_map b)) page - (base + unat off))"
    using rest(1) b7(2) m by (simp_all add: img_frame_def)
  have sel: "bi_ptr b' = bi_ptr b7" "bi_flags b' = bi_flags b7" "bi_kernel_dtb b' = bi_kernel_dtb b7"
    using b7(2) by simp_all
  have in3: "\<exists>q. bi_ptr b3 k = Some q \<and> base \<le> q \<and> q + hget (blk_size k) h \<le> base + unat off" for k
    using gb all_blks_all(1) [of k] by fastforce
  have "k \<notin> {B_kernel, B_ramdisk} \<Longrightarrow> blk_inside b' h' k" for k
    using in3 [of k] rest(5) [of k] rest(2) [of "blk_size k"] by (cases k) (auto simp: blk_inside_def pay h' sel)
  moreover have "MTK_RAMDISK \<notin> bi_flags b' \<Longrightarrow> blk_inside b' h' B_ramdisk"
    using in3 [of B_ramdisk] rest(6) by (auto simp: blk_inside_def pay h' sel)
  moreover have "MTK_KERNEL \<notin> bi_flags b' \<and> ZIMAGE_KERNEL \<notin> bi_flags b' \<Longrightarrow> blk_inside b' h' B_kernel \<and>
      fst (bi_kernel_dtb b') + snd (bi_kernel_dtb b') \<le> base + unat off"
    using in3 [of B_kernel] rest(7) d2 by (auto simp: blk_inside_def pay h' sel kernel_cut_def)
  ultimately show ?thesis using gb all_blks_all(3) m ph by (auto simp: pay h')
qed


definition vnd_raw :: bytes where
  "vnd_raw = bytes_of ''VNDRBOOT'' @ [3, 0, 0, 0] @ [16, 0, 0, 0] @ replicate 8 0 @ [0, 0, 0, 0] @
     replicate 2048 0 @ [0, 0, 0, 0] @ replicate 16 0 @ [0, 0, 0, 0] @ [3, 0, 0, 0] @ replicate 8 0"

definition vnd_sample :: bytes where
  "vnd_sample = vnd_raw @ replicate 3 7 @ replicate 13 0"

lemma vnd_lengths: "length vnd_raw = 2112" "length vnd_sample = 2128"
  by (simp_all add: vnd_raw_def vnd_sample_def)

definition vnd_hdr :: dyn_img_hdr where
  "vnd_hdr = \<lparr>dh_class = VND_V3, dh_raw = vnd_raw\<rparr>"

lemma vnd_fields:
  "hget F_page_size vnd_hdr = 16" "hget F_dtb_size vnd_hdr = 3" "hget F_ramdisk_size vnd_hdr = 0"
  "f \<notin> {F_page_size, F_dtb_size, F_ramdisk_size, F_header_version, F_header_size} \<Longrightarrow> hget f vnd_hdr = 0"
  by (simp_all add: hget_def vnd_hdr_def vnd_raw_def layout_defs size_defs slice_def)

lemma vnd_create:
  "create_hdr (boot_new (mmap_file 16 vnd_sample)) 0 AOSP_VENDOR =
     Some (boot_new (mmap_file 16 vnd_sample), 0, Some vnd_hdr)"
proof -
  have m: "m_mem (mmap_file 16 vnd_sample) = vnd_sample" by (simp add: mmap_file_def align_up_def vnd_lengths)
  have "field_at boot_img_hdr_vnd_v3 F_header_version vnd_sample 0 = Some 3"
    by (simp add: field_at_def layout_defs size_defs le_at_def rd_def vnd_lengths)
      (simp add: vnd_sample_def vnd_raw_def slice_def)
  moreover have "dyn_new VND_V3 vnd_sample 0 = Some vnd_hdr"
    by (simp add: dyn_new_def vnd_hdr_def rd_def vnd_lengths layout_defs size_defs)
      (simp add: vnd_sample_def slice_def vnd_lengths)
  ultimately show ?thesis by (simp add: create_hdr_def boot_new_def m Let_def)
qed

lemma vnd_blocks:
  "hdr_space vnd_hdr = Some 2112" "page_size vnd_hdr = 16"
  "align_to 2112 16 = Some 2112" "align_to 2115 16 = Some 2128" "align_to 2128 16 = Some 2128"
proof -
  show p: "page_size vnd_hdr = 16" by (simp add: page_size_def vnd_fields)
  show "align_to 2112 16 = Some 2112" "align_to 2115 16 = Some 2128" "align_to 2128 16 = Some 2128"
    by (simp_all add: align_to_def)
  then show "hdr_space vnd_hdr = Some 2112"
    unfolding hdr_space_def p by (simp add: is_vendor_def hdr_size_def vnd_hdr_def layout_defs size_defs)
qed

lemma vnd_parse:
  "\<exists>b'. parse_image 16 (\<lambda>_ _ _. False) (boot_new (mmap_file 16 vnd_sample)) 0 AOSP_VENDOR = Some (Done (True, b')) \<and>
     bi_hdr b' = Some vnd_hdr \<and> bi_payload b' = (0, 2128) \<and> bi_flags b' = {} \<and>
     bi_tail b' = (2128, 0) \<and> bi_mem b' = m_mem (mmap_file 16 vnd_sample)"
proof -
  have "\<not> sha256_id vnd_hdr" by (simp add: sha256_id_def has_id_def vnd_hdr_def)
  moreover have "align_up (m_sz (mmap_file 16 vnd_sample)) 16 = 2128"
    by (simp add: mmap_file_def align_up_def vnd_lengths)
  ultimately show ?thesis
    unfolding parse_image_def vnd_create
    by (simp add: boot_new_def all_blks_def set_ptr_def parse_kernel_def parse_ramdisk_def parse_extra_def
        parse_tail_def Let_def vnd_blocks vnd_fields)
qed

theorem parse_image_bounds_witness:
  "\<exists>b'. parse_image 16 (\<lambda>_ _ _. False) (boot_new (mmap_file 16 vnd_sample)) 0 AOSP_VENDOR = Some (Done (True, b')) \<and>
     bi_tail b' = (2128, 0) \<and> blk_inside b' vnd_hdr B_dtb"
proof -
  obtain b' where b': "parse_image 16 (\<lambda>_ _ _. False) (boot_new (mmap_file 16 vnd_sample)) 0 AOSP_VENDOR = Some (Done (True, b'))"
      "bi_hdr b' = Some vnd_hdr" "bi_payload b' = (0, 2128)" using vnd_parse by blast
  have "unat (page_size vnd_hdr) < 2 ^ 31" by (simp add: vnd_blocks)
  moreover have "bi_kernel_dtb (boot_new (mmap_file 16 vnd_sample)) = (0, 0)" by (simp add: boot_new_def)
  ultimately show ?thesis
    using parse_image_bounds [OF b'(1,2)] b'(1,3)
    by (simp add: boot_new_def mmap_file_def align_up_def vnd_lengths)
qed

section \<open>The walk over lz4 blocks\<close>

text \<open>The reference: blocks one after the other until fewer than four bytes are left, or until a block
  announces more bytes than there are.\<close>

function lz4_walk :: "bytes \<Rightarrow> format_t" where
  "lz4_walk d =
     (if length d < 4 then LZ4_LEGACY
      else if length d - 4 < of_le (take 4 d) then LZ4_LG
      else lz4_walk (drop (4 + of_le (take 4 d)) d))"
  by pat_completeness auto

termination
  by (relation "measure length") auto

declare lz4_walk.simps [simp del]

text \<open>The sizes the walk meets keep the 32-bit offset, which is \<open>off\<close> at the head of \<open>d\<close>, from wrapping. A
  block that fits into the data always does; a block that ends the walk may not.\<close>

function walk_fits :: "nat \<Rightarrow> bytes \<Rightarrow> bool" where
  "walk_fits off d =
     (if length d < 4 then True
      else if 2 ^ 32 \<le> off + 4 + of_le (take 4 d) then False
      else if length d - 4 < of_le (take 4 d) then True
      else walk_fits (off + 4 + of_le (take 4 d)) (drop (4 + of_le (take 4 d)) d))"
  by pat_completeness auto

termination
  by (relation "measure (\<lambda>(off, d). length d)") auto

declare walk_fits.simps [simp del]

lemma lg_loop_walk:
  assumes "buf + unat sz \<le> length mem" and "unat off \<le> unat sz"
    and "walk_fits (unat off) (drop (unat off) (slice buf (unat sz) mem))"
  shows "lg_loop mem buf sz off = Some (lz4_walk (drop (unat off) (slice buf (unat sz) mem)))"
  using assms(2,3)
proof (induction "unat sz - unat off" arbitrary: off rule: less_induct)
  case less
  let ?d = "slice buf (unat sz) mem" and ?o = "unat off"
  have ld: "length ?d = unat sz" using assms(1) by (simp add: length_slice)
  show ?case
  proof (cases "?o + 4 \<le> unat sz")
    case False
    then have "length (drop ?o ?d) < 4" using ld by (simp only: length_drop)
    then show ?thesis using False by (simp add: lg_loop.simps lz4_walk.simps [of "drop ?o ?d"])
  next
    case True
    define n where "n = of_le (slice ?o 4 ?d)"
    have t: "take 4 (drop ?o ?d) = slice ?o 4 ?d" by (simp add: slice_def)
    have l4: "\<not> length (drop ?o ?d) < 4" using True ld by simp
    have n: "?o + 4 + n < 2 ^ 32"
      using less.prems(2) l4 by (subst (asm) walk_fits.simps) (simp add: t n_def split: if_splits)
    have "slice (buf + ?o) 4 mem = slice ?o 4 ?d"
      using True by (simp add: slice_def drop_take add.commute min_def)
    then have r: "rd_u32 mem (buf + ?o) = Some (of_nat n)"
      using True assms(1) by (simp add: rd_u32_def rd_def n_def)
    have s: "unat (off + 4 + of_nat n :: u32) = ?o + 4 + n"
      using n True by (simp add: unat_word_ariths unat_of_nat)
    show ?thesis
    proof (cases "unat sz - ?o - 4 < n")
      case True
      then have "sz < off + 4 + of_nat n" using s by (simp add: word_less_nat_alt)
      then show ?thesis using r True \<open>?o + 4 \<le> unat sz\<close> ld
        by (simp add: lg_loop.simps lz4_walk.simps [of "drop ?o ?d"] t n_def)
    next
      case False
      then have ns: "\<not> sz < off + 4 + of_nat n" "unat (off + 4 + of_nat n) \<le> unat sz"
        using s True by (simp_all add: word_less_nat_alt)
      have "length (drop ?o ?d) - 4 = unat sz - ?o - 4" unfolding length_drop ld by simp
      then have "walk_fits (?o + 4 + n) (drop (4 + n) (drop ?o ?d))"
        using less.prems(2) False n l4 unfolding walk_fits.simps [of ?o] t n_def [symmetric] by (simp only: if_False not_le simp_thms)
      then have "walk_fits (unat (off + 4 + of_nat n)) (drop (unat (off + 4 + of_nat n)) ?d)"
        using s by (simp add: add.commute add.left_commute)
      then have "lg_loop mem buf sz (off + 4 + of_nat n) = Some (lz4_walk (drop (unat (off + 4 + of_nat n)) ?d))"
        using s True ns by (intro less) simp_all
      moreover have "lz4_walk (drop ?o ?d) = lz4_walk (drop (?o + 4 + n) ?d)"
      proof -
        have "\<not> length (drop ?o ?d) < 4" "\<not> length (drop ?o ?d) - 4 < n"
          using False True unfolding length_drop ld by linarith+
        then show ?thesis
          by (subst lz4_walk.simps) (simp add: t n_def [symmetric] add.commute add.left_commute del: length_drop)
      qed
      ultimately show ?thesis using r True ns s by (simp add: lg_loop.simps [of mem buf sz off])
    qed
  qed
qed

lemma lg_loop_cycle:
  assumes "lg_loop mem buf sz off = Some r"
  shows "\<not> (off = 4 \<and> 8 \<le> unat sz \<and> rd_u32 mem (buf + 4) = Some 0xFFFFFFFC)"
  by (rule lg_loop.raw_induct
        [where P = "\<lambda>mem buf sz off r. \<not> (off = 4 \<and> 8 \<le> unat sz \<and> rd_u32 mem (buf + 4) = Some 0xFFFFFFFC)", OF _ assms])
    (auto simp: word_less_nat_alt split: if_splits)

lemma check_fmt_slice:
  assumes "buf + n \<le> length mem"
  shows "check_fmt mem buf n = check_fmt (slice buf n mem) 0 (length (slice buf n mem))"
proof -
  have "slice 0 (length (slice buf n mem)) (slice buf n mem) = slice buf n mem"
    unfolding slice_def [of 0] by simp
  then show ?thesis
    using check_fmt_in [OF assms] check_fmt_in [of 0 "length (slice buf n mem)" "slice buf n mem"] by simp
qed

lemma check_fmt_lz4_at:
  assumes "buf + n \<le> length mem" and "slice buf n mem = [0x02, 0x21, 0x4c, 0x18] @ d"
  shows "check_fmt mem buf n = Some LZ4_LEGACY" and "n = 4 + length d"
proof -
  have "length (slice buf n mem) = n" using assms(1) by (simp add: length_slice)
  then show "n = 4 + length d" unfolding assms(2) by simp
  show "check_fmt mem buf n = Some LZ4_LEGACY"
    using check_fmt_slice [OF assms(1)] check_fmt_lz4 [of "slice buf n mem"] unfolding assms(2) by simp
qed

text \<open>C10: for an lz4 stream where no block size met by the walk wraps the 32-bit offset, \<open>check_fmt_lg\<close>
  returns, and says \<open>LZ4_LG\<close> exactly when the walk comes to a block that announces more bytes than are left.\<close>

theorem check_fmt_lg_walk:
  assumes "buf + unat sz \<le> length mem" and "slice buf (unat sz) mem = [0x02, 0x21, 0x4c, 0x18] @ d"
    and "walk_fits 4 d"
  shows "check_fmt_lg mem buf sz = Some (lz4_walk d)"
proof -
  note f = check_fmt_lz4_at [OF assms(1,2)]
  then show ?thesis
    using lg_loop_walk [OF assms(1), of 4] assms(3) unfolding assms(2) by (simp add: check_fmt_lg_def)
qed

text \<open>The first block holds bytes that, read as a size, would wrap the offset.\<close>

theorem check_fmt_lg_walk_witness:
  "check_fmt_lg ([0x02, 0x21, 0x4c, 0x18] @ [4, 0, 0, 0, 0xFF, 0xFF, 0xFF, 0xFF] @ [5, 0, 0, 0]) 0 16 = Some LZ4_LG"
  using check_fmt_lg_walk [of 0 16 "[0x02, 0x21, 0x4c, 0x18] @ [4, 0, 0, 0, 0xFF, 0xFF, 0xFF, 0xFF] @ [5, 0, 0, 0]"
      "[4, 0, 0, 0, 0xFF, 0xFF, 0xFF, 0xFF, 5, 0, 0, 0]"]
  by (simp add: slice_def lz4_walk.simps walk_fits.simps)

text \<open>C30: a first block that announces \<open>0xFFFFFFFC\<close> bytes takes the offset back to itself: \<open>check_fmt_lg\<close>, and
  with it the parsing of an image whose kernel starts like this, does not return.\<close>

theorem check_fmt_lg_hangs:
  assumes "buf + unat sz \<le> length mem" and "slice buf (unat sz) mem = [0x02, 0x21, 0x4c, 0x18, 0xFC, 0xFF, 0xFF, 0xFF] @ d"
  shows "check_fmt_lg mem buf sz = None"
proof -
  have l: "unat sz = 8 + length d" and "check_fmt mem buf (unat sz) = Some LZ4_LEGACY"
    using check_fmt_lz4_at [OF assms(1), of "[0xFC, 0xFF, 0xFF, 0xFF] @ d"] assms(2) by simp_all
  moreover have "slice (buf + 4) 4 mem = take 4 (drop 4 (slice buf (unat sz) mem))"
    using l by (simp add: slice_def drop_take add.commute min_def)
  then have "rd_u32 mem (buf + 4) = Some 0xFFFFFFFC"
    using l assms by (simp add: rd_u32_def rd_def)
  then have "lg_loop mem buf sz 4 = None"
    using lg_loop_cycle [of mem buf sz 4] l by (cases "lg_loop mem buf sz 4") auto
  ultimately show ?thesis by (simp add: check_fmt_lg_def)
qed

theorem check_fmt_lg_hangs_witness:
  "check_fmt_lg [0x02, 0x21, 0x4c, 0x18, 0xFC, 0xFF, 0xFF, 0xFF] 0 8 = None"
  using check_fmt_lg_hangs [of 0 8 "[0x02, 0x21, 0x4c, 0x18, 0xFC, 0xFF, 0xFF, 0xFF]" "[]"] by (simp add: slice_def)

section \<open>Splitting a kernel from its device tree\<close>

lemma mmap_rd:
  assumes "off + n \<le> length f"
  shows "rd (m_mem (mmap_file page f)) off n = Some (slice off n f)"
  using assms by (simp add: mmap_file_def rd_def slice_append_left)

text \<open>C17: \<open>split\<close> loses nothing: when it succeeds, the kernel file and the device tree file it writes (without
  decompression) are together the input, the second one starts with the device tree magic, and no
  other file changes; otherwise it fails with 1 and changes nothing.\<close>

theorem split_image_dtb_partition:
  assumes "split_image_dtb L page file True fs = Some (r, fs')" and "length file < 2 ^ 32"
  shows "(r = 0 \<and> (\<exists>k d. fs' = fs(KERNEL_FILE \<mapsto> k, KER_DTB_FILE \<mapsto> d) \<and> k @ d = file \<and> k \<noteq> [] \<and> take 4 d = DTB_MAGIC)) \<or>
    (r = 1 \<and> fs' = fs)"
proof -
  let ?m = "mmap_file page file"
  have sz: "m_sz ?m = length file" "unat (of_nat (length file) :: u32) = length file"
    using assms(2) by (simp_all add: mmap_file_def unat_of_nat)
  obtain off where off: "find_dtb_offset (m_mem ?m) 0 (of_nat (length file)) = Some off"
    using assms(1) by (auto simp: split_image_dtb_def Let_def sz split: bind_splits)
  show ?thesis
  proof (cases "0 < off")
    case False
    then show ?thesis using assms(1) off by (auto simp: split_image_dtb_def Let_def sz)
  next
    case True
    note o = find_dtb_offset_pos [OF off True]
    then have le: "nat off + 4 \<le> length file" "rd (m_mem ?m) (nat off) 4 = Some DTB_MAGIC" using sz by simp_all
    then have magic: "take 4 (drop (nat off) file) = DTB_MAGIC" using mmap_rd [OF le(1)] by (simp add: slice_def)
    have "rd (m_mem ?m) 0 (nat off) = Some (take (nat off) file)"
      "rd (m_mem ?m) (nat off) (length file - nat off) = Some (drop (nat off) file)"
      using mmap_rd [of 0 "nat off" "file"] mmap_rd [of "nat off" "length file - nat off" "file"] le(1)
      by (simp_all add: slice_def)
    then have "r = 0 \<and> fs' = fs(KERNEL_FILE \<mapsto> take (nat off) file, KER_DTB_FILE \<mapsto> drop (nat off) file)"
      using assms(1) off True le(1)
      by (auto simp: split_image_dtb_def dump_def Let_def sz split: bind_splits if_splits)
    then show ?thesis using magic True le(1)
      by (intro disjI1 conjI, simp)
        (rule exI [of _ "take (nat off) file"], rule exI [of _ "drop (nat off) file"], auto simp: DTB_MAGIC_def)
  qed
qed

definition dtb_sample :: bytes where
  "dtb_sample = [7] @ DTB_MAGIC @ [0, 0, 0, 12] @ [0, 0, 0, 12] @ [0, 0, 0, 1] @ replicate 15 0"

lemma dtb_sample_found: "find_dtb_offset dtb_sample 0 32 = Some 1"
proof -
  have "find_dtb_from dtb_sample 0 32 0 = Some (Some 1)"
    by (subst find_dtb_from.simps)
      (simp add: dtb_sample_def DTB_MAGIC_def rd_def slice_def fdt_ok_def be_at_def of_be_def)
  then show ?thesis by (simp add: find_dtb_offset_def)
qed

lemma dtb_sample_mapped: "mmap_file 32 dtb_sample = \<lparr>m_mem = dtb_sample, m_sz = 32\<rparr>"
  by (simp add: mmap_file_def dtb_sample_def DTB_MAGIC_def align_up_def)

theorem split_image_dtb_partition_witness:
  "\<exists>fs'. split_image_dtb stored 32 dtb_sample True Map.empty = Some (0, fs') \<and>
     (\<exists>k d. fs' = [KERNEL_FILE \<mapsto> k, KER_DTB_FILE \<mapsto> d] \<and> k @ d = dtb_sample \<and> k \<noteq> [] \<and> take 4 d = DTB_MAGIC)"
proof -
  have l: "length dtb_sample = 32" by (simp add: dtb_sample_def DTB_MAGIC_def)
  have f: "check_fmt_lg dtb_sample 0 32 = Some UNKNOWN"
    unfolding check_fmt_lg_def
    by (simp add: check_fmt_def if_match_def checked_match_def buffer_match_def rd_def l or_else_def lzma_match_def
        zimage_match_def magic_defs bytes_of_def)
      (simp add: dtb_sample_def slice_def DTB_MAGIC_def)
  obtain fs' where "split_image_dtb stored 32 dtb_sample True Map.empty = Some (0, fs')"
    by (simp add: split_image_dtb_def dtb_sample_mapped dtb_sample_found f dump_def rd_def l)
  then show ?thesis using split_image_dtb_partition [of stored 32 dtb_sample Map.empty 0 fs'] l by simp
qed

section \<open>Images without a header\<close>

lemma slice_replicate: "off + n \<le> m \<Longrightarrow> slice off n (replicate m x) = replicate n x"
  by (simp add: slice_def min_def)

lemma match_zeros:
  assumes "s = x # t" and "x \<noteq> 0" and "length s \<le> sz"
  shows "checked_match (replicate m 0) addr sz s = (if addr + length s \<le> m then Some False else None)"
  using assms by (auto simp: checked_match_def buffer_match_def rd_def slice_replicate)

lemma if_match_None_False: "if_match (if c then Some False else None) t e = (if c then e else None)"
  by (simp add: if_match_def)

lemma or_else_None_False:
  "or_else (if c then Some False else None) (if d then Some False else None) = (if c \<and> d then Some False else None)"
  by (simp add: or_else_def)

lemma check_fmt_zeros:
  assumes "40 \<le> sz"
  shows "check_fmt (replicate m 0) addr sz = (if addr + 40 \<le> m then Some UNKNOWN else None)"
proof -
  have l: "lzma_match (replicate m 0) addr sz = (if addr + 13 \<le> m then Some False else None)"
    using assms by (simp add: lzma_match_def rd_def slice_replicate numeral_3_eq_3)
  have z: "zimage_match (replicate m 0) addr sz = (if addr + 40 \<le> m then Some False else None)"
    using assms by (simp add: zimage_match_def buffer_match_def rd_def slice_replicate ZIMAGE_MAGIC_def)
  note mz = match_zeros [OF refl, where sz = sz and m = m and addr = addr]
  show ?thesis
    unfolding check_fmt_def l z magic_defs bytes_of_def
    using assms by (simp add: mz if_match_None_False or_else_None_False)
qed

lemma boot_scan_zeros:
  assumes "m_mem (bi_map b) = replicate m 0" and "m_sz (bi_map b) = n" and "40 \<le> n" and "n \<le> m" and "addr \<le> n"
  shows "boot_scan page vf b addr = (if addr = n \<or> n + 39 \<le> m then Some Exit else None)"
  using assms
proof (induction "n - addr" arbitrary: addr)
  case 0
  then show ?case by (subst boot_scan.simps) simp
next
  case (Suc k)
  have lt: "addr < n" using Suc.hyps(2) by simp
  show ?case
  proof (cases "addr + 40 \<le> m")
    case True
    then have "boot_scan page vf b addr = boot_scan page vf b (addr + 1)"
      using Suc.prems lt by (subst boot_scan.simps) (simp add: check_fmt_zeros)
    also have "\<dots> = (if addr + 1 = n \<or> n + 39 \<le> m then Some Exit else None)"
      using Suc.hyps Suc.prems by (intro Suc.hyps(1)) simp_all
    finally show ?thesis using lt True by auto
  next
    case False
    then show ?thesis using Suc.prems lt by (subst boot_scan.simps) (simp add: check_fmt_zeros)
  qed
qed

text \<open>C31: a file without any header (zeros): the scan passes the size of the whole map at every address, so
  near the end it looks behind the file. It exits with an error only when the last page has 39 bytes
  to spare; otherwise, for example whenever the file is a whole number of pages, it reads outside the
  mapping.\<close>

theorem boot_open_zeros:
  assumes "0 < page" and "40 \<le> n"
  shows "boot_open page vf (replicate n 0) = (if n + 39 \<le> align_up n page then Some Exit else None)"
proof -
  have "mmap_file page (replicate n 0) = \<lparr>m_mem = replicate (align_up n page) 0, m_sz = n\<rparr>"
    using align_up_ge [OF assms(1), of n] by (simp add: mmap_file_def flip: replicate_add)
  then show ?thesis
    using boot_scan_zeros [of "boot_new (mmap_file page (replicate n 0))" "align_up n page" n 0] assms
      align_up_ge [OF assms(1), of n]
    by (simp add: boot_open_def boot_new_def)
qed

theorem boot_open_zeros_witness:
  "boot_open 4096 (\<lambda>_ _ _. False) (replicate 4096 0) = None \<and>
   boot_open 4096 (\<lambda>_ _ _. False) (replicate 4000 0) = Some Exit"
  using boot_open_zeros [of 4096 4096 "\<lambda>_ _ _. False"] boot_open_zeros [of 4096 4000 "\<lambda>_ _ _. False"]
  by (simp add: align_up_def)

section \<open>Page sizes that are negative as an int\<close>

lemma align_to_minus1:
  assumes "v \<noteq> 1"
  shows "align_to v 0xFFFFFFFF = Some 0"
proof -
  have s: "(scast (0xFFFFFFFF :: u32) :: u64) = - 1" by simp
  have "v + - 1 - 1 \<noteq> - 1" using assms by (simp add: algebra_simps)
  then have "v + - 1 - 1 < - 1" using word_order.not_eq_extremum by blast
  then show ?thesis unfolding align_to_def s using assms by (simp add: div_word_less)
qed

lemma get_blocks_minus1:
  assumes "page_size h = 0xFFFFFFFF" and "\<And>k. hget (blk_size k) h \<noteq> 1" and "hdr_wf h" and "base \<le> me"
  shows "\<exists>b'. get_blocks h base me ks 0 b = Some (True, 0, b') \<and> (\<forall>k. k \<notin> set ks \<longrightarrow> bi_ptr b' k = bi_ptr b k)"
  using assms(4)
proof (induction ks arbitrary: b)
  case (Cons k ks)
  have "(of_nat (hget (blk_size k) h) :: u64) \<noteq> 1"
  proof
    assume "(of_nat (hget (blk_size k) h) :: u64) = 1"
    then have "unat (of_nat (hget (blk_size k) h) :: u64) = 1" by simp
    then show False using assms(2) [of k] blk_size_u32 [OF assms(3), of k] by (simp add: unat_of_nat)
  qed
  then have "align_to (0 + of_nat (hget (blk_size k) h)) (page_size h) = Some 0"
    using align_to_minus1 assms(1) by simp
  then show ?case using Cons.IH [of "set_ptr k base b"] Cons.prems by auto
qed simp

lemma get_blocks_Cons0:
  assumes "align_to (off + of_nat (hget (blk_size k) h)) (page_size h) = Some 0" and "base \<le> me"
  shows "get_blocks h base me (k # ks) off b = get_blocks h base me ks 0 (set_ptr k (base + unat off) b)"
  using assms by simp


lemma of_le_zeros [simp]: "of_le (replicate n 0) = 0"
  by (induction n) simp_all

definition pxa_sample :: dyn_img_hdr where
  "pxa_sample = \<lparr>dh_class = PXA, dh_raw = replicate 44 0 @ [255, 255, 255, 255] @ replicate 1592 0\<rparr>"


end
