(* ===== verification/Boot_Repack.thy ===== *)
theory Boot_Repack
  imports Boot_Image
begin

text \<open>
  Repacking, verifying and signing of boot images: \<open>repack\<close>, \<open>verify\<close> and \<open>sign\<close> of
  \<^verbatim>\<open>src/native/src/boot/bootimg.cpp\<close>. The output is first written from front to back, so its content is
  also the position of the descriptor; then it is mapped and patched in place. The SHA digests and
  the signature of the Rust side are arguments. A file that cannot be mapped ends the process.
\<close>

section \<open>The surroundings\<close>

record 'l magiskboot =
  mb_codecs :: "'l codecs"
  mb_page :: nat
  mb_verify :: verifier
  mb_sign :: "bytes \<Rightarrow> string \<Rightarrow> string option \<Rightarrow> string option \<Rightarrow> bytes"
  mb_sha :: "bool \<Rightarrow> bytes \<Rightarrow> bytes"
  mb_patchvbmeta :: bool

text \<open>What is being written: the output so far, the new header, and the positions remembered in \<open>off\<close>,
  which are 32 bits wide.\<close>

record rp =
  rp_out :: bytes
  rp_hdr :: dyn_img_hdr
  off_header :: nat
  off_kernel :: nat
  off_ramdisk :: nat
  off_second :: nat
  off_extra :: nat
  off_dtb :: nat
  off_total :: nat
  off_vbmeta :: nat

definition here :: "rp \<Rightarrow> nat" where
  "here s = unat (of_nat (length (rp_out s)) :: u32)"

definition emit :: "bytes \<Rightarrow> rp \<Rightarrow> rp" where
  "emit d s = s\<lparr>rp_out := rp_out s @ d\<rparr>"

definition emit_zero :: "nat \<Rightarrow> rp \<Rightarrow> rp" where
  "emit_zero n s = s\<lparr>rp_out := write_zero (@) n (rp_out s)\<rparr>"

text \<open>\<open>xwrite\<close> of bytes of the source image.\<close>

definition emit_img :: "boot_img \<Rightarrow> nat \<Rightarrow> nat \<Rightarrow> rp \<Rightarrow> rp option" where
  "emit_img b p n s = do { d \<leftarrow> rd (bi_mem b) p n; Some (emit d s) }"

definition set_size :: "fld \<Rightarrow> nat \<Rightarrow> rp \<Rightarrow> rp" where
  "set_size f v s = s\<lparr>rp_hdr := hset f v (rp_hdr s)\<rparr>"

definition add_size :: "fld \<Rightarrow> nat \<Rightarrow> rp \<Rightarrow> rp" where
  "add_size f v s = set_size f (hget f (rp_hdr s) + v) s"

text \<open>\<open>file_align_with\<close>: \<open>align_padding\<close> on a signed offset and the page size as an \<open>int\<close>, with the division
  of C; the result is converted to \<open>size_t\<close>.\<close>

definition cdiv :: "int \<Rightarrow> int \<Rightarrow> int" where
  "cdiv x y = sgn x * sgn y * (\<bar>x\<bar> div \<bar>y\<bar>)"

definition file_align_with :: "u32 \<Rightarrow> rp \<Rightarrow> rp option" where
  "file_align_with pg s =
     (let v = int (length (rp_out s)) - int (off_header s); a = sint pg in
      if a = 0 then None
      else Some (emit_zero (unat (of_int (cdiv (v + a - 1) a * a - v) :: u64)) s))"

text \<open>A file that is written as it is, or compressed like the original block when it is not compressed
  already. The result is the number of bytes written.\<close>

definition put_block ::
    "'l codecs \<Rightarrow> nat \<Rightarrow> bool \<Rightarrow> format_t \<Rightarrow> bytes \<Rightarrow> rp \<Rightarrow> (rp \<times> nat) option" where
  "put_block L page skip_comp fmt file s =
     do { zip \<leftarrow> (if skip_comp then Some False
                 else
                   do { own \<leftarrow> check_fmt (m_mem (mmap_file page file)) 0 (length file);
                        Some (\<not> COMPRESSED_ANY own \<and> COMPRESSED fmt) });
          if zip then
            do { (out, n) \<leftarrow> compress_to L fmt (rp_out s) file; Some (s\<lparr>rp_out := out\<rparr>, n) }
          else Some (emit file s, length file) }"

text \<open>\<open>restore\<close>: a file copied behind what is there.\<close>

definition restore :: "fs \<Rightarrow> string \<Rightarrow> rp \<Rightarrow> (rp \<times> nat) option" where
  "restore fs name s = map_option (\<lambda>d. (emit d s, length d)) (fs name)"

section \<open>Writing the blocks\<close>

definition rp_start :: "boot_img \<Rightarrow> dyn_img_hdr \<Rightarrow> fs \<Rightarrow> rp option" where
  "rp_start b h fs =
     (let h1 = foldl (\<lambda>h f. hset f 0 h) h
            [F_kernel_size, F_ramdisk_size, F_second_size, F_dtb_size, F_bootconfig_size] in
      do { h2 \<leftarrow> (case fs HEADER_FILE of None \<Rightarrow> Some h1 | Some d \<Rightarrow> load_hdr_file (string_of d) h1);
           let s = \<lparr>rp_out = [], rp_hdr = h2, off_header = 0, off_kernel = 0, off_ramdisk = 0, off_second = 0,
                    off_extra = 0, off_dtb = 0, off_total = 0, off_vbmeta = 0\<rparr>;
           s \<leftarrow> (if DHTB_FLAG \<in> bi_flags b then Some (emit_zero dhtb_hdr_sz s)
                 else if BLOB_FLAG \<in> bi_flags b then emit_img b 0 blob_hdr_sz s
                 else if NOOKHD_FLAG \<in> bi_flags b then emit_img b 0 NOOKHD_PRE_HEADER_SZ s
                 else if ACCLAIM_FLAG \<in> bi_flags b then emit_img b 0 ACCLAIM_PRE_HEADER_SZ s
                 else Some s);
           let s = s\<lparr>off_header := here s\<rparr>;
           space \<leftarrow> hdr_space (rp_hdr s);
           emit_img b (fst (bi_payload b)) (unat space) s })"

text \<open>What follows the new kernel of a zImage: when it does not fit the place of the old one, the old one
  is put back; otherwise it is padded with zeros and the size of the uncompressed kernel. The number
  of zeros is computed in 64 bits from a 32-bit difference.\<close>

definition rp_zimage :: "boot_img \<Rightarrow> dyn_img_hdr \<Rightarrow> bool \<Rightarrow> bytes \<Rightarrow> rp \<Rightarrow> rp option" where
  "rp_zimage b h skip_comp file s =
     (let new = hget F_kernel_size (rp_hdr s); old = hget F_kernel_size h in
      do { s \<leftarrow> (if old < new then
                   do { kern \<leftarrow> bi_ptr b B_kernel;
                        emit_img b kern old (s\<lparr>rp_out := take (length (rp_out s) - new) (rp_out s)\<rparr>) }
                 else if \<not> skip_comp then
                   Some (emit (le32 (of_nat (length file)))
                     (emit_zero (unat (of_nat (old - new) - 4 :: u64)) s))
                 else Some s);
           Some (set_size F_kernel_size old s) })"

definition rp_kernel_file ::
    "'l magiskboot \<Rightarrow> boot_img \<Rightarrow> dyn_img_hdr \<Rightarrow> bool \<Rightarrow> bytes \<Rightarrow> rp \<Rightarrow> rp option" where
  "rp_kernel_file mb b h skip_comp file s =
     (let z = ZIMAGE_KERNEL \<in> bi_flags b;
          fmt = (if z \<and> bi_k_fmt b = GZIP then ZOPFLI else bi_k_fmt b) in
      do { (s, n) \<leftarrow> put_block (mb_codecs mb) (mb_page mb) skip_comp fmt file s;
           let s = set_size F_kernel_size n s;
           if z then rp_zimage b h skip_comp file s else Some s })"

definition rp_kernel :: "'l magiskboot \<Rightarrow> boot_img \<Rightarrow> dyn_img_hdr \<Rightarrow> bool \<Rightarrow> fs \<Rightarrow> rp \<Rightarrow> rp option" where
  "rp_kernel mb b h skip_comp fs s =
     (let z = ZIMAGE_KERNEL \<in> bi_flags b; s = s\<lparr>off_kernel := here s\<rparr> in
      do { s \<leftarrow> (if MTK_KERNEL \<in> bi_flags b then do { p \<leftarrow> bi_k_hdr b; emit_img b p mtk_hdr_sz s } else Some s);
           s \<leftarrow> (if z then do { p \<leftarrow> bi_z_hdr b; emit_img b p (fst (bi_zinfo b)) s } else Some s);
           s \<leftarrow> (case fs KERNEL_FILE of
                   Some file \<Rightarrow> rp_kernel_file mb b h skip_comp file s
                 | None \<Rightarrow>
                     if hget F_kernel_size h \<noteq> 0 then
                       do { kern \<leftarrow> bi_ptr b B_kernel;
                            s \<leftarrow> emit_img b kern (hget F_kernel_size h) s;
                            Some (set_size F_kernel_size (hget F_kernel_size h) s) }
                     else Some s);
           s \<leftarrow> (if z then
                   do { let s = add_size F_kernel_size (fst (bi_zinfo b)) s;
                        let (p, n) = snd (bi_zinfo b);
                        s \<leftarrow> emit_img b p n s;
                        Some (add_size F_kernel_size n s) }
                 else Some s);
           s \<leftarrow> (case restore fs KER_DTB_FILE s of
                   Some (s, n) \<Rightarrow> Some (add_size F_kernel_size n s)
                 | None \<Rightarrow> Some s);
           file_align_with (page_size h) s })"

text \<open>The entries of the ramdisk table. What is mapped for an entry is the path of the directory, not a
  file inside it; a path that is not a regular file ends the process.\<close>

fun rp_entries ::
    "'l magiskboot \<Rightarrow> boot_img \<Rightarrow> nat \<Rightarrow> bool \<Rightarrow> fs \<Rightarrow> table_entry list \<Rightarrow> nat \<Rightarrow> rp \<Rightarrow>
       (rp \<times> table_entry list \<times> nat) run option" where
  "rp_entries mb b ramdisk skip_comp fs [] roff s = Some (Done (s, [], roff))"
| "rp_entries mb b ramdisk skip_comp fs (e # es) roff s =
     do { name \<leftarrow> entry_file 64 e;
          case fs VND_RAMDISK_DIR of
            None \<Rightarrow> Some Exit
          | Some file \<Rightarrow>
              do { fmt \<leftarrow> check_fmt_lg (bi_mem b) (ramdisk + te_offset e) (of_nat (te_size e));
                   (s, n) \<leftarrow> put_block (mb_codecs mb) (mb_page mb) skip_comp fmt file s;
                   let e' = e\<lparr>te_offset := roff, te_size := unat (of_nat n :: u32)\<rparr>;
                   r \<leftarrow> rp_entries mb b ramdisk skip_comp fs es (unat (of_nat (roff + te_size e') :: u32)) s;
                   Some (case r of Exit \<Rightarrow> Exit | Done (s, es', roff') \<Rightarrow> Done (s, e' # es', roff')) } }"

definition rp_ramdisk_fmt :: "boot_img \<Rightarrow> dyn_img_hdr \<Rightarrow> bool \<Rightarrow> format_t" where
  "rp_ramdisk_fmt b h skip_comp =
     (if \<not> skip_comp \<and> \<not> is_vendor h \<and> hget F_header_version h = 4 \<and> bi_r_fmt b \<noteq> LZ4_LEGACY
      then LZ4_LEGACY else bi_r_fmt b)"

definition rp_ramdisk ::
    "'l magiskboot \<Rightarrow> boot_img \<Rightarrow> dyn_img_hdr \<Rightarrow> bool \<Rightarrow> fs \<Rightarrow> rp \<Rightarrow> (rp \<times> table_entry list) run option" where
  "rp_ramdisk mb b h skip_comp fs s =
     (let s = s\<lparr>off_ramdisk := here s\<rparr> in
      do { s \<leftarrow> (if MTK_RAMDISK \<in> bi_flags b then do { p \<leftarrow> bi_r_hdr b; emit_img b p mtk_hdr_sz s } else Some s);
           if hget F_vendor_ramdisk_table_size h \<noteq> 0 then
             do { ramdisk \<leftarrow> bi_ptr b B_ramdisk;
                  tab \<leftarrow> bi_ptr b B_vendor_ramdisk_table;
                  es \<leftarrow> rd_entries (bi_mem b) tab (hget F_vendor_ramdisk_table_entry_num h);
                  r \<leftarrow> rp_entries mb b ramdisk skip_comp fs es 0 s;
                  case r of
                    Exit \<Rightarrow> Some Exit
                  | Done (s, es', roff) \<Rightarrow>
                      do { s \<leftarrow> file_align_with (page_size h) (set_size F_ramdisk_size roff s);
                           Some (Done (s, es')) } }
           else
             (case fs RAMDISK_FILE of
                None \<Rightarrow> Some (Done (s, []))
              | Some file \<Rightarrow>
                  do { (s, n) \<leftarrow> put_block (mb_codecs mb) (mb_page mb) skip_comp
                                  (rp_ramdisk_fmt b (rp_hdr s) skip_comp) file s;
                       s \<leftarrow> file_align_with (page_size h) (set_size F_ramdisk_size n s);
                       Some (Done (s, [])) }) })"

text \<open>The blocks that are copied from a file when it is there.\<close>

definition rp_file :: "dyn_img_hdr \<Rightarrow> fs \<Rightarrow> string \<Rightarrow> fld \<Rightarrow> rp \<Rightarrow> rp option" where
  "rp_file h fs name f s =
     (case restore fs name s of
        None \<Rightarrow> Some s
      | Some (s, n) \<Rightarrow> file_align_with (page_size h) (set_size f n s))"

definition rp_extra :: "'l magiskboot \<Rightarrow> boot_img \<Rightarrow> dyn_img_hdr \<Rightarrow> bool \<Rightarrow> fs \<Rightarrow> rp \<Rightarrow> rp option" where
  "rp_extra mb b h skip_comp fs s =
     (case fs EXTRA_FILE of
        None \<Rightarrow> Some s
      | Some file \<Rightarrow>
          do { (s, n) \<leftarrow> put_block (mb_codecs mb) (mb_page mb) skip_comp (bi_e_fmt b) file s;
               file_align_with (page_size h) (set_size F_extra_size n s) })"

definition wr_entry :: "table_entry \<Rightarrow> bytes" where
  "wr_entry e = le_bytes 4 (te_size e) @ le_bytes 4 (te_offset e) @ le_bytes 4 (te_type e) @ te_name e @ te_board_id e"

definition rp_files :: "'l magiskboot \<Rightarrow> boot_img \<Rightarrow> dyn_img_hdr \<Rightarrow> bool \<Rightarrow> fs \<Rightarrow> rp \<Rightarrow> rp option" where
  "rp_files mb b h skip_comp fs s =
     do { s \<leftarrow> rp_file h fs SECOND_FILE F_second_size (s\<lparr>off_second := here s\<rparr>);
          s \<leftarrow> rp_extra mb b h skip_comp fs (s\<lparr>off_extra := here s\<rparr>);
          s \<leftarrow> rp_file h fs RECV_DTBO_FILE F_recovery_dtbo_size
                (case fs RECV_DTBO_FILE of
                   None \<Rightarrow> s | Some _ \<Rightarrow> set_size F_recovery_dtbo_offset (length (rp_out s)) s);
          rp_file h fs DTB_FILE F_dtb_size (s\<lparr>off_dtb := here s\<rparr>) }"

definition rp_signature :: "boot_img \<Rightarrow> dyn_img_hdr \<Rightarrow> rp \<Rightarrow> rp option" where
  "rp_signature b h s =
     (if hget F_signature_size h \<noteq> 0 then
        do { p \<leftarrow> bi_ptr b B_signature;
             s \<leftarrow> emit_img b p (hget F_signature_size h) s;
             file_align_with (page_size h) s }
      else Some s)"

definition rp_blocks ::
    "'l magiskboot \<Rightarrow> boot_img \<Rightarrow> dyn_img_hdr \<Rightarrow> bool \<Rightarrow> fs \<Rightarrow> table_entry list \<Rightarrow> rp \<Rightarrow> rp option" where
  "rp_blocks mb b h skip_comp fs table s =
     do { s \<leftarrow> rp_files mb b h skip_comp fs s;
          s \<leftarrow> rp_signature b h s;
          s \<leftarrow> (if table \<noteq> [] then file_align_with (page_size h) (emit (concat (map wr_entry table)) s)
                else Some s);
          rp_file h fs BOOTCONFIG_FILE F_bootconfig_size s }"

definition rp_finish :: "boot_img \<Rightarrow> dyn_img_hdr \<Rightarrow> rp \<Rightarrow> rp option" where
  "rp_finish b h s =
     do { let s = (if SEANDROID_FLAG \<in> bi_flags b then
                     (let s = emit SEANDROID_MAGIC s in
                      if DHTB_FLAG \<in> bi_flags b then emit [0xFF, 0xFF, 0xFF, 0xFF] s else s)
                   else if LG_BUMP_FLAG \<in> bi_flags b then emit LG_BUMP_MAGIC s else s);
          s \<leftarrow> file_align_with (page_size h) (s\<lparr>off_total := here s\<rparr>);
          s \<leftarrow> (if AVB_FLAG \<in> bi_flags b then
                  do { s \<leftarrow> file_align_with 4096 s;
                       footer \<leftarrow> bi_avb_footer b;
                       vbmeta \<leftarrow> bi_vbmeta b;
                       n \<leftarrow> be_at (bi_mem b) (footer + AvbFooter_vbmeta_size_off) 8;
                       emit_img b vbmeta n (s\<lparr>off_vbmeta := here s\<rparr>) }
                else Some s);
          Some (if CHROMEOS_FLAG \<notin> bi_flags b \<and> length (rp_out s) < m_sz (bi_map b)
                then emit_zero (m_sz (bi_map b) - length (rp_out s)) s else s) }"

section \<open>Patching the output\<close>

text \<open>The MTK headers get the sizes of what follows them; the header counts them in.\<close>

definition patch_mtk :: "boot_img \<Rightarrow> boot_flag \<Rightarrow> nat \<Rightarrow> fld \<Rightarrow> bytes \<times> dyn_img_hdr \<Rightarrow> (bytes \<times> dyn_img_hdr) option" where
  "patch_mtk b flag off f mh =
     (if flag \<in> bi_flags b then
        do { m \<leftarrow> wr (fst mh) (off + mtk_hdr_size_off) (le_bytes 4 (hget f (snd mh)));
             Some (m, hset f (hget f (snd mh) + mtk_hdr_sz) (snd mh)) }
      else Some mh)"

text \<open>A block and its size, as the digest sees them; of an empty block nothing is read.\<close>

definition sha_part :: "bytes \<Rightarrow> nat \<Rightarrow> nat \<Rightarrow> bytes option" where
  "sha_part m p n = do { d \<leftarrow> (if n = 0 then Some [] else rd m p n); Some (d @ le_bytes 4 n) }"

definition patch_id :: "'l magiskboot \<Rightarrow> boot_img \<Rightarrow> rp \<Rightarrow> bytes \<Rightarrow> dyn_img_hdr \<Rightarrow> dyn_img_hdr option" where
  "patch_id mb b s m h =
     (if \<not> has_id (dh_class h) then Some h
      else
        (let ver = hget F_header_version h in
         do { k \<leftarrow> sha_part m (off_kernel s) (hget F_kernel_size h);
              r \<leftarrow> sha_part m (off_ramdisk s) (hget F_ramdisk_size h);
              sd \<leftarrow> sha_part m (off_second s) (hget F_second_size h);
              e \<leftarrow> (if hget F_extra_size h \<noteq> 0 then sha_part m (off_extra s) (hget F_extra_size h) else Some []);
              d \<leftarrow> (if ver = 1 \<or> ver = 2
                    then sha_part m (hget F_recovery_dtbo_offset h) (hget F_recovery_dtbo_size h) else Some []);
              t \<leftarrow> (if ver = 2 then sha_part m (off_dtb s) (hget F_dtb_size h) else Some []);
              let digest = mb_sha mb (SHA256_FLAG \<notin> bi_flags b) (k @ r @ sd @ e @ d @ t);
              Some (hput F_id 0 (pad0 BOOT_ID_SIZE digest) h) }))"

definition patch_hdr :: "boot_img \<Rightarrow> rp \<Rightarrow> dyn_img_hdr \<Rightarrow> bytes \<Rightarrow> bytes option" where
  "patch_hdr b s h m =
     (if AMONET_FLAG \<in> bi_flags b then
        do { space \<leftarrow> hdr_space h;
             wr m (off_header s + AMONET_MICROLOADER_SZ)
               (take (min (unat (space - of_nat AMONET_MICROLOADER_SZ)) (hdr_size h)) (dh_raw h)) }
      else wr m (off_header s) (dh_raw h))"

definition patch_avb :: "'l magiskboot \<Rightarrow> boot_img \<Rightarrow> rp \<Rightarrow> nat \<Rightarrow> bytes \<Rightarrow> bytes option" where
  "patch_avb mb b s sz m =
     (if AVB_FLAG \<notin> bi_flags b then Some m
      else if sz < AvbFooter_sz then None
      else
        do { footer \<leftarrow> bi_avb_footer b;
             d \<leftarrow> rd (bi_mem b) footer AvbFooter_sz;
             m \<leftarrow> wr m (sz - AvbFooter_sz) d;
             m \<leftarrow> wr m (sz - AvbFooter_sz + AvbFooter_original_image_size_off) (be_bytes 8 (off_total s));
             m \<leftarrow> wr m (sz - AvbFooter_sz + AvbFooter_vbmeta_offset_off) (be_bytes 8 (off_vbmeta s));
             if mb_patchvbmeta mb then wr m (off_vbmeta s + AvbVBMeta_flags_off) (be_bytes 4 3) else Some m })"

definition patch_loader :: "'l magiskboot \<Rightarrow> boot_img \<Rightarrow> rp \<Rightarrow> bytes \<Rightarrow> bytes option" where
  "patch_loader mb b s m =
     (if DHTB_FLAG \<in> bi_flags b then
        do { m \<leftarrow> wr m 0 DHTB_MAGIC;
             let n = sub32 (off_total s) dhtb_hdr_sz;
             m \<leftarrow> wr m dhtb_hdr_size_off (le_bytes 4 n);
             d \<leftarrow> rd m dhtb_hdr_sz n;
             wr m dhtb_hdr_checksum_off (mb_sha mb False d) }
      else if BLOB_FLAG \<in> bi_flags b then wr m blob_hdr_size_off (le_bytes 4 (sub32 (off_total s) blob_hdr_sz))
      else Some m)"

definition patch_sign :: "'l magiskboot \<Rightarrow> boot_img \<Rightarrow> rp \<Rightarrow> nat \<Rightarrow> bytes \<Rightarrow> bytes option" where
  "patch_sign mb b s sz m =
     (if AVB1_SIGNED_FLAG \<in> bi_flags b then
        do { payload \<leftarrow> rd m (off_header s) (sub32 (off_total s) (off_header s));
             let sig = mb_sign mb payload ''/boot'' None None;
             Some (take (off_total s) (take sz m) @ sig @ drop (off_total s + length sig) (take sz m)) }
      else Some (take sz m))"

definition rp_patch :: "'l magiskboot \<Rightarrow> boot_img \<Rightarrow> rp \<Rightarrow> bytes option" where
  "rp_patch mb b s =
     (let out = mmap_file (mb_page mb) (rp_out s); sz = m_sz out in
      do { mh \<leftarrow> patch_mtk b MTK_KERNEL (off_kernel s) F_kernel_size (m_mem out, rp_hdr s);
           (m, h) \<leftarrow> patch_mtk b MTK_RAMDISK (off_ramdisk s) F_ramdisk_size mh;
           let h = hset F_header_size (hdr_size h) h;
           h \<leftarrow> patch_id mb b s m h;
           m \<leftarrow> patch_hdr b s h m;
           m \<leftarrow> patch_avb mb b s sz m;
           m \<leftarrow> patch_loader mb b s m;
           patch_sign mb b s sz m })"

section \<open>The commands\<close>

definition repack_img :: "'l magiskboot \<Rightarrow> boot_img \<Rightarrow> dyn_img_hdr \<Rightarrow> bool \<Rightarrow> fs \<Rightarrow> bytes run option" where
  "repack_img mb b h skip_comp fs =
     do { s \<leftarrow> rp_start b h fs;
          s \<leftarrow> rp_kernel mb b h skip_comp fs s;
          r \<leftarrow> rp_ramdisk mb b h skip_comp fs s;
          case r of
            Exit \<Rightarrow> Some Exit
          | Done (s, table) \<Rightarrow>
              do { s \<leftarrow> rp_blocks mb b h skip_comp fs table s;
                   s \<leftarrow> rp_finish b h s;
                   map_option Done (rp_patch mb b s) } }"

definition repack :: "'l magiskboot \<Rightarrow> bytes \<Rightarrow> string \<Rightarrow> bool \<Rightarrow> fs \<Rightarrow> fs run option" where
  "repack mb src_img out_img skip_comp fs =
     do { r \<leftarrow> boot_open (mb_page mb) (mb_verify mb) src_img;
          case r of
            Exit \<Rightarrow> Some Exit
          | Done b \<Rightarrow>
              do { h \<leftarrow> bi_hdr b;
                   r \<leftarrow> repack_img mb b h skip_comp fs;
                   Some (case r of Exit \<Rightarrow> Exit | Done out \<Rightarrow> Done (fs(out_img \<mapsto> out))) } }"

definition verify_cmd :: "'l magiskboot \<Rightarrow> bytes \<Rightarrow> string option \<Rightarrow> int run option" where
  "verify_cmd mb img cert =
     do { r \<leftarrow> boot_open (mb_page mb) (mb_verify mb) img;
          case r of
            Exit \<Rightarrow> Some Exit
          | Done b \<Rightarrow>
              (case cert of
                 None \<Rightarrow> Some (Done (if AVB1_SIGNED_FLAG \<in> bi_flags b then 0 else 1))
               | Some c \<Rightarrow> do { ok \<leftarrow> img_verify (mb_verify mb) b (Some c); Some (Done (if ok then 0 else 1)) }) }"

text \<open>\<open>sign\<close> writes the signature where the tail starts and wipes what is left of the file.\<close>

definition sign_cmd ::
    "'l magiskboot \<Rightarrow> bytes \<Rightarrow> string \<Rightarrow> string option \<Rightarrow> string option \<Rightarrow> (int \<times> bytes) run option" where
  "sign_cmd mb img name cert key =
     do { r \<leftarrow> boot_open (mb_page mb) (mb_verify mb) img;
          case r of
            Exit \<Rightarrow> Some Exit
          | Done b \<Rightarrow>
              do { payload \<leftarrow> img_view b (bi_payload b);
                   let sig = mb_sign mb payload name cert key;
                   if sig = [] then Some (Done (1, img))
                   else
                     do { let eof = fst (bi_tail b);
                          let head = take eof img @ replicate (eof - length img) 0 @ sig;
                          Some (Done (0, write_zero (@) (length img - length head) head)) } } }"

section \<open>Writing from front to back\<close>

lemma write_zero_append [simp]: "write_zero (@) n out = out @ replicate n 0"
  using write_zero_appends [of id "(@)" n out] by simp

lemma emit_sel [simp]:
  "rp_out (emit d s) = rp_out s @ d" "rp_hdr (emit d s) = rp_hdr s" "off_header (emit d s) = off_header s"
  by (simp_all add: emit_def)

lemma emit_zero_eq: "emit_zero n s = emit (replicate n 0) s"
  by (simp add: emit_zero_def emit_def)

lemma cdiv_pos: "0 \<le> x \<Longrightarrow> 0 < a \<Longrightarrow> cdiv x a = x div a"
  by (cases "x = 0") (simp_all add: cdiv_def)

text \<open>For the page sizes of real images the padding is the distance to the next multiple.\<close>

lemma align_padding_int:
  assumes "0 < p"
  shows "cdiv (int n + int p - 1) (int p) * int p - int n = int (align_up n p - n)"
proof -
  have "int n + int p - 1 = int (n + p - 1)" using assms by simp
  then show ?thesis
    using assms align_up_ge [OF assms, of n] by (simp add: cdiv_pos align_up_def zdiv_int of_nat_diff)
qed

lemma sint_small:
  assumes "unat (pg :: u32) < 2 ^ 31"
  shows "sint pg = int (unat pg)"
proof -
  have "uint pg = int (unat pg)" by simp
  moreover have "int (unat pg) < int (2 ^ 31)" using assms by (simp only: of_nat_less_iff)
  then have "signed_take_bit 31 (int (unat pg)) = int (unat pg)"
    using order_trans [of "- (2 ^ 31)" 0 "int (unat pg)"] by (intro signed_take_bit_int_eq_self) simp_all
  ultimately show ?thesis by (simp only: sint_uint len_bit0 len_num1) simp
qed

lemma file_align_eq:
  assumes "0 < unat pg" and "unat pg < 2 ^ 31" and "off_header s = 0"
  shows "file_align_with pg s =
    Some (emit (replicate (align_up (length (rp_out s)) (unat pg) - length (rp_out s)) 0) s)"
proof -
  define p where "p = unat pg"
  let ?n = "length (rp_out s)"
  have p: "0 < p" "p < 2 ^ 31" "sint pg = int p" using assms sint_small [of pg] by (simp_all add: p_def)
  have "unat (of_int (int (align_up ?n p - ?n)) :: u64) = align_up ?n p - ?n"
    using align_up_less [OF p(1), of ?n] p(2) by (simp add: unat_of_nat)
  then show ?thesis
    using p(1) assms(3) align_padding_int [OF p(1), of ?n]
    by (simp add: file_align_with_def p(3) Let_def emit_zero_eq p_def [symmetric] del: of_int_diff of_int_mult)
qed

text \<open>The state while an unchanged image is written again: the output is the first \<open>pos\<close> bytes of the
  original, and the header has the original sizes except for those in \<open>Z\<close>, which are still zero.\<close>

definition rp_at :: "bytes \<Rightarrow> dyn_img_hdr \<Rightarrow> fld set \<Rightarrow> nat \<Rightarrow> rp \<Rightarrow> bool" where
  "rp_at M h0 Z pos s \<longleftrightarrow> rp_out s = take pos M \<and> pos \<le> length M \<and> off_header s = 0 \<and>
     hdr_wf (rp_hdr s) \<and> dh_class (rp_hdr s) = dh_class h0 \<and>
     (\<forall>g. g \<noteq> F_recovery_dtbo_offset \<longrightarrow> hget g (rp_hdr s) = (if g \<in> Z then 0 else hget g h0))"

definition same_offs :: "rp \<Rightarrow> rp \<Rightarrow> bool" where
  "same_offs s s' \<longleftrightarrow> s' = s\<lparr>rp_out := rp_out s', rp_hdr := rp_hdr s'\<rparr>"

lemma same_offs_refl [simp]: "same_offs s s"
  by (simp add: same_offs_def)

lemma same_offs_trans: "same_offs s s' \<Longrightarrow> same_offs s' s'' \<Longrightarrow> same_offs s s''"
  unfolding same_offs_def by (cases s; cases s'; cases s'') simp

lemma same_offs_sel:
  "same_offs s s' \<Longrightarrow> off_header s' = off_header s \<and> off_kernel s' = off_kernel s \<and> off_ramdisk s' = off_ramdisk s \<and>
     off_second s' = off_second s \<and> off_extra s' = off_extra s \<and> off_dtb s' = off_dtb s"
  unfolding same_offs_def by (cases s; cases s') simp

lemma same_offs_emit [simp]: "same_offs s (emit d s)" "same_offs s (set_size f n s)" "same_offs s (add_size f n s)"
  by (simp_all add: same_offs_def emit_def set_size_def add_size_def)

lemma hget_hset_exposed:
  assumes "hdr_wf h" and "dh_class h = dh_class h0" and "hdr_wf h0" and "0 < hget f h0" and "hget f h0 < 2 ^ 32"
    and "f \<noteq> F_page_size" and "f \<noteq> F_recovery_dtbo_offset"
  shows "hget f (hset f (hget f h0) h) = hget f h0"
proof -
  have f: "f \<in> set (exposed (dh_class h))" using assms(2,4,6) by (auto simp: hget_def split: if_splits)
  then have "hwidth h f = 4" using exposed_u32 [OF f assms(7)] by (auto simp: hwidth_def)
  then show ?thesis using hget_hset_same [OF assms(1) f, of "hget f h0"] assms(5) by simp
qed

text \<open>Whole blocks: what lies between the block and the next multiple of the page is zero.\<close>

definition zero_gap :: "bytes \<Rightarrow> nat \<Rightarrow> nat \<Rightarrow> bool" where
  "zero_gap M a e \<longleftrightarrow> a \<le> e \<and> e \<le> length M \<and> slice a (e - a) M = replicate (e - a) 0"

lemma zero_gap_take: "zero_gap M a e \<Longrightarrow> take a M @ replicate (e - a) 0 = take e M"
  unfolding zero_gap_def slice_def by (metis le_add_diff_inverse take_add)

lemma take_slice: "take o1 M @ slice o1 n M = take (o1 + n) M"
  by (simp add: slice_def take_add)

lemma align_block:
  assumes "0 < unat pg" and "unat pg < 2 ^ 31" and "off_header s = 0" and "rp_out s = take e M" and "e \<le> length M"
    and "zero_gap M e (align_up e (unat pg))"
  shows "\<exists>s'. file_align_with pg s = Some s' \<and> same_offs s s' \<and> rp_hdr s' = rp_hdr s \<and>
    rp_out s' = take (align_up e (unat pg)) M"
  using file_align_eq [OF assms(1-3)] assms(4-) zero_gap_take [OF assms(6)]
  by (simp add: min_absorb1)

lemma set_size_at:
  assumes "rp_at M h0 Z pos s" and "hdr_wf h0" and "f \<noteq> F_page_size" and "f \<noteq> F_recovery_dtbo_offset"
    and "0 < hget f h0" and "hget f (rp_hdr s') = hget f h0 \<or> rp_hdr s' = hset f (hget f h0) (rp_hdr s)"
    and "hdr_wf (rp_hdr s')" and "\<And>g. g \<noteq> f \<Longrightarrow> hget g (rp_hdr s') = hget g (rp_hdr s)"
    and "dh_class (rp_hdr s') = dh_class (rp_hdr s)"
    and "rp_out s' = take pos' M" and "pos' \<le> length M" and "off_header s' = 0"
  shows "rp_at M h0 (Z - {f}) pos' s'"
proof -
  have "hget f h0 < 2 ^ 32" using hget_u32 assms(2,4) by blast
  then have "hget f (rp_hdr s') = hget f h0"
    using assms(1,6) hget_hset_exposed [of "rp_hdr s" h0 f] assms(2-5) by (auto simp: rp_at_def)
  then have "hget g (rp_hdr s') = (if g \<in> Z - {f} then 0 else hget g h0)" if "g \<noteq> F_recovery_dtbo_offset" for g
    using that assms(1,8) by (cases "g = f") (auto simp: rp_at_def)
  then show ?thesis using assms by (simp add: rp_at_def)
qed

text \<open>A file copied to its place.\<close>

lemma rp_file_at:
  assumes at: "rp_at M h0 Z pos s" and wf: "hdr_wf h0" and f: "f \<noteq> F_page_size" "f \<noteq> F_recovery_dtbo_offset"
    and pg: "0 < unat (page_size h)" "unat (page_size h) < 2 ^ 31" and dv: "unat (page_size h) dvd pos"
    and n: "n = hget f h0" and fs: "fs name = (if n = 0 then None else Some (slice pos n M))"
    and e: "pos + n \<le> length M" and gap: "zero_gap M (pos + n) (align_up (pos + n) (unat (page_size h)))"
  shows "\<exists>s'. rp_file h fs name f s = Some s' \<and> same_offs s s' \<and>
    rp_at M h0 (Z - {f}) (align_up (pos + n) (unat (page_size h))) s'"
proof (cases "n = 0")
  case True
  then show ?thesis
    using at fs n align_up_idem [OF pg(1) dv] by (auto simp: rp_file_def restore_def rp_at_def)
next
  case False
  let ?s1 = "set_size f n (emit (slice pos n M) s)"
  have l: "length (slice pos n M) = n" using e by (simp add: length_slice)
  have h1: "rp_hdr ?s1 = hset f n (rp_hdr s)" "rp_out ?s1 = take (pos + n) M" "off_header ?s1 = 0"
    using at take_slice [of pos M n] by (simp_all add: set_size_def emit_def rp_at_def)
  obtain s' where s': "file_align_with (page_size h) ?s1 = Some s'" "same_offs ?s1 s'" "rp_hdr s' = rp_hdr ?s1"
      "rp_out s' = take (align_up (pos + n) (unat (page_size h))) M"
    using align_block [OF pg h1(3,2) e gap] by blast
  have so: "same_offs s s'" using same_offs_trans [OF same_offs_trans s'(2)] by (meson same_offs_emit)
  have "rp_at M h0 (Z - {f}) (align_up (pos + n) (unat (page_size h))) s'"
    by (rule set_size_at [OF at wf f])
      (use False n s' h1 at gap so same_offs_sel [OF so] in
        \<open>auto simp: rp_at_def hset_wf hdr.get_put_other zero_gap_def\<close>)
  moreover have "rp_file h fs name f s = Some s'"
    using False fs s'(1) l by (simp add: rp_file_def restore_def)
  ultimately show ?thesis using so by blast
qed

lemma rp_at_upd [simp]:
  "rp_at M h0 Z pos (s\<lparr>off_kernel := x\<rparr>) = rp_at M h0 Z pos s"
  "rp_at M h0 Z pos (s\<lparr>off_ramdisk := x\<rparr>) = rp_at M h0 Z pos s"
  "rp_at M h0 Z pos (s\<lparr>off_second := x\<rparr>) = rp_at M h0 Z pos s"
  "rp_at M h0 Z pos (s\<lparr>off_extra := x\<rparr>) = rp_at M h0 Z pos s"
  "rp_at M h0 Z pos (s\<lparr>off_dtb := x\<rparr>) = rp_at M h0 Z pos s"
  "rp_at M h0 Z pos (s\<lparr>off_total := x\<rparr>) = rp_at M h0 Z pos s"
  by (simp_all add: rp_at_def)

lemma here_at: "rp_at M h0 Z pos s \<Longrightarrow> length M < 2 ^ 32 \<Longrightarrow> here s = pos"
  by (simp add: here_def rp_at_def unat_of_nat min_absorb1)

text \<open>Without compression the extra block and the ramdisk are copied like the other files.\<close>

lemma put_block_skip [simp]: "put_block L page True fmt file s = Some (emit file s, length file)"
  by (simp add: put_block_def)

lemma rp_extra_skip: "rp_extra mb b h True fs s = rp_file h fs EXTRA_FILE F_extra_size s"
  by (simp add: rp_extra_def rp_file_def restore_def split: option.split)

lemma rp_ramdisk_skip:
  assumes "MTK_RAMDISK \<notin> bi_flags b" and "hget F_vendor_ramdisk_table_size h = 0"
  shows "rp_ramdisk mb b h True fs s =
    map_option (\<lambda>s. Done (s, [])) (rp_file h fs RAMDISK_FILE F_ramdisk_size (s\<lparr>off_ramdisk := here s\<rparr>))"
proof -
  have m: "Option.bind x (\<lambda>s. Some (g s)) = map_option g x" for x :: "rp option" and g :: "rp \<Rightarrow> (rp \<times> table_entry list) run"
    by (cases x) simp_all
  show ?thesis using assms by (simp add: rp_ramdisk_def rp_file_def restore_def Let_def m split: option.split)
qed

text \<open>The kernel and the device tree that was cut from it.\<close>

lemma rp_kernel_at:
  assumes at: "rp_at M h0 Z pos s" and wf: "hdr_wf h0"
    and pg: "0 < unat (page_size h)" "unat (page_size h) < 2 ^ 31" and dv: "unat (page_size h) dvd pos"
    and fl: "MTK_KERNEL \<notin> bi_flags b" "ZIMAGE_KERNEL \<notin> bi_flags b"
    and k: "k = hget F_kernel_size h" "k + t = hget F_kernel_size h0" "k = 0 \<Longrightarrow> t = 0"
    and fs: "fs KERNEL_FILE = (if k = 0 then None else Some (slice pos k M))"
      "fs KER_DTB_FILE = (if t = 0 then None else Some (slice (pos + k) t M))"
    and e: "pos + (k + t) \<le> length M" and gap: "zero_gap M (pos + (k + t)) (align_up (pos + (k + t)) (unat (page_size h)))"
  shows "\<exists>s'. rp_kernel mb b h True fs s = Some s' \<and> same_offs (s\<lparr>off_kernel := here s\<rparr>) s' \<and>
    rp_at M h0 (Z - {F_kernel_size}) (align_up (pos + (k + t)) (unat (page_size h))) s'"
proof (cases "k = 0")
  case True
  let ?s0 = "s\<lparr>off_kernel := here s\<rparr>"
  have z: "align_up pos (unat (page_size h)) = pos" "t = 0" using align_up_idem [OF pg(1) dv] k(3) True by simp_all
  obtain s' where s': "file_align_with (page_size h) ?s0 = Some s'" "same_offs ?s0 s'" "rp_hdr s' = rp_hdr ?s0"
      "rp_out s' = take pos M"
    using at align_block [OF pg, of ?s0 pos M] gap z True by (auto simp: rp_at_def)
  have "rp_kernel mb b h True fs s = Some s'"
    using fs fl k True z s'(1) by (simp add: rp_kernel_def restore_def Let_def)
  moreover have "rp_at M h0 (Z - {F_kernel_size}) pos s'"
    using at s' same_offs_sel [OF s'(2)] k True z by (auto simp: rp_at_def)
  ultimately show ?thesis using s'(2) z True by auto
next
  case False
  let ?s0 = "s\<lparr>off_kernel := here s\<rparr>"
  let ?s1 = "set_size F_kernel_size k (emit (slice pos k M) ?s0)"
  let ?s2 = "if t = 0 then ?s1 else add_size F_kernel_size t (emit (slice (pos + k) t M) ?s1)"
  have l: "length (slice pos k M) = k" "length (slice (pos + k) t M) = t" using e by (simp_all add: length_slice)
  have run: "rp_kernel mb b h True fs s = file_align_with (page_size h) ?s2"
    using False fs fl l by (auto simp: rp_kernel_def rp_kernel_file_def restore_def Let_def)
  have out: "rp_out ?s2 = take (pos + (k + t)) M" "off_header ?s2 = 0"
    using at take_slice [of pos M k] take_slice [of "pos + k" M t]
    by (auto simp: set_size_def add_size_def emit_def rp_at_def add.assoc)
  obtain s' where s': "file_align_with (page_size h) ?s2 = Some s'" "same_offs ?s2 s'" "rp_hdr s' = rp_hdr ?s2"
      "rp_out s' = take (align_up (pos + (k + t)) (unat (page_size h))) M"
    using align_block [OF pg out(2,1) e gap] by blast
  have lt: "k < 2 ^ 32" "k + t < 2 ^ 32" using hget_u32 [OF wf, of F_kernel_size] k by simp_all
  have x: "F_kernel_size \<in> set (exposed (dh_class (rp_hdr s)))"
    using at False k(2) by (auto simp: rp_at_def hget_def split: if_splits)
  have w: "hdr_wf (rp_hdr s)" using at by (simp add: rp_at_def)
  have g: "hget F_kernel_size (hset F_kernel_size v hh) = v"
    if "v < 2 ^ 32" "hdr_wf hh" "dh_class hh = dh_class (rp_hdr s)" for v hh
    using hget_hset_same [of hh F_kernel_size v] that x exposed_u32 [OF x] by (auto simp: hwidth_def)
  have "same_offs ?s0 ?s2" by (simp add: same_offs_def set_size_def add_size_def emit_def)
  then have so: "same_offs ?s0 s'" using same_offs_trans s'(2) by blast
  have "hget F_kernel_size (rp_hdr ?s2) = k + t"
    using g [OF lt(1) w refl] g [OF lt(2), of "hset F_kernel_size k (rp_hdr s)"] hset_wf [OF w]
    by (simp add: set_size_def add_size_def emit_def)
  moreover have "rp_at M h0 (Z - {F_kernel_size}) (align_up (pos + (k + t)) (unat (page_size h))) s'"
    by (rule set_size_at [OF at wf])
      (use False k s' at gap so same_offs_sel [OF so] calculation hset_wf [OF w] in
        \<open>auto simp: rp_at_def hset_wf hdr.get_put_other zero_gap_def set_size_def add_size_def emit_def\<close>)
  ultimately show ?thesis using so run s'(1) by auto
qed

text \<open>The remaining blocks. \<open>places\<close> says where each block starts, as \<open>get_blocks\<close> computes it.\<close>

fun places :: "dyn_img_hdr \<Rightarrow> (blk \<Rightarrow> nat option) \<Rightarrow> blk list \<Rightarrow> nat \<Rightarrow> nat \<Rightarrow> bool" where
  "places h ptr [] pos e \<longleftrightarrow> e = pos"
| "places h ptr (k # ks) pos e \<longleftrightarrow>
     ptr k = Some pos \<and> places h ptr ks (align_up (pos + hget (blk_size k) h) (unat (page_size h))) e"

text \<open>The bytes between the blocks are zero.\<close>

fun gaps :: "dyn_img_hdr \<Rightarrow> bytes \<Rightarrow> blk list \<Rightarrow> nat \<Rightarrow> bool" where
  "gaps h M [] pos \<longleftrightarrow> True"
| "gaps h M (k # ks) pos \<longleftrightarrow>
     zero_gap M (pos + hget (blk_size k) h) (align_up (pos + hget (blk_size k) h) (unat (page_size h))) \<and>
     gaps h M ks (align_up (pos + hget (blk_size k) h) (unat (page_size h)))"

lemma signature_at:
  assumes at: "rp_at M h0 Z pos s" and pg: "0 < unat (page_size h)" "unat (page_size h) < 2 ^ 31"
    and dv: "unat (page_size h) dvd pos" and b: "bi_mem b = M" "bi_ptr b B_signature = Some pos"
    and n: "n = hget F_signature_size h" and e: "pos + n \<le> length M"
    and gap: "zero_gap M (pos + n) (align_up (pos + n) (unat (page_size h)))"
  shows "\<exists>s'. rp_signature b h s = Some s' \<and> same_offs s s' \<and>
    rp_at M h0 Z (align_up (pos + n) (unat (page_size h))) s'"
proof (cases "n = 0")
  case True
  then show ?thesis using at n align_up_idem [OF pg(1) dv] by (auto simp: rp_signature_def)
next
  case False
  let ?s1 = "emit (slice pos n M) s"
  have "rp_out ?s1 = take (pos + n) M" "off_header ?s1 = 0" using at take_slice [of pos M n] by (simp_all add: rp_at_def)
  from align_block [OF pg this(2,1) e gap] obtain s' where s': "file_align_with (page_size h) ?s1 = Some s'"
      "same_offs ?s1 s'" "rp_hdr s' = rp_hdr ?s1" "rp_out s' = take (align_up (pos + n) (unat (page_size h))) M" by blast
  then have so: "same_offs s s'" using same_offs_trans same_offs_emit(1) by blast
  have "rp_at M h0 Z (align_up (pos + n) (unat (page_size h))) s'"
    using at s' same_offs_sel [OF so] gap by (auto simp: rp_at_def zero_gap_def)
  then show ?thesis using so s'(1) False n b e by (auto simp: rp_signature_def emit_img_def rd_def)
qed

lemma set_rdo_at:
  "rp_at M h0 Z pos s \<Longrightarrow> rp_at M h0 Z pos (set_size F_recovery_dtbo_offset v s)"
  by (simp add: rp_at_def set_size_def hset_wf hdr.get_put_other)

text \<open>A file holds the block it was unpacked from, if that is not empty.\<close>

definition holds :: "fs \<Rightarrow> string \<Rightarrow> bytes \<Rightarrow> nat \<Rightarrow> nat \<Rightarrow> bool" where
  "holds fs name M pos n \<longleftrightarrow> fs name = (if n = 0 then None else Some (slice pos n M))"

lemma rp_file_step:
  assumes "rp_at M h0 Z pos s" and "hdr_wf h0" and "0 < unat (page_size h0)" and "unat (page_size h0) < 2 ^ 31"
    and "page_size h = page_size h0" and "unat (page_size h0) dvd pos" and "gaps h0 M (k # ks) pos"
    and "holds fs name M pos (hget (blk_size k) h0)"
  obtains s' where "rp_file h fs name (blk_size k) s = Some s'" and "same_offs s s'"
    and "rp_at M h0 (Z - {blk_size k}) (align_up (pos + hget (blk_size k) h0) (unat (page_size h0))) s'"
    and "unat (page_size h0) dvd align_up (pos + hget (blk_size k) h0) (unat (page_size h0))"
    and "gaps h0 M ks (align_up (pos + hget (blk_size k) h0) (unat (page_size h0)))"
proof -
  have "blk_size k \<noteq> F_page_size" "blk_size k \<noteq> F_recovery_dtbo_offset" by (cases k; simp)+
  moreover have "pos + hget (blk_size k) h0 \<le> length M" using assms(7) by (auto simp: zero_gap_def)
  ultimately obtain s' where "rp_file h fs name (blk_size k) s = Some s'" "same_offs s s'"
      "rp_at M h0 (Z - {blk_size k}) (align_up (pos + hget (blk_size k) h0) (unat (page_size h0))) s'"
    using rp_file_at [OF assms(1,2), of "blk_size k" h "hget (blk_size k) h0" fs name] assms(3-8)
    by (auto simp: holds_def)
  then show ?thesis using that assms(7) align_up_dvd by auto
qed

definition late_blks :: "blk list" where
  "late_blks = [B_second, B_extra, B_recovery_dtbo, B_dtb, B_signature, B_vendor_ramdisk_table, B_bootconfig]"

text \<open>The files of the blocks behind the ramdisk.\<close>

definition late_files :: "fs \<Rightarrow> boot_img \<Rightarrow> dyn_img_hdr \<Rightarrow> bytes \<Rightarrow> bool" where
  "late_files fs b h0 M \<longleftrightarrow>
     (\<forall>(k, name) \<in> {(B_second, SECOND_FILE), (B_extra, EXTRA_FILE), (B_recovery_dtbo, RECV_DTBO_FILE),
        (B_dtb, DTB_FILE), (B_bootconfig, BOOTCONFIG_FILE)}.
      \<forall>pos. bi_ptr b k = Some pos \<longrightarrow> holds fs name M pos (hget (blk_size k) h0))"

definition nxt :: "dyn_img_hdr \<Rightarrow> blk \<Rightarrow> nat \<Rightarrow> nat" where
  "nxt h0 k x = align_up (x + hget (blk_size k) h0) (unat (page_size h0))"

lemma late_facts:
  assumes "places h0 (bi_ptr b) late_blks pos e" and "late_files fs b h0 M" and "0 < unat (page_size h0)"
    and "hget F_vendor_ramdisk_table_size h0 = 0"
  obtains pE pR pD pS pB where "pE = nxt h0 B_second pos" and "pR = nxt h0 B_extra pE"
    and "pD = nxt h0 B_recovery_dtbo pR" and "pS = nxt h0 B_dtb pD" and "pB = nxt h0 B_signature pS"
    and "bi_ptr b B_second = Some pos" and "bi_ptr b B_extra = Some pE" and "bi_ptr b B_dtb = Some pD"
    and "bi_ptr b B_signature = Some pS" and "e = nxt h0 B_bootconfig pB"
    and "holds fs SECOND_FILE M pos (hget F_second_size h0)" and "holds fs EXTRA_FILE M pE (hget F_extra_size h0)"
    and "holds fs RECV_DTBO_FILE M pR (hget F_recovery_dtbo_size h0)" and "holds fs DTB_FILE M pD (hget F_dtb_size h0)"
    and "holds fs BOOTCONFIG_FILE M pB (hget F_bootconfig_size h0)" and "unat (page_size h0) dvd pB"
    and "nxt h0 B_vendor_ramdisk_table pB = pB"
proof -
  define pE pR pD pS pB where pd: "pE = nxt h0 B_second pos" "pR = nxt h0 B_extra pE"
    "pD = nxt h0 B_recovery_dtbo pR" "pS = nxt h0 B_dtb pD" "pB = nxt h0 B_signature pS"
  have dB: "unat (page_size h0) dvd pB" by (simp add: pd nxt_def align_up_dvd)
  then have vB: "nxt h0 B_vendor_ramdisk_table pB = pB" using align_up_idem [OF assms(3)] assms(4) by (simp add: nxt_def)
  have ptr: "bi_ptr b B_second = Some pos" "bi_ptr b B_extra = Some pE" "bi_ptr b B_recovery_dtbo = Some pR"
      "bi_ptr b B_dtb = Some pD" "bi_ptr b B_signature = Some pS" "bi_ptr b B_bootconfig = Some pB" "e = nxt h0 B_bootconfig pB"
    using assms(1) vB by (simp_all add: late_blks_def pd nxt_def)
  then show ?thesis using that [OF pd ptr(1,2,4,5,7)] assms(2) dB vB by (simp add: late_files_def)
qed

lemma rp_file_late:
  assumes "rp_at M h0 Z pos s" and "hdr_wf h0 \<and> 0 < unat (page_size h0) \<and> unat (page_size h0) < 2 ^ 31 \<and> page_size h = page_size h0"
    and "unat (page_size h0) dvd pos" and "gaps h0 M (k # ks) pos" and "holds fs name M pos (hget (blk_size k) h0)"
  obtains s' where "rp_file h fs name (blk_size k) s = Some s'" and "same_offs s s'"
    and "rp_at M h0 (Z - {blk_size k}) (nxt h0 k pos) s'" and "unat (page_size h0) dvd nxt h0 k pos"
    and "gaps h0 M ks (nxt h0 k pos)"
  using rp_file_step [OF assms(1)] assms(2-) that unfolding nxt_def by blast

abbreviation sane :: "dyn_img_hdr \<Rightarrow> dyn_img_hdr \<Rightarrow> bool" where
  "sane h h0 \<equiv> hdr_wf h0 \<and> 0 < unat (page_size h0) \<and> unat (page_size h0) < 2 ^ 31 \<and> page_size h = page_size h0"

lemma rp_files_at:
  assumes at: "rp_at M h0 Z pos s" and P: "sane h h0" and dv: "unat (page_size h0) dvd pos"
    and gp: "gaps h0 M late_blks pos" and lm: "length M < 2 ^ 32"
    and pd: "pE = nxt h0 B_second pos" "pR = nxt h0 B_extra pE" "pD = nxt h0 B_recovery_dtbo pR" "pS = nxt h0 B_dtb pD"
    and hold: "holds fs SECOND_FILE M pos (hget F_second_size h0)" "holds fs EXTRA_FILE M pE (hget F_extra_size h0)"
      "holds fs RECV_DTBO_FILE M pR (hget F_recovery_dtbo_size h0)" "holds fs DTB_FILE M pD (hget F_dtb_size h0)"
  shows "\<exists>s'. rp_files mb b h True fs s = Some s' \<and>
    rp_at M h0 (Z - {F_second_size} - {F_extra_size} - {F_recovery_dtbo_size} - {F_dtb_size}) pS s' \<and>
    unat (page_size h0) dvd pS \<and> gaps h0 M [B_signature, B_vendor_ramdisk_table, B_bootconfig] pS \<and>
    off_kernel s' = off_kernel s \<and> off_ramdisk s' = off_ramdisk s \<and>
    off_second s' = pos \<and> off_extra s' = pE \<and> off_dtb s' = pD"
proof -
  let ?s0 = "s\<lparr>off_second := here s\<rparr>"
  obtain s1 where 1: "rp_file h fs SECOND_FILE F_second_size ?s0 = Some s1" "same_offs ?s0 s1"
      "rp_at M h0 (Z - {F_second_size}) pE s1" "unat (page_size h0) dvd pE" "gaps h0 M (tl late_blks) pE"
    using rp_file_late [of M h0 Z pos ?s0 h B_second "tl late_blks" fs SECOND_FILE] at P dv gp hold(1)
    by (auto simp: pd late_blks_def)
  let ?s1 = "s1\<lparr>off_extra := here s1\<rparr>"
  obtain s2 where 2: "rp_extra mb b h True fs ?s1 = Some s2" "same_offs ?s1 s2"
      "rp_at M h0 (Z - {F_second_size} - {F_extra_size}) pR s2" "unat (page_size h0) dvd pR" "gaps h0 M (tl (tl late_blks)) pR"
    using rp_file_late [of M h0 "Z - {F_second_size}" pE ?s1 h B_extra "tl (tl late_blks)" fs EXTRA_FILE]
      1 P hold(2) by (auto simp: pd rp_extra_skip late_blks_def)
  let ?s2 = "case fs RECV_DTBO_FILE of None \<Rightarrow> s2 | Some _ \<Rightarrow> set_size F_recovery_dtbo_offset (length (rp_out s2)) s2"
  have r: "rp_at M h0 (Z - {F_second_size} - {F_extra_size}) pR ?s2" "same_offs s2 ?s2"
    using 2(3) set_rdo_at by (simp_all split: option.split)
  then obtain s3 where 3: "rp_file h fs RECV_DTBO_FILE F_recovery_dtbo_size ?s2 = Some s3" "same_offs ?s2 s3"
      "rp_at M h0 (Z - {F_second_size} - {F_extra_size} - {F_recovery_dtbo_size}) pD s3"
      "unat (page_size h0) dvd pD" "gaps h0 M (tl (tl (tl late_blks))) pD"
    using rp_file_late [of M h0 "Z - {F_second_size} - {F_extra_size}" pR ?s2 h B_recovery_dtbo "tl (tl (tl late_blks))" fs RECV_DTBO_FILE]
      2 P hold(3) by (auto simp: pd late_blks_def)
  let ?s3 = "s3\<lparr>off_dtb := here s3\<rparr>"
  obtain s4 where 4: "rp_file h fs DTB_FILE F_dtb_size ?s3 = Some s4" "same_offs ?s3 s4"
      "rp_at M h0 (Z - {F_second_size} - {F_extra_size} - {F_recovery_dtbo_size} - {F_dtb_size}) pS s4"
      "unat (page_size h0) dvd pS" "gaps h0 M (tl (tl (tl (tl late_blks)))) pS"
    using rp_file_late [of M h0 "Z - {F_second_size} - {F_extra_size} - {F_recovery_dtbo_size}" pD ?s3
        h B_dtb "tl (tl (tl (tl late_blks)))" fs DTB_FILE] 3 P hold(4) by (auto simp: pd late_blks_def)
  have "rp_files mb b h True fs s = Some s4" using 1(1) 2(1) 3(1) 4(1) by (simp add: rp_files_def)
  then show ?thesis
    using 4 same_offs_sel [OF 1(2)] same_offs_sel [OF 2(2)] same_offs_sel [OF r(2)] same_offs_sel [OF 3(2)]
      same_offs_sel [OF 4(2)] here_at [OF at lm] here_at [OF 1(3) lm] here_at [OF 3(3) lm]
    by (simp add: late_blks_def)
qed

lemma rp_blocks_at:
  assumes at: "rp_at M h0 Z pos s" and P: "sane h h0" and dv: "unat (page_size h0) dvd pos"
    and gp: "gaps h0 M late_blks pos" and pl: "places h0 (bi_ptr b) late_blks pos e"
    and fs: "late_files fs b h0 M" and mem: "bi_mem b = M" and sg: "hget F_signature_size h = hget F_signature_size h0"
    and vt: "hget F_vendor_ramdisk_table_size h0 = 0" and lm: "length M < 2 ^ 32"
  shows "\<exists>s'. rp_blocks mb b h True fs [] s = Some s' \<and>
    rp_at M h0 (Z - {F_second_size} - {F_extra_size} - {F_recovery_dtbo_size} - {F_dtb_size} - {F_bootconfig_size}) e s' \<and>
    unat (page_size h0) dvd e \<and> off_kernel s' = off_kernel s \<and> off_ramdisk s' = off_ramdisk s \<and>
    bi_ptr b B_second = Some (off_second s') \<and> bi_ptr b B_extra = Some (off_extra s') \<and> bi_ptr b B_dtb = Some (off_dtb s')"
proof -
  let ?Z = "Z - {F_second_size} - {F_extra_size} - {F_recovery_dtbo_size} - {F_dtb_size}"
  obtain pE pR pD pS pB where pd: "pE = nxt h0 B_second pos" "pR = nxt h0 B_extra pE"
      "pD = nxt h0 B_recovery_dtbo pR" "pS = nxt h0 B_dtb pD" "pB = nxt h0 B_signature pS"
    and ptr: "bi_ptr b B_second = Some pos" "bi_ptr b B_extra = Some pE" "bi_ptr b B_dtb = Some pD"
      "bi_ptr b B_signature = Some pS" "e = nxt h0 B_bootconfig pB"
    and hold: "holds fs SECOND_FILE M pos (hget F_second_size h0)" "holds fs EXTRA_FILE M pE (hget F_extra_size h0)"
      "holds fs RECV_DTBO_FILE M pR (hget F_recovery_dtbo_size h0)" "holds fs DTB_FILE M pD (hget F_dtb_size h0)"
      "holds fs BOOTCONFIG_FILE M pB (hget F_bootconfig_size h0)" and dB: "unat (page_size h0) dvd pB"
    and vB: "nxt h0 B_vendor_ramdisk_table pB = pB"
    using late_facts [OF pl fs _ vt] P by metis
  obtain s4 where 4: "rp_files mb b h True fs s = Some s4" "rp_at M h0 ?Z pS s4" "unat (page_size h0) dvd pS"
      "gaps h0 M [B_signature, B_vendor_ramdisk_table, B_bootconfig] pS"
      "off_kernel s4 = off_kernel s \<and> off_ramdisk s4 = off_ramdisk s \<and> off_second s4 = pos \<and> off_extra s4 = pE \<and> off_dtb s4 = pD"
    using rp_files_at [OF at P dv gp lm pd(1-4) hold(1-4)] by blast
  have g5: "zero_gap M (pS + hget F_signature_size h0) pB" "gaps h0 M [B_vendor_ramdisk_table, B_bootconfig] pB"
    using 4(4) by (simp_all add: pd(5) nxt_def)
  then have "pS + hget F_signature_size h0 \<le> length M" by (auto simp: zero_gap_def)
  then obtain s5 where 5: "rp_signature b h s4 = Some s5" "same_offs s4 s5" "rp_at M h0 ?Z pB s5"
    using signature_at [OF 4(2), of h b "hget F_signature_size h0"] P 4(3) mem ptr(4) sg g5(1) by (auto simp: pd(5) nxt_def)
  have "gaps h0 M [B_bootconfig] pB" using g5(2) vB by (simp add: nxt_def)
  then obtain s6 where 6: "rp_file h fs BOOTCONFIG_FILE F_bootconfig_size s5 = Some s6" "same_offs s5 s6"
      "rp_at M h0 (?Z - {F_bootconfig_size}) e s6" "unat (page_size h0) dvd e"
    using rp_file_late [OF 5(3) P dB, of B_bootconfig "[]" fs BOOTCONFIG_FILE] hold(5) ptr(5) by auto
  then show ?thesis
    using 4(1,5) 5 same_offs_sel [OF 5(2)] same_offs_sel [OF 6(2)] ptr by (simp add: rp_blocks_def)
qed

section \<open>Start and end\<close>

lemma hget_hset_zero:
  assumes "hdr_wf h" and "f \<noteq> F_page_size"
  shows "hget f (hset f 0 h) = 0"
proof (cases "f \<in> set (exposed (dh_class h))")
  case True
  then show ?thesis using hget_hset_same [OF assms(1) True, of 0] by simp
next
  case False
  then show ?thesis using assms(2) by (simp add: hset_def hget_def)
qed

lemma hsets_zero:
  assumes "hdr_wf h" and "F_page_size \<notin> set fs"
  shows "hdr_wf (foldl (\<lambda>h f. hset f 0 h) h fs) \<and> dh_class (foldl (\<lambda>h f. hset f 0 h) h fs) = dh_class h \<and>
    (\<forall>g. hget g (foldl (\<lambda>h f. hset f 0 h) h fs) = (if g \<in> set fs then 0 else hget g h))"
  using assms
proof (induction fs arbitrary: h)
  case (Cons f fs)
  have "hget g (hset f 0 h) = (if g = f then 0 else hget g h)" for g
    using Cons.prems hget_hset_zero [of h f] hdr.get_put_other [of h f g 0] by auto
  then show ?case using Cons.IH [of "hset f 0 h"] Cons.prems hset_wf by auto
qed simp

definition plain_flags :: "boot_img \<Rightarrow> bool" where
  "plain_flags b \<longleftrightarrow> bi_flags b \<subseteq> {SHA256_FLAG}"

lemma rp_start_at:
  assumes "plain_flags b" and "fs HEADER_FILE = None" and "hdr_wf h" and "dh_class h = dh_class h0"
    and "\<And>g. g \<noteq> F_kernel_size \<Longrightarrow> hget g h = hget g h0" and "bi_mem b = M" and "fst (bi_payload b) = 0"
    and "hdr_space h0 = Some sp" and "unat sp \<le> length M"
  shows "\<exists>s. rp_start b h fs = Some s \<and>
    rp_at M h0 {F_kernel_size, F_ramdisk_size, F_second_size, F_dtb_size, F_bootconfig_size} (unat sp) s"
proof -
  let ?fs = "[F_kernel_size, F_ramdisk_size, F_second_size, F_dtb_size, F_bootconfig_size]"
  define h1 where "h1 = foldl (\<lambda>h f. hset f 0 h) h ?fs"
  have h1: "hdr_wf h1" "dh_class h1 = dh_class h" "\<And>g. hget g h1 = (if g \<in> set ?fs then 0 else hget g h)"
    using hsets_zero [OF assms(3), of ?fs] unfolding h1_def by auto
  have "page_size h1 = page_size h0" "hdr_size h1 = hdr_size h0" "is_vendor h1 = is_vendor h0"
    using assms(4,5) h1 by (simp_all add: is_vendor_def hdr_size_def page_size_def)
  then have "hdr_space h1 = Some sp" using assms(8) unfolding hdr_space_def by (simp split: if_splits)
  then have "rp_start b h fs = Some \<lparr>rp_out = take (unat sp) M, rp_hdr = h1, off_header = 0, off_kernel = 0,
      off_ramdisk = 0, off_second = 0, off_extra = 0, off_dtb = 0, off_total = 0, off_vbmeta = 0\<rparr>"
    using assms(1,2,6,7,9)
    by (auto simp: rp_start_def plain_flags_def h1_def emit_img_def emit_def here_def rd_def slice_def Let_def)
  then show ?thesis using h1 assms(4,5,9) by (auto simp: rp_at_def)
qed

lemma rp_finish_at:
  assumes "rp_at M h0 {} e s" and "sane h h0" and "unat (page_size h0) dvd e" and "plain_flags b"
    and "zero_gap M e (m_sz (bi_map b))"
  shows "\<exists>s'. rp_finish b h s = Some s' \<and> rp_out s' = take (m_sz (bi_map b)) M \<and> rp_hdr s' = rp_hdr s \<and> off_header s' = 0 \<and>
    off_kernel s' = off_kernel s \<and> off_ramdisk s' = off_ramdisk s \<and> off_second s' = off_second s \<and>
    off_extra s' = off_extra s \<and> off_dtb s' = off_dtb s"
proof -
  let ?s = "s\<lparr>off_total := here s\<rparr>"
  have al: "align_up e (unat (page_size h0)) = e" using align_up_idem assms(2,3) by blast
  have g: "zero_gap M e e" using assms(1) by (simp add: zero_gap_def slice_def rp_at_def)
  obtain s1 where s1: "file_align_with (page_size h) ?s = Some s1" "same_offs ?s s1" "rp_hdr s1 = rp_hdr ?s" "rp_out s1 = take e M"
    using align_block [of "page_size h" ?s e M] assms(1,2) al g by (auto simp: rp_at_def)
  have le: "e \<le> m_sz (bi_map b)" "m_sz (bi_map b) \<le> length M" using assms(5) by (auto simp: zero_gap_def)
  have "length (rp_out s1) = e" using s1(4) assms(1) by (simp add: rp_at_def min_absorb1)
  then have "rp_finish b h s = Some (if e < m_sz (bi_map b) then emit_zero (m_sz (bi_map b) - e) s1 else s1)"
    using assms(4) s1(1) by (auto simp: rp_finish_def plain_flags_def)
  then show ?thesis
    using s1 same_offs_sel [OF s1(2)] assms(1) le zero_gap_take [OF assms(5)]
    by (cases "e < m_sz (bi_map b)") (auto simp: emit_zero_eq emit_def rp_at_def)
qed

text \<open>The digest is written next to the numbers, not over them.\<close>

lemma hget_hput_id:
  assumes "hdr_wf h" and "has_id (dh_class h)" and "length d = BOOT_ID_SIZE"
  shows "hdr_wf (hput F_id 0 d h) \<and> dh_class (hput F_id 0 d h) = dh_class h \<and> hget g (hput F_id 0 d h) = hget g h"
proof -
  let ?c = "dh_class h"
  obtain q where q: "offsetof (layout ?c) F_id = Some (q, BOOT_ID_SIZE)" "str_off ?c F_id = q"
    using assms(2) by (cases ?c) (auto simp: has_id_def layout_defs size_defs str_off.simps)
  have b: "q + length d \<le> length (dh_raw h)"
    using offsetof_bound [OF q(1)] assms(1,3) by (simp add: hdr_wf_def)
  have wf: "hdr_wf (hput F_id 0 d h)" using assms(1) b q by (simp add: hdr_wf_def hput_def length_splice)
  have c: "dh_class (hput F_id 0 d h) = ?c" by (simp add: hput_def)
  have "hget g (hput F_id 0 d h) = hget g h"
  proof (cases "g \<in> set (exposed ?c)")
    case True
    obtain off n where o: "offsetof (layout ?c) g = Some (off, n)" using exposed_off [OF True] .
    have "off + n \<le> q \<or> q + BOOT_ID_SIZE \<le> off"
      by (rule offsetof_disjoint [OF o q(1)]) (use True assms(2) in \<open>cases ?c; auto simp: has_id_def layout_defs\<close>)
    then have "slice off n (splice (dh_raw h) q d) = slice off n (dh_raw h)"
      using assms(3) by (intro slice_splice_other [OF b]) auto
    moreover have "g \<in> set (exposed (dh_class (hput F_id 0 d h)))" using True c by simp
    then have "hget g (hput F_id 0 d h) = of_le (slice off n (dh_raw (hput F_id 0 d h)))"
      using hget_offset [of g "hput F_id 0 d h"] c o by simp
    ultimately show ?thesis using hget_offset [OF True o] q(2) by (simp add: hput_def)
  next
    case False
    then show ?thesis using hget_hidden c by blast
  qed
  then show ?thesis using wf c by blast
qed


lemma patch_id_at:
  assumes "hdr_wf h" and "\<And>g. g \<notin> {F_recovery_dtbo_offset, F_header_size} \<Longrightarrow> hget g h = hget g h0"
    and "hget F_recovery_dtbo_size h0 = 0"
    and "off_kernel s + hget F_kernel_size h0 \<le> length m" and "off_ramdisk s + hget F_ramdisk_size h0 \<le> length m"
    and "off_second s + hget F_second_size h0 \<le> length m" and "off_extra s + hget F_extra_size h0 \<le> length m"
    and "off_dtb s + hget F_dtb_size h0 \<le> length m" and "\<And>x d. length (mb_sha mb x d) \<le> BOOT_ID_SIZE"
  shows "\<exists>h'. patch_id mb b s m h = Some h' \<and> hdr_wf h' \<and> dh_class h' = dh_class h \<and> (\<forall>g. hget g h' = hget g h)"
proof (cases "has_id (dh_class h)")
  case False
  then show ?thesis using assms(1) by (simp add: patch_id_def)
next
  case True
  have sp: "\<exists>x. sha_part m p (hget g h) = Some x" if "p + hget g h0 \<le> length m" "g \<notin> {F_recovery_dtbo_offset, F_header_size}" for p g
    using that assms(2) by (simp add: sha_part_def rd_def)
  obtain k where "sha_part m (off_kernel s) (hget F_kernel_size h) = Some k" using sp [OF assms(4)] by auto
  moreover obtain r where "sha_part m (off_ramdisk s) (hget F_ramdisk_size h) = Some r" using sp [OF assms(5)] by auto
  moreover obtain sd where "sha_part m (off_second s) (hget F_second_size h) = Some sd" using sp [OF assms(6)] by auto
  moreover obtain e where "sha_part m (off_extra s) (hget F_extra_size h) = Some e" using sp [OF assms(7)] by auto
  moreover obtain t where "sha_part m (off_dtb s) (hget F_dtb_size h) = Some t" using sp [OF assms(8)] by auto
  moreover obtain d where "sha_part m (hget F_recovery_dtbo_offset h) (hget F_recovery_dtbo_size h) = Some d"
    using assms(2,3) by (simp add: sha_part_def)
  ultimately have "\<exists>d. patch_id mb b s m h = Some (hput F_id 0 (pad0 BOOT_ID_SIZE (mb_sha mb (SHA256_FLAG \<notin> bi_flags b) d)) h)"
    using True unfolding patch_id_def Let_def by simp blast
  then show ?thesis using hget_hput_id [OF assms(1) True] assms(9) by (metis length_pad0)
qed

lemma rp_patch_at:
  assumes "plain_flags b" and "mb_page mb = page" and "M = m_mem (mmap_file page img)"
    and "rp_out s = img" and "off_header s = 0" and "hdr_wf (rp_hdr s)" and "hdr_size (rp_hdr s) \<le> length img"
    and "\<And>g. g \<noteq> F_recovery_dtbo_offset \<Longrightarrow> hget g (rp_hdr s) = hget g h0"
    and "hget F_recovery_dtbo_size h0 = 0"
    and "off_kernel s + hget F_kernel_size h0 \<le> length M" and "off_ramdisk s + hget F_ramdisk_size h0 \<le> length M"
    and "off_second s + hget F_second_size h0 \<le> length M" and "off_extra s + hget F_extra_size h0 \<le> length M"
    and "off_dtb s + hget F_dtb_size h0 \<le> length M" and "\<And>x d. length (mb_sha mb x d) \<le> BOOT_ID_SIZE"
  shows "\<exists>h2. rp_patch mb b s = Some (dh_raw h2 @ drop (hdr_size (rp_hdr s)) img) \<and>
    hdr_wf h2 \<and> dh_class h2 = dh_class (rp_hdr s) \<and>
    (\<forall>g. g \<notin> {F_recovery_dtbo_offset, F_header_size} \<longrightarrow> hget g h2 = hget g h0)"
proof -
  let ?h1 = "hset F_header_size (hdr_size (rp_hdr s)) (rp_hdr s)"
  have w1: "hdr_wf ?h1" "dh_class ?h1 = dh_class (rp_hdr s)" using assms(6) hset_wf by simp_all
  have g1: "hget g ?h1 = hget g h0" if "g \<notin> {F_recovery_dtbo_offset, F_header_size}" for g
    using that assms(8) hdr.get_put_other [OF assms(6)] by auto
  obtain h2 where h2: "patch_id mb b s M ?h1 = Some h2" "hdr_wf h2" "dh_class h2 = dh_class (rp_hdr s)"
      "\<And>g. hget g h2 = hget g ?h1"
    using patch_id_at [OF w1(1) g1 assms(9-14), of mb b] assms(15) w1(2) by auto
  have l: "length (dh_raw h2) = hdr_size (rp_hdr s)" using h2(2,3) by (simp add: hdr_wf_def hdr_size_def)
  have "take (length img) M = img" "length img \<le> length M" by (simp_all add: assms(3) mmap_file_def)
  then have "wr M 0 (dh_raw h2) = Some (dh_raw h2 @ drop (hdr_size (rp_hdr s)) M)"
    "take (length img) (dh_raw h2 @ drop (hdr_size (rp_hdr s)) M) = dh_raw h2 @ drop (hdr_size (rp_hdr s)) img"
    using l assms(7) by (auto simp: wr_def take_drop)
  then have "rp_patch mb b s = Some (dh_raw h2 @ drop (hdr_size (rp_hdr s)) img)"
    using assms(1-5) h2(1)
    by (auto simp: rp_patch_def plain_flags_def patch_mtk_def patch_hdr_def patch_avb_def patch_loader_def patch_sign_def
        mmap_file_def Let_def hdr_size_def)
  then show ?thesis using h2 g1 by auto
qed

section \<open>Unpacking and repacking\<close>

text \<open>What \<open>dump\<close> does to the directory.\<close>

definition put_file :: "string \<Rightarrow> bytes \<Rightarrow> nat \<Rightarrow> nat \<Rightarrow> fs \<Rightarrow> fs" where
  "put_file name M pos n fs = (if n = 0 then fs else fs(name \<mapsto> slice pos n M))"

lemma dump_in: "pos + n \<le> length M \<Longrightarrow> dump M pos n name fs = Some (put_file name M pos n fs)"
  by (simp add: dump_def put_file_def rd_def)

lemma put_file_apply:
  "put_file name M pos n fs x = (if x = name \<and> n \<noteq> 0 then Some (slice pos n M) else fs x)"
  by (simp add: put_file_def)

lemma unpack_files:
  assumes M: "bi_mem b = M" and vt: "hget F_vendor_ramdisk_table_size h = 0"
    and kern: "bi_ptr b B_kernel = Some pk" "pk + hget F_kernel_size h \<le> length M"
    and dtb: "bi_kernel_dtb b = (q, t)" "q + t \<le> length M"
    and ptrs: "\<And>k. k \<noteq> B_kernel \<Longrightarrow> \<exists>p. bi_ptr b k = Some p \<and> p + hget (blk_size k) h0 \<le> length M"
    and same: "\<And>g. g \<noteq> F_kernel_size \<Longrightarrow> hget g h = hget g h0"
  shows "\<exists>fs. unpack_img L True False b h Map.empty = Some fs \<and> holds fs KERNEL_FILE M pk (hget F_kernel_size h) \<and>
    fs KER_DTB_FILE = (if t = 0 then None else Some (slice q t M)) \<and>
    (\<forall>p. bi_ptr b B_ramdisk = Some p \<longrightarrow> holds fs RAMDISK_FILE M p (hget F_ramdisk_size h0)) \<and>
    late_files fs b h0 M \<and> fs HEADER_FILE = None"
proof -
  obtain pr where r: "bi_ptr b B_ramdisk = Some pr" "pr + hget F_ramdisk_size h0 \<le> length M" using ptrs [of B_ramdisk] by auto
  obtain ps where s: "bi_ptr b B_second = Some ps" "ps + hget F_second_size h0 \<le> length M" using ptrs [of B_second] by auto
  obtain pe where e: "bi_ptr b B_extra = Some pe" "pe + hget F_extra_size h0 \<le> length M" using ptrs [of B_extra] by auto
  obtain po where o: "bi_ptr b B_recovery_dtbo = Some po" "po + hget F_recovery_dtbo_size h0 \<le> length M"
    using ptrs [of B_recovery_dtbo] by auto
  obtain pd where d: "bi_ptr b B_dtb = Some pd" "pd + hget F_dtb_size h0 \<le> length M" using ptrs [of B_dtb] by auto
  obtain pb where c: "bi_ptr b B_bootconfig = Some pb" "pb + hget F_bootconfig_size h0 \<le> length M"
    using ptrs [of B_bootconfig] by auto
  define fs where "fs = put_file BOOTCONFIG_FILE M pb (hget F_bootconfig_size h0)
    (put_file DTB_FILE M pd (hget F_dtb_size h0) (put_file RECV_DTBO_FILE M po (hget F_recovery_dtbo_size h0)
    (put_file EXTRA_FILE M pe (hget F_extra_size h0) (put_file SECOND_FILE M ps (hget F_second_size h0)
    (put_file RAMDISK_FILE M pr (hget F_ramdisk_size h0) (put_file KER_DTB_FILE M q t
    (put_file KERNEL_FILE M pk (hget F_kernel_size h) Map.empty)))))))"
  have "unpack_img L True False b h Map.empty = Some fs"
    using kern dtb r s e o d c vt
    by (simp add: unpack_img_def dump_block_def dump_raw_def unpack_ramdisk_def same M dump_in fs_def)
  moreover have "holds fs KERNEL_FILE M pk (hget F_kernel_size h)" "fs KER_DTB_FILE = (if t = 0 then None else Some (slice q t M))"
      "holds fs RAMDISK_FILE M pr (hget F_ramdisk_size h0)" "fs HEADER_FILE = None" "late_files fs b h0 M"
    by (simp_all add: holds_def late_files_def fs_def put_file_apply file_defs s e o d c)
  ultimately show ?thesis using r(1) by auto
qed

lemma get_blocks_exact:
  assumes "get_blocks h 0 me ks off b = Some (True, off', b')" and "hdr_wf h" and "unat (page_size h) < 2 ^ 31"
    and "unat off < 2 ^ 63" and "distinct ks"
  shows "places h (bi_ptr b') ks (unat off) (unat off')"
  using assms
proof (induction ks arbitrary: off b)
  case (Cons k ks)
  let ?n = "hget (blk_size k) h"
  obtain o1 where o1: "align_to (off + of_nat ?n) (page_size h) = Some o1" "unat o1 < 2 ^ 63"
      "get_blocks h 0 me ks o1 (set_ptr k (unat off) b) = Some (True, off', b')"
    using Cons.prems(1) by (auto split: bind_splits if_splits)
  have "unat o1 = align_up (unat off + ?n) (unat (page_size h))"
    using align_step [OF o1(1) Cons.prems(3,4) blk_size_u32 [OF Cons.prems(2)] o1(2)] by auto
  moreover have "bi_ptr b' k = Some (unat off)" using get_blocks_frame [OF o1(3)] Cons.prems(5) by auto
  ultimately show ?case using Cons.IH [OF o1(3) Cons.prems(2,3) o1(2)] Cons.prems(5) by simp
qed simp

lemma get_blocks_page:
  assumes "get_blocks h base me (k # ks) off b = Some r"
  shows "0 < unat (page_size h)"
proof -
  have "align_to (off + of_nat (hget (blk_size k) h)) (page_size h) \<noteq> None" using assms by (auto split: bind_splits)
  then show ?thesis by (auto simp: align_to_def unat_gt_0 split: if_splits)
qed

lemma hdr_space_dvd:
  assumes "hdr_space h = Some sp" and "unat (page_size h) < 2 ^ 31" and "0 < unat (page_size h)"
  shows "unat (page_size h) dvd unat sp"
proof (cases "is_vendor h")
  case False
  then have "sp = ucast (page_size h)" using assms(1) by (simp add: hdr_space_def)
  then show ?thesis using unat_u32 [of "page_size h"]
    by (simp add: unsigned_ucast_eq unsigned_take_bit_eq take_bit_nat_eq_self)
next
  case True
  have n: "hdr_size h < 2 ^ 12" by (cases "dh_class h") (simp_all add: hdr_size_def layout_defs size_defs)
  then have u: "unat (of_nat (hdr_size h) :: u64) = hdr_size h" by (simp add: unat_of_nat)
  have "align_up (hdr_size h) (unat (page_size h)) < 2 ^ 63"
    using align_up_less [OF assms(3), of "hdr_size h"] n assms(2) by simp
  moreover have "sp = of_nat (align_up (hdr_size h) (unat (page_size h)))"
    using True assms(1) align_to_nat [OF assms(3,2), of "of_nat (hdr_size h)"] u n assms(2) by (simp add: hdr_space_def)
  ultimately have "unat sp = align_up (hdr_size h) (unat (page_size h))" by (simp add: unat_of_nat)
  then show ?thesis by (simp add: align_up_dvd)
qed

text \<open>Everything the parser established about an image without vendor additions.\<close>

lemma parse_plain:
  assumes parse: "parse_image page vf (boot_new (mmap_file page img)) 0 type = Some (Done (True, b))"
    and hdr: "bi_hdr b = Some h" and cr: "create_hdr (boot_new (mmap_file page img)) 0 type = Some (b0, 0, Some h0)"
    and plain: "plain_flags b" and pg: "unat (page_size h0) < 2 ^ 31" and sp: "hdr_space h0 = Some sp"
  shows "hdr_wf h0" and "hdr_wf h" and "dh_class h = dh_class h0" and "g \<noteq> F_kernel_size \<Longrightarrow> hget g h = hget g h0"
    and "bi_map b = mmap_file page img" and "fst (bi_payload b) = 0" and "0 < unat (page_size h0)"
    and "places h0 (bi_ptr b) all_blks (unat sp) (snd (bi_payload b))"
    and "\<exists>q t. bi_kernel_dtb b = (q, t) \<and> hget F_kernel_size h + t = hget F_kernel_size h0 \<and>
      (hget F_kernel_size h = 0 \<longrightarrow> t = 0) \<and> (t = 0 \<longrightarrow> q = 0) \<and>
      (0 < t \<longrightarrow> bi_ptr b B_kernel = Some (q - hget F_kernel_size h) \<and> hget F_kernel_size h \<le> q)"
proof -
  let ?b = "boot_new (mmap_file page img)"
  obtain b1 b2 base h1 off0 off b3 b4 b5 h3 h4 b6 where s:
      "create_hdr ?b 0 type = Some (b1, base, Some h1)"
      "b2 = (if sha256_id h1 then set_flag SHA256_FLAG b1 else b1)" "hdr_space h1 = Some off0"
      "get_blocks h1 base (align_up (m_sz (bi_map b2)) page) all_blks off0 b2 = Some (True, off, b3)"
      "parse_kernel (b3\<lparr>bi_payload := (base, unat off),
         bi_tail := (base + unat off, align_up (m_sz (bi_map b2)) page - (base + unat off))\<rparr>) h1 = Some (b4, h3)"
      "parse_ramdisk b4 h3 = Some (Done (b5, h4))" "parse_extra b5 h4 = Some b6"
      "\<exists>b7. parse_tail vf b6 base = Some b7 \<and> b = b7\<lparr>bi_hdr := Some h4\<rparr>"
    by (rule parse_image_steps [OF parse])
  then obtain b7 where b7: "parse_tail vf b6 base = Some b7" "b = b7\<lparr>bi_hdr := Some h4\<rparr>" by blast
  have e: "h1 = h0" "base = 0" "off0 = sp" "h4 = h" using s(1,3) cr sp hdr b7(2) by simp_all
  note c = oksD [OF create_hdr_oks s(1)]
  show wf: "hdr_wf h0" using c e by simp
  note s = s [unfolded e] and b7 = b7 [unfolded e]
  note rest = parse_rest_frame [OF s(5-7) b7(1) wf]
  have fl: "MTK_RAMDISK \<notin> bi_flags b7" "MTK_KERNEL \<notin> bi_flags b7 \<and> ZIMAGE_KERNEL \<notin> bi_flags b7"
    using plain b7(2) by (auto simp: plain_flags_def)
  show "hdr_wf h" "dh_class h = dh_class h0" by (rule rest)+
  show "g \<noteq> F_kernel_size \<Longrightarrow> hget g h = hget g h0" using rest(2) [of g] rest(6) [OF fl(1)] by (cases "g = F_ramdisk_size") auto
  have m3: "bi_map b3 = mmap_file page img" "bi_kernel_dtb b3 = (0, 0)"
    using c get_blocks_frame [OF s(4)] s(2) by (auto simp: boot_new_def)
  then show "bi_map b = mmap_file page img" using rest(1) b7(2) by (simp add: img_frame_def)
  have pay: "bi_payload b = (0, unat off)" using rest(1) b7(2) by (simp add: img_frame_def)
  then show "fst (bi_payload b) = 0" by simp
  show "0 < unat (page_size h0)" using get_blocks_page s(4) unfolding all_blks_def by blast
  have x: "bi_ptr b7 B_kernel = bi_ptr b3 B_kernel"
      "(hget F_kernel_size h = hget F_kernel_size h0 \<and> bi_kernel_dtb b7 = (0, 0)) \<or>
        (\<exists>q. bi_ptr b3 B_kernel = Some q \<and> 0 < hget F_kernel_size h \<and> hget F_kernel_size h < hget F_kernel_size h0 \<and>
           bi_kernel_dtb b7 = (q + hget F_kernel_size h, hget F_kernel_size h0 - hget F_kernel_size h))"
    using rest(7) [OF fl(2)] m3(2) by (auto simp: kernel_cut_def)
  have "bi_ptr b k = bi_ptr b3 k" for k
    using rest(5) [of k] rest(6) [OF fl(1)] x(1) b7(2) by (cases k) auto
  then have ptr: "bi_ptr b = bi_ptr b3" by blast
  show "places h0 (bi_ptr b) all_blks (unat sp) (snd (bi_payload b))"
    using get_blocks_exact [OF s(4) wf pg hdr_space_small [OF sp pg] all_blks_all(2)] ptr pay by simp
  show "\<exists>q t. bi_kernel_dtb b = (q, t) \<and> hget F_kernel_size h + t = hget F_kernel_size h0 \<and>
      (hget F_kernel_size h = 0 \<longrightarrow> t = 0) \<and> (t = 0 \<longrightarrow> q = 0) \<and>
      (0 < t \<longrightarrow> bi_ptr b B_kernel = Some (q - hget F_kernel_size h) \<and> hget F_kernel_size h \<le> q)"
    using x ptr b7(2) by auto
qed

lemma gaps_bound:
  "places h ptr ks pos e \<Longrightarrow> gaps h M ks pos \<Longrightarrow> k \<in> set ks \<Longrightarrow>
   \<exists>p. ptr k = Some p \<and> p + hget (blk_size k) h \<le> length M"
  by (induction ks arbitrary: pos) (auto simp: zero_gap_def)

text \<open>The image the theorem is about: the blocks of an accepted image are separated by zeros, zeros follow
  the payload, and nothing but the digest kind is special about it.\<close>

definition plain_image :: "nat \<Rightarrow> verifier \<Rightarrow> bytes \<Rightarrow> format_t \<Rightarrow> boot_img \<Rightarrow> dyn_img_hdr \<Rightarrow> dyn_img_hdr \<Rightarrow> bool" where
  "plain_image page vf img type b h h0 \<longleftrightarrow>
     0 < page \<and> type \<in> {AOSP, AOSP_VENDOR} \<and> check_fmt (m_mem (mmap_file page img)) 0 (length img) = Some type \<and>
     parse_image page vf (boot_new (mmap_file page img)) 0 type = Some (Done (True, b)) \<and> bi_hdr b = Some h \<and>
     (\<exists>b0. create_hdr (boot_new (mmap_file page img)) 0 type = Some (b0, 0, Some h0)) \<and>
     plain_flags b \<and> unat (page_size h0) < 2 ^ 31 \<and> length (m_mem (mmap_file page img)) < 2 ^ 32 \<and>
     hdr_size h0 \<le> length img \<and> hget F_vendor_ramdisk_table_size h0 = 0 \<and> hget F_recovery_dtbo_size h0 = 0 \<and>
     (\<exists>sp. hdr_space h0 = Some sp \<and> unat sp \<le> length img \<and> gaps h0 (m_mem (mmap_file page img)) all_blks (unat sp)) \<and>
     zero_gap (m_mem (mmap_file page img)) (snd (bi_payload b)) (length img)"

lemma repack_blocks_at:
  assumes at: "rp_at M h0 {F_kernel_size, F_ramdisk_size, F_second_size, F_dtb_size, F_bootconfig_size} sp s"
    and P: "sane h h0" and dv: "unat (page_size h0) dvd sp" and gp: "gaps h0 M all_blks sp"
    and pl: "places h0 (bi_ptr b) all_blks sp e" and plain: "plain_flags b" and mem: "bi_mem b = M"
    and same: "\<And>g. g \<noteq> F_kernel_size \<Longrightarrow> hget g h = hget g h0" and vt: "hget F_vendor_ramdisk_table_size h0 = 0"
    and k: "k = hget F_kernel_size h" "k + t = hget F_kernel_size h0" "k = 0 \<Longrightarrow> t = 0"
    and fk: "holds fs KERNEL_FILE M sp k" "holds fs KER_DTB_FILE M (sp + k) t"
    and fr: "\<And>p. bi_ptr b B_ramdisk = Some p \<Longrightarrow> holds fs RAMDISK_FILE M p (hget F_ramdisk_size h0)"
    and fl: "late_files fs b h0 M" and lm: "length M < 2 ^ 32"
  shows "\<exists>s1 s2 s3. rp_kernel mb b h True fs s = Some s1 \<and> rp_ramdisk mb b h True fs s1 = Some (Done (s2, [])) \<and>
    rp_blocks mb b h True fs [] s2 = Some s3 \<and> rp_at M h0 {} e s3 \<and> unat (page_size h0) dvd e \<and>
    off_kernel s3 = sp \<and> bi_ptr b B_ramdisk = Some (off_ramdisk s3) \<and> bi_ptr b B_second = Some (off_second s3) \<and>
    bi_ptr b B_extra = Some (off_extra s3) \<and> bi_ptr b B_dtb = Some (off_dtb s3)"
proof -
  let ?Z = "{F_kernel_size, F_ramdisk_size, F_second_size, F_dtb_size, F_bootconfig_size}"
  have flg: "MTK_KERNEL \<notin> bi_flags b" "ZIMAGE_KERNEL \<notin> bi_flags b" "MTK_RAMDISK \<notin> bi_flags b"
    using plain by (auto simp: plain_flags_def)
  define p1 where "p1 = nxt h0 B_kernel sp"
  define p2 where "p2 = nxt h0 B_ramdisk p1"
  have g: "zero_gap M (sp + (k + t)) p1" "gaps h0 M (B_ramdisk # late_blks) p1" "gaps h0 M late_blks p2"
    using gp k(2) by (simp_all add: all_blks_def late_blks_def p1_def p2_def nxt_def)
  have p: "bi_ptr b B_ramdisk = Some p1" "places h0 (bi_ptr b) late_blks p2 e"
    using pl by (simp_all add: all_blks_def late_blks_def p1_def p2_def nxt_def)
  have d1: "unat (page_size h0) dvd p1" "unat (page_size h0) dvd p2" by (simp_all add: p1_def p2_def nxt_def align_up_dvd)
  obtain s1 where 1: "rp_kernel mb b h True fs s = Some s1" "same_offs (s\<lparr>off_kernel := here s\<rparr>) s1"
      "rp_at M h0 (?Z - {F_kernel_size}) p1 s1"
    using rp_kernel_at [OF at, of h b k t fs mb] P dv flg k fk g(1) by (auto simp: holds_def p1_def nxt_def zero_gap_def)
  let ?s1 = "s1\<lparr>off_ramdisk := here s1\<rparr>"
  obtain s2 where 2: "rp_file h fs RAMDISK_FILE F_ramdisk_size ?s1 = Some s2" "same_offs ?s1 s2"
      "rp_at M h0 (?Z - {F_kernel_size} - {F_ramdisk_size}) p2 s2"
    using rp_file_late [of M h0 "?Z - {F_kernel_size}" p1 ?s1 h B_ramdisk late_blks fs RAMDISK_FILE] 1(3) P d1(1) g(2) fr [OF p(1)]
    by (auto simp: p2_def)
  have r: "rp_ramdisk mb b h True fs s1 = Some (Done (s2, []))"
    using rp_ramdisk_skip [OF flg(3), of h mb fs s1] 2(1) same vt by simp
  obtain s3 where 3: "rp_blocks mb b h True fs [] s2 = Some s3"
      "rp_at M h0 (?Z - {F_kernel_size} - {F_ramdisk_size} - {F_second_size} - {F_extra_size} - {F_recovery_dtbo_size} - {F_dtb_size} - {F_bootconfig_size}) e s3"
      "unat (page_size h0) dvd e" "off_kernel s3 = off_kernel s2 \<and> off_ramdisk s3 = off_ramdisk s2 \<and>
        bi_ptr b B_second = Some (off_second s3) \<and> bi_ptr b B_extra = Some (off_extra s3) \<and> bi_ptr b B_dtb = Some (off_dtb s3)"
    using rp_blocks_at [OF 2(3) P d1(2) g(3) p(2) fl mem same vt lm, of mb] by auto
  have "?Z - {F_kernel_size} - {F_ramdisk_size} - {F_second_size} - {F_extra_size} - {F_recovery_dtbo_size} - {F_dtb_size} - {F_bootconfig_size} = {}"
    by auto
  then show ?thesis
    using 1(1) r 3 p(1) same_offs_sel [OF 1(2)] same_offs_sel [OF 2(2)] here_at [OF at lm] here_at [OF 1(3) lm] by auto
qed

lemma boot_open_at0:
  assumes "0 < length img" and "type \<in> {AOSP, AOSP_VENDOR}"
    and "check_fmt (m_mem (mmap_file page img)) 0 (length img) = Some type"
    and "parse_image page vf (boot_new (mmap_file page img)) 0 type = Some (Done (True, b))"
  shows "boot_open page vf img = Some (Done b)"
proof -
  have "bi_map (boot_new (mmap_file page img)) = mmap_file page img" "m_sz (mmap_file page img) = length img"
    by (simp_all add: boot_new_def mmap_file_def)
  then show ?thesis unfolding boot_open_def using assms by (subst boot_scan.simps) (auto split: format_t.split)
qed

lemma repack_plain:
  assumes w: "plain_image page vf img type b h h0" and mb: "mb_page mb = page" "\<forall>x d. length (mb_sha mb x d) \<le> BOOT_ID_SIZE"
    and sp: "hdr_space h0 = Some sp" and gp: "gaps h0 (m_mem (mmap_file page img)) all_blks (unat sp)"
    and pl: "places h0 (bi_ptr b) all_blks (unat sp) (snd (bi_payload b))"
    and pw: "hdr_wf h" "dh_class h = dh_class h0" "bi_map b = mmap_file page img" "fst (bi_payload b) = 0" "sane h h0"
    and same: "\<And>g. g \<noteq> F_kernel_size \<Longrightarrow> hget g h = hget g h0"
    and k: "k = hget F_kernel_size h" "k + t = hget F_kernel_size h0" "k = 0 \<Longrightarrow> t = 0"
    and fk: "holds fs KERNEL_FILE (m_mem (mmap_file page img)) (unat sp) k"
      "holds fs KER_DTB_FILE (m_mem (mmap_file page img)) (unat sp + k) t"
    and fr: "\<And>p. bi_ptr b B_ramdisk = Some p \<Longrightarrow> holds fs RAMDISK_FILE (m_mem (mmap_file page img)) p (hget F_ramdisk_size h0)"
    and fl: "late_files fs b h0 (m_mem (mmap_file page img))" "fs HEADER_FILE = None"
  shows "\<exists>h2. repack_img mb b h True fs = Some (Done (dh_raw h2 @ drop (hdr_size h0) img)) \<and> hdr_wf h2 \<and>
    dh_class h2 = dh_class h0 \<and> (\<forall>g. g \<notin> {F_recovery_dtbo_offset, F_header_size} \<longrightarrow> hget g h2 = hget g h0)"
proof -
  let ?M = "m_mem (mmap_file page img)"
  have a: "plain_flags b" "length ?M < 2 ^ 32" "hdr_size h0 \<le> length img" "hget F_vendor_ramdisk_table_size h0 = 0"
      "hget F_recovery_dtbo_size h0 = 0" "unat sp \<le> length img" "zero_gap ?M (snd (bi_payload b)) (length img)"
    using w sp by (auto simp: plain_image_def)
  have mem: "bi_mem b = ?M" "m_sz (bi_map b) = length img" "length img \<le> length ?M" "take (length img) ?M = img"
    using pw(3) by (simp_all add: mmap_file_def)
  have dv: "unat (page_size h0) dvd unat sp" using hdr_space_dvd [OF sp] pw(5) by simp
  have bnd: "\<exists>p. bi_ptr b k = Some p \<and> p + hget (blk_size k) h0 \<le> length ?M" for k
    using gaps_bound [OF pl gp] all_blks_all(1) by blast
  have pk: "bi_ptr b B_kernel = Some (unat sp)" using pl by (simp add: all_blks_def)
  obtain s0 where 0: "rp_start b h fs = Some s0"
      "rp_at ?M h0 {F_kernel_size, F_ramdisk_size, F_second_size, F_dtb_size, F_bootconfig_size} (unat sp) s0"
    using rp_start_at [where fs = fs, OF a(1) fl(2) pw(1,2) _ mem(1) pw(4) sp] same a(6) mem(3) by auto
  obtain s1 s2 s3 where 1: "rp_kernel mb b h True fs s0 = Some s1" "rp_ramdisk mb b h True fs s1 = Some (Done (s2, []))"
      "rp_blocks mb b h True fs [] s2 = Some s3" and at3: "rp_at ?M h0 {} (snd (bi_payload b)) s3"
      "unat (page_size h0) dvd snd (bi_payload b)"
    and o3: "off_kernel s3 = unat sp" "bi_ptr b B_ramdisk = Some (off_ramdisk s3)" "bi_ptr b B_second = Some (off_second s3)"
      "bi_ptr b B_extra = Some (off_extra s3)" "bi_ptr b B_dtb = Some (off_dtb s3)"
    using repack_blocks_at [OF 0(2) pw(5) dv gp pl a(1) mem(1) _ a(4) k(1,2) _ fk _ fl(1) a(2), of mb] same k(3) fr by blast
  obtain s4 where 4: "rp_finish b h s3 = Some s4" "rp_out s4 = img" "rp_hdr s4 = rp_hdr s3" "off_header s4 = 0"
      "off_kernel s4 = off_kernel s3 \<and> off_ramdisk s4 = off_ramdisk s3 \<and> off_second s4 = off_second s3 \<and>
       off_extra s4 = off_extra s3 \<and> off_dtb s4 = off_dtb s3"
    using rp_finish_at [OF at3(1) pw(5) at3(2) a(1)] a(7) mem by auto
  have h3: "hdr_wf (rp_hdr s4)" "dh_class (rp_hdr s4) = dh_class h0" "hdr_size (rp_hdr s4) = hdr_size h0"
      "\<And>g. g \<noteq> F_recovery_dtbo_offset \<Longrightarrow> hget g (rp_hdr s4) = hget g h0"
    using at3(1) 4(3) by (simp_all add: rp_at_def hdr_size_def)
  have "\<exists>h2. rp_patch mb b s4 = Some (dh_raw h2 @ drop (hdr_size (rp_hdr s4)) img) \<and>
    hdr_wf h2 \<and> dh_class h2 = dh_class (rp_hdr s4) \<and>
    (\<forall>g. g \<notin> {F_recovery_dtbo_offset, F_header_size} \<longrightarrow> hget g h2 = hget g h0)"
    by (rule rp_patch_at [OF a(1) mb(1) refl 4(2,4) h3(1) _ h3(4) a(5)])
      (use a(3) h3(3) 4(5) o3 bnd [of B_kernel] bnd [of B_ramdisk] bnd [of B_second] bnd [of B_extra] bnd [of B_dtb] pk mb(2) in auto)
  then show ?thesis using 0(1) 1 4(1) h3(2,3) by (auto simp: repack_img_def)
qed

text \<open>C1: an image that is unpacked and repacked without changes (and without recompressing) comes back: \<open>unpack\<close>
  and \<open>repack\<close> both succeed, the new image has the same bytes behind the header, and the new header
  has the same fields except for its own size and the offset of the recovery device tree (its digest is computed again).\<close>

theorem unpack_repack:
  assumes "plain_image page (mb_verify mb) img type b h h0" and "mb_page mb = page"
    and "\<forall>x d. length (mb_sha mb x d) \<le> BOOT_ID_SIZE"
  shows "\<exists>fs h2. unpack (mb_codecs mb) page (mb_verify mb) img True False Map.empty = Some (Done (0, fs)) \<and>
    repack mb img NEW_BOOT True fs = Some (Done (fs(NEW_BOOT \<mapsto> dh_raw h2 @ drop (hdr_size h0) img))) \<and>
    length (dh_raw h2) = hdr_size h0 \<and> dh_class h2 = dh_class h0 \<and>
    (\<forall>g. g \<notin> {F_header_size, F_recovery_dtbo_offset} \<longrightarrow> hget g h2 = hget g h0)"
proof -
  let ?M = "m_mem (mmap_file page img)"
  obtain b0 sp where a: "type \<in> {AOSP, AOSP_VENDOR}" "check_fmt ?M 0 (length img) = Some type"
      "parse_image page (mb_verify mb) (boot_new (mmap_file page img)) 0 type = Some (Done (True, b))" "bi_hdr b = Some h"
      "create_hdr (boot_new (mmap_file page img)) 0 type = Some (b0, 0, Some h0)" "plain_flags b"
      "unat (page_size h0) < 2 ^ 31" "hdr_space h0 = Some sp" "gaps h0 ?M all_blks (unat sp)"
      "hget F_vendor_ramdisk_table_size h0 = 0" "hdr_size h0 \<le> length img"
    using assms(1) by (auto simp: plain_image_def)
  note pp = parse_plain [OF a(3-8)]
  have mem: "bi_mem b = ?M" using pp(5) by simp
  have "0 < hdr_size h0" by (cases "dh_class h0") (simp_all add: hdr_size_def layout_defs size_defs)
  then have opn: "boot_open page (mb_verify mb) img = Some (Done b)" using boot_open_at0 [OF _ a(1-3)] a(11) by linarith
  have P: "sane h h0" using pp a(7) by (simp add: page_size_def)
  have bnd: "\<exists>p. bi_ptr b k = Some p \<and> p + hget (blk_size k) h0 \<le> length ?M" for k
    using gaps_bound [OF pp(8) a(9)] all_blks_all(1) by blast
  have pk: "bi_ptr b B_kernel = Some (unat sp)" using pp(8) by (simp add: all_blks_def)
  obtain q t where qt: "bi_kernel_dtb b = (q, t)" "hget F_kernel_size h + t = hget F_kernel_size h0"
      "hget F_kernel_size h = 0 \<Longrightarrow> t = 0" "t = 0 \<Longrightarrow> q = 0" "0 < t \<Longrightarrow> q = unat sp + hget F_kernel_size h"
    using pp(9) pk by auto
  have kb: "unat sp + hget F_kernel_size h0 \<le> length ?M" using bnd [of B_kernel] pk by simp
  have qb: "q + t \<le> length ?M" using qt kb by (cases "t = 0") auto
  obtain fs where fs: "unpack_img (mb_codecs mb) True False b h Map.empty = Some fs"
      "holds fs KERNEL_FILE ?M (unat sp) (hget F_kernel_size h)" "fs KER_DTB_FILE = (if t = 0 then None else Some (slice q t ?M))"
      "\<And>p. bi_ptr b B_ramdisk = Some p \<Longrightarrow> holds fs RAMDISK_FILE ?M p (hget F_ramdisk_size h0)" "late_files fs b h0 ?M"
      "fs HEADER_FILE = None"
    using unpack_files [OF mem _ pk _ qt(1) qb bnd, of h "mb_codecs mb"] pp(4) a(10) kb qt(2) by auto
  have kd: "holds fs KER_DTB_FILE ?M (unat sp + hget F_kernel_size h) t" using fs(3) qt(5) by (simp add: holds_def)
  obtain h2 where h2: "repack_img mb b h True fs = Some (Done (dh_raw h2 @ drop (hdr_size h0) img))" "hdr_wf h2"
      "dh_class h2 = dh_class h0" "\<And>g. g \<notin> {F_recovery_dtbo_offset, F_header_size} \<Longrightarrow> hget g h2 = hget g h0"
    using repack_plain [where fs = fs, OF assms a(8,9) pp(8) pp(2,3,5,6) P _ refl qt(2) _ fs(2) kd _ fs(5,6)] pp(4) qt(3) fs(4) by blast
  have "CHROMEOS_FLAG \<notin> bi_flags b" using a(6) by (auto simp: plain_flags_def)
  then have "unpack (mb_codecs mb) page (mb_verify mb) img True False Map.empty = Some (Done (0, fs))"
    using opn a(4) fs(1) by (simp add: unpack_def)
  moreover have "repack mb img NEW_BOOT True fs = Some (Done (fs(NEW_BOOT \<mapsto> dh_raw h2 @ drop (hdr_size h0) img)))"
    using opn a(4) h2(1) assms(2) by (simp add: repack_def)
  moreover have "length (dh_raw h2) = hdr_size h0" using h2(2,3) by (simp add: hdr_wf_def hdr_size_def)
  ultimately show ?thesis using h2(3,4) by blast
qed

definition tools :: "unit magiskboot" where
  "tools = \<lparr>mb_codecs = stored, mb_page = 16, mb_verify = (\<lambda>_ _ _. False), mb_sign = (\<lambda>_ _ _ _. []),
     mb_sha = (\<lambda>_ _. []), mb_patchvbmeta = False\<rparr>"

lemma vnd_mapped: "m_mem (mmap_file 16 vnd_sample) = vnd_sample"
  by (simp add: mmap_file_def align_up_def vnd_lengths)

lemma vnd_fmt: "check_fmt vnd_sample 0 2128 = Some AOSP_VENDOR"
proof -
  have r: "rd vnd_sample 0 8 = Some (bytes_of ''VNDRBOOT'')"
    by (simp add: rd_def vnd_lengths) (simp add: vnd_sample_def vnd_raw_def slice_def bytes_of_def)
  have l: "length CHROMEOS_MAGIC = 8" "length BOOT_MAGIC = 8" "length VENDOR_BOOT_MAGIC = 8"
    by (simp_all add: magic_defs bytes_of_def)
  show ?thesis unfolding check_fmt_def checked_match_def buffer_match_def l
    using r by (simp add: if_match_def magic_defs bytes_of_def)
qed

lemma vnd_gaps: "gaps vnd_hdr vnd_sample all_blks 2112"
proof -
  have a: "align_up 2112 16 = 2112" "align_up 2115 16 = 2128" "align_up 2128 16 = 2128" by (simp_all add: align_up_def)
  have z: "zero_gap vnd_sample 2112 2112" "zero_gap vnd_sample 2128 2128" "zero_gap vnd_sample 2115 2128"
    by (simp_all add: zero_gap_def vnd_lengths) (simp_all add: slice_def vnd_sample_def vnd_lengths)
  show ?thesis using a z vnd_blocks vnd_fields by (simp add: all_blks_def)
qed

lemma vnd_plain:
  "\<exists>b. plain_image 16 (mb_verify tools) vnd_sample AOSP_VENDOR b vnd_hdr vnd_hdr"
proof -
  obtain b where b: "parse_image 16 (\<lambda>_ _ _. False) (boot_new (mmap_file 16 vnd_sample)) 0 AOSP_VENDOR = Some (Done (True, b))"
      "bi_hdr b = Some vnd_hdr" "bi_payload b = (0, 2128)" "bi_flags b = {}"
    using vnd_parse by blast
  have "zero_gap vnd_sample 2128 2128" by (simp add: zero_gap_def vnd_lengths slice_def)
  moreover have "hdr_size vnd_hdr = 2112" by (simp add: hdr_size_def vnd_hdr_def layout_defs size_defs)
  ultimately have "plain_image 16 (\<lambda>_ _ _. False) vnd_sample AOSP_VENDOR b vnd_hdr vnd_hdr"
    using b vnd_create vnd_fmt vnd_gaps vnd_blocks(1,2) vnd_fields(4)
    by (simp add: plain_image_def vnd_mapped vnd_lengths plain_flags_def)
  then show ?thesis by (auto simp: tools_def)
qed

theorem unpack_repack_witness:
  "\<exists>fs h2. unpack stored 16 (\<lambda>_ _ _. False) vnd_sample True False Map.empty = Some (Done (0, fs)) \<and>
     repack tools vnd_sample NEW_BOOT True fs = Some (Done (fs(NEW_BOOT \<mapsto> dh_raw h2 @ drop 2112 vnd_sample))) \<and>
     hget F_dtb_size h2 = 3"
proof -
  obtain b where b: "plain_image 16 (mb_verify tools) vnd_sample AOSP_VENDOR b vnd_hdr vnd_hdr" using vnd_plain by blast
  have s: "hdr_size vnd_hdr = 2112" by (simp add: hdr_size_def vnd_hdr_def layout_defs size_defs)
  have t: "mb_page tools = 16" "mb_codecs tools = stored" "mb_verify tools = (\<lambda>_ _ _. False)"
      "\<forall>x d. length (mb_sha tools x d) \<le> BOOT_ID_SIZE" by (simp_all add: tools_def)
  obtain fs h2 where "unpack stored 16 (\<lambda>_ _ _. False) vnd_sample True False Map.empty = Some (Done (0, fs))"
      "repack tools vnd_sample NEW_BOOT True fs = Some (Done (fs(NEW_BOOT \<mapsto> dh_raw h2 @ drop 2112 vnd_sample)))"
      "hget F_dtb_size h2 = 3"
    using unpack_repack [OF b t(1,4)] vnd_fields(2) unfolding t(2,3) s by auto
  then show ?thesis by blast
qed

section \<open>Where repacking goes wrong\<close>

text \<open>C33: the ramdisks of a vendor image (header version 4) cannot be put back: for the first entry of the
  table \<open>repack\<close> maps the directory of the ramdisks instead of the file in it, which ends the process,
  whatever files there are.\<close>

theorem repack_vendor_table_exits:
  assumes "hget F_vendor_ramdisk_table_size h \<noteq> 0" and "bi_ptr b B_ramdisk = Some r" and "bi_ptr b B_vendor_ramdisk_table = Some tab"
    and "rd_entries (bi_mem b) tab (hget F_vendor_ramdisk_table_entry_num h) = Some (e # es)" and "0 \<in> set (te_name e)"
    and "fs VND_RAMDISK_DIR = None" and "MTK_RAMDISK \<notin> bi_flags b"
  shows "rp_ramdisk mb b h skip_comp fs s = Some Exit"
proof -
  have "te_name e \<noteq> []" using assms(5) by auto
  then obtain name where "entry_file 64 e = Some name"
    using assms(5) by (cases "hd (te_name e) = 0") (simp_all add: entry_file_def strscpy_def vssprintf_def)
  then show ?thesis using assms by (simp add: rp_ramdisk_def Let_def)
qed

text \<open>C34: a recompressed zImage kernel that is smaller than the old one by less than the four bytes of its
  size: the number of padding zeros wraps around and the output grows to \<open>2^64\<close> bytes.\<close>

theorem repack_zimage_underflow:
  assumes "rp_zimage b h False file s = Some s'" and "old = hget F_kernel_size h" and "new = hget F_kernel_size (rp_hdr s)"
    and "new \<le> old" and "old < new + 4"
  shows "length (rp_out s') = length (rp_out s) + (2 ^ 64 - (4 - (old - new))) + 4"
proof -
  let ?d = "old - new"
  have d: "?d < 4" using assms(4,5) by simp
  have "(of_nat ?d - 4 :: u64) = of_nat (2 ^ 64 - (4 - ?d))"
  proof -
    have "(of_nat (2 ^ 64 - (4 - ?d)) :: u64) = of_nat (2 ^ 64) - of_nat (4 - ?d)"
      by (rule of_nat_diff) simp
    then show ?thesis using d by (simp add: of_nat_diff)
  qed
  moreover have "2 ^ 64 - (4 - ?d) < (2 :: nat) ^ 64" using d by simp
  ultimately have "unat (of_nat ?d - 4 :: u64) = 2 ^ 64 - (4 - ?d)"
    by (simp only: unat_of_nat len_bit0 len_num1) simp
  moreover have "rp_out s' = rp_out s @ replicate (unat (of_nat ?d - 4 :: u64)) 0 @ le32 (of_nat (length file))"
    using assms(1-4) by (auto simp: rp_zimage_def Let_def emit_zero_eq set_size_def emit_def)
  moreover have "4 - ?d \<le> 2 ^ 64" by simp
  ultimately show ?thesis by (simp only: length_append length_replicate length_le32 add.assoc)
qed

definition rp0 :: "dyn_img_hdr \<Rightarrow> rp" where
  "rp0 h = \<lparr>rp_out = [], rp_hdr = h, off_header = 0, off_kernel = 0, off_ramdisk = 0, off_second = 0,
     off_extra = 0, off_dtb = 0, off_total = 0, off_vbmeta = 0\<rparr>"

definition vnd4_hdr :: dyn_img_hdr where
  "vnd4_hdr = \<lparr>dh_class = VND_V4, dh_raw = replicate 2112 0 @ [108, 0, 0, 0] @ [1, 0, 0, 0] @ [108, 0, 0, 0] @ [0, 0, 0, 0]\<rparr>"

theorem repack_vendor_table_exits_witness:
  "rp_ramdisk tools ((boot_new \<lparr>m_mem = replicate 108 0, m_sz = 108\<rparr>)\<lparr>bi_ptr := (\<lambda>_. Some 0)\<rparr>) vnd4_hdr False Map.empty (rp0 vnd4_hdr) = Some Exit"
proof -
  let ?b = "(boot_new \<lparr>m_mem = replicate 108 0, m_sz = 108\<rparr>)\<lparr>bi_ptr := (\<lambda>_. Some 0)\<rparr>"
  have f: "hget F_vendor_ramdisk_table_size vnd4_hdr = 108" "hget F_vendor_ramdisk_table_entry_num vnd4_hdr = 1"
    by (simp_all add: hget_def vnd4_hdr_def layout_defs size_defs slice_def)
  obtain e where e: "rd_entry (replicate 108 0) 0 = Some e" "te_name e = replicate 32 0"
    by (simp add: rd_entry_def rd_def table_entry_sz_def slice_def)
  have "rd_entries (bi_mem ?b) 0 (hget F_vendor_ramdisk_table_entry_num vnd4_hdr) = Some [e]"
    using e(1) unfolding f by (simp add: boot_new_def)
  then show ?thesis
    using repack_vendor_table_exits [of vnd4_hdr ?b 0 0 e "[]" Map.empty tools False "rp0 vnd4_hdr"] f e(2) by (simp add: boot_new_def)
qed

theorem repack_zimage_underflow_witness:
  "\<exists>s'. rp_zimage (boot_new \<lparr>m_mem = [], m_sz = 0\<rparr>) (sample_hdr 4) False [] (rp0 (sample_hdr 2)) = Some s' \<and>
     length (rp_out s') = 2 ^ 64 + 2"
proof -
  have k: "hget F_kernel_size (sample_hdr w) = unat w" for w
    by (simp add: hget_def sample_hdr_def layout_defs size_defs slice_def of_le_le32)
  have k2: "hget F_kernel_size (sample_hdr 4) = 4" "hget F_kernel_size (rp_hdr (rp0 (sample_hdr 2))) = 2"
    by (simp_all add: k rp0_def)
  obtain s' where s': "rp_zimage (boot_new \<lparr>m_mem = [], m_sz = 0\<rparr>) (sample_hdr 4) False [] (rp0 (sample_hdr 2)) = Some s'"
    unfolding rp_zimage_def Let_def k2 by simp
  have "length (rp_out s') = length (rp_out (rp0 (sample_hdr 2))) + (2 ^ 64 - (4 - (4 - 2))) + 4"
    by (rule repack_zimage_underflow [OF s']) (simp_all add: k2)
  then show ?thesis using s' by (intro exI [of _ s'] conjI) (simp_all add: rp0_def)
qed

text \<open>Removing a file from the directory removes its block from the new image; but the sizes of the extra
  block and of the recovery device tree are not among those that are reset, so the new header still
  announces them although nothing is written for them.\<close>

theorem repack_stale_sizes:
  assumes "rp_start b h fs = Some s" and "hdr_wf h" and "fs HEADER_FILE = None" and "fs EXTRA_FILE = None" and "fs RECV_DTBO_FILE = None"
  shows "(\<forall>f \<in> {F_kernel_size, F_ramdisk_size, F_second_size, F_dtb_size, F_bootconfig_size}. hget f (rp_hdr s) = 0) \<and>
    hget F_extra_size (rp_hdr s) = hget F_extra_size h \<and>
    hget F_recovery_dtbo_size (rp_hdr s) = hget F_recovery_dtbo_size h \<and>
    rp_extra mb b h skip_comp fs s' = Some s' \<and> rp_file h fs RECV_DTBO_FILE F_recovery_dtbo_size s' = Some s'"
proof -
  let ?fs = "[F_kernel_size, F_ramdisk_size, F_second_size, F_dtb_size, F_bootconfig_size]"
  have "rp_hdr s = foldl (\<lambda>h f. hset f 0 h) h ?fs"
    using assms(1,3)
    by (auto simp: rp_start_def emit_img_def emit_zero_eq Let_def split: bind_splits if_splits)
  then show ?thesis
    using hsets_zero [OF assms(2), of ?fs] assms(4,5) by (simp add: rp_extra_def rp_file_def restore_def)
qed

theorem repack_stale_sizes_witness:
  "\<exists>s. rp_start (boot_new (mmap_file 16 [])) (hset F_extra_size 7 (sample_hdr 9)) Map.empty = Some s \<and>
     hget F_kernel_size (rp_hdr s) = 0 \<and> hget F_extra_size (rp_hdr s) = 7"
proof -
  let ?h = "hset F_extra_size 7 (sample_hdr 9)" and ?b = "boot_new (mmap_file 16 [])"
  let ?fs = "[F_kernel_size, F_ramdisk_size, F_second_size, F_dtb_size, F_bootconfig_size]"
  have w0: "hdr_wf (sample_hdr 9)" using sample_hdr_text by (simp add: hdr_text_def)
  have x: "F_extra_size \<in> set (exposed (dh_class (sample_hdr 9)))" "hwidth (sample_hdr 9) F_extra_size = 4"
    by (simp_all add: sample_hdr_def layout_defs hwidth_def)
  have e: "hget F_extra_size ?h = 7" using hget_hset_same [OF w0 x(1), of 7] x(2) by simp
  have w: "hdr_wf ?h" and c: "dh_class ?h = dh_class (sample_hdr 9)" using w0 hset_wf by auto
  have p: "hget F_page_size ?h = 0"
    using hget_hset_other [OF w0, of F_extra_size F_page_size]
    by (simp add: hget_def sample_hdr_def layout_defs size_defs slice_def)
  have z: "hdr_space (foldl (\<lambda>h f. hset f 0 h) ?h ?fs) = Some 0"
    using hsets_zero [OF w, of ?fs] p c by (simp add: hdr_space_def page_size_def is_vendor_def sample_hdr_def)
  then obtain s where s: "rp_start ?b ?h Map.empty = Some s"
    by (auto simp: rp_start_def boot_new_def emit_img_def mmap_file_def rd_def Let_def)
  have "hget F_kernel_size (rp_hdr s) = 0" "hget F_extra_size (rp_hdr s) = hget F_extra_size ?h"
    using repack_stale_sizes [OF s w, of tools False s] by simp_all
  then show ?thesis using s e by (intro exI [of _ s]) simp
qed



end
