(* ===== verification/Core_Machine.thy ===== *)
theory Core_Machine
  imports Kitsune_Prelude
begin

text \<open>
  Machines driven by events, the form the daemon's concurrent components are modelled in. A step is a
  function that has a result exactly when the event can happen in the state; which event happens is
  the choice of the scheduler, of the peers and of the operating system. The two locales are the
  interfaces the components share: what an invariant of a machine is, and what it means that the
  agents of a machine (its threads) move by their own steps only.
\<close>

section \<open>Runs\<close>

fun run_events :: "('e \<Rightarrow> 's \<Rightarrow> 's option) \<Rightarrow> 'e list \<Rightarrow> 's \<Rightarrow> 's option" where
  "run_events step [] s = Some s"
| "run_events step (e # es) s = do { s' \<leftarrow> step e s; run_events step es s' }"

lemma run_events_append:
  "run_events step (es @ fs) s = do { s' \<leftarrow> run_events step es s; run_events step fs s' }"
  by (induction es arbitrary: s) (auto split: bind_splits)

text \<open>Evaluates a run from the left.\<close>

lemma bind_weak_cong: "x = y \<Longrightarrow> Option.bind x f = Option.bind y f"
  by simp

text \<open>An endless run: the state at every time and the event that leads to the next one.\<close>

definition endless :: "('e \<Rightarrow> 's \<Rightarrow> 's option) \<Rightarrow> (nat \<Rightarrow> 's) \<Rightarrow> (nat \<Rightarrow> 'e) \<Rightarrow> bool" where
  "endless step st ev \<longleftrightarrow> (\<forall>n. step (ev n) (st n) = Some (st (Suc n)))"

section \<open>Invariants\<close>

locale machine =
  fixes step :: "'e \<Rightarrow> 's \<Rightarrow> 's option" and ok :: "'e \<Rightarrow> bool" and inv :: "'s \<Rightarrow> bool"
  assumes step_inv: "inv s \<Longrightarrow> ok e \<Longrightarrow> step e s = Some s' \<Longrightarrow> inv s'"
begin

lemma run_inv: "inv s \<Longrightarrow> list_all ok es \<Longrightarrow> run_events step es s = Some s' \<Longrightarrow> inv s'"
  by (induction es arbitrary: s) (auto split: bind_splits intro: step_inv)

lemma endless_inv: "endless step st ev \<Longrightarrow> inv (st 0) \<Longrightarrow> (\<And>n. ok (ev n)) \<Longrightarrow> inv (st n)"
  by (induction n) (auto simp: endless_def intro: step_inv)

end

text \<open>A machine that never lacks a result: every event that is allowed can happen.\<close>

locale safe_machine =
  fixes step :: "'e \<Rightarrow> 's \<Rightarrow> 's option" and ok :: "'e \<Rightarrow> bool" and inv :: "'s \<Rightarrow> bool"
  assumes step_safe: "inv s \<Longrightarrow> ok e \<Longrightarrow> \<exists>s'. step e s = Some s' \<and> inv s'"
begin

lemma run_safe: "inv s \<Longrightarrow> list_all ok es \<Longrightarrow> \<exists>s'. run_events step es s = Some s' \<and> inv s'"
proof (induction es arbitrary: s)
  case (Cons e es)
  then obtain s1 where "step e s = Some s1" "inv s1" using step_safe [of s e] by auto
  then show ?case using Cons.IH [of s1] Cons.prems(2) by simp
qed simp

end

sublocale safe_machine \<subseteq> machine step ok inv
  using step_safe by unfold_locales fastforce

section \<open>Agents\<close>

text \<open>A fair schedule: an agent that can move does so at some time.\<close>

definition fair :: "(nat \<Rightarrow> 's \<Rightarrow> 'c) \<Rightarrow> ('e \<Rightarrow> nat option) \<Rightarrow> ('c \<Rightarrow> bool) \<Rightarrow> (nat \<Rightarrow> 's) \<Rightarrow> (nat \<Rightarrow> 'e) \<Rightarrow> bool" where
  "fair at who active st ev \<longleftrightarrow> (\<forall>n i. active (at i (st n)) \<longrightarrow> (\<exists>m\<ge>n. who (ev m) = Some i))"

text \<open>\<open>at i s\<close> is the control point of agent \<open>i\<close>, \<open>who\<close> the agent an event is a step of. At an active
  point an agent stays until it moves itself.\<close>

locale agents = machine +
  fixes at :: "nat \<Rightarrow> 's \<Rightarrow> 'c" and who :: "'e \<Rightarrow> nat option" and active :: "'c \<Rightarrow> bool"
  assumes stays: "inv s \<Longrightarrow> ok e \<Longrightarrow> step e s = Some s' \<Longrightarrow> who e \<noteq> Some i \<Longrightarrow> active (at i s) \<Longrightarrow> at i s' = at i s"
begin

lemma still_there:
  assumes "endless step st ev" and "inv (st 0)" and "\<And>n. ok (ev n)"
    and "active (at i (st n))" and "n \<le> m" and "\<And>k. n \<le> k \<Longrightarrow> k < m \<Longrightarrow> who (ev k) \<noteq> Some i"
  shows "at i (st m) = at i (st n)"
  using assms(5,6)
proof (induction m rule: dec_induct)
  case (step m)
  then have "at i (st m) = at i (st n)" by simp
  moreover have "inv (st m)" by (rule endless_inv [OF assms(1-3)])
  ultimately show ?case
    using stays [of "st m" "ev m" "st (Suc m)" i] assms(1,3,4) step.hyps step.prems by (simp add: endless_def)
qed simp

lemma first_move:
  assumes "endless step st ev" and "inv (st 0)" and "\<And>n. ok (ev n)" and "fair at who active st ev" and "active (at i (st n))"
  obtains m where "n \<le> m" and "who (ev m) = Some i" and "at i (st m) = at i (st n)"
proof -
  let ?P = "\<lambda>m. n \<le> m \<and> who (ev m) = Some i"
  have "\<exists>m. ?P m" using assms(4,5) by (auto simp: fair_def)
  then have l: "?P (LEAST m. ?P m)" by (rule LeastI_ex)
  have "who (ev k) \<noteq> Some i" if "n \<le> k" "k < (LEAST m. ?P m)" for k
    using not_less_Least [OF that(2)] that(1) by blast
  then have "at i (st (LEAST m. ?P m)) = at i (st n)"
    using still_there [OF assms(1-3,5)] l by blast
  then show thesis using that l by blast
qed

end

end
