(* ===== verification/Core_Poll.thy ===== *)
theory Core_Poll
  imports Core_Machine
begin

unbundle bit_operations_syntax

text \<open>
  Messages and poll registry of the daemon: the integers and strings that go over its sockets
  (\<^verbatim>\<open>src/native/src/core/include/core.hpp\<close>, \<^verbatim>\<open>src/native/src/core/daemon.cpp\<close>) and the table of file
  descriptors its main loop listens to. A socket or pipe is seen as the bytes that are still to be
  read from it and the bytes written to it; a callback is the 64-bit address of its code.
\<close>

section \<open>Messages\<close>

text \<open>\<open>xxread\<close> reads exactly \<open>n\<close> bytes or fails at the end of the stream.\<close>

definition xxread :: "nat \<Rightarrow> bytes \<Rightarrow> (bytes \<times> bytes) option" where
  "xxread n inp = (if n \<le> length inp then Some (take n inp, drop n inp) else None)"

definition int_of :: "bytes \<Rightarrow> int" where
  "int_of b = sint (of_nat (of_le b) :: u32)"

definition read_int :: "bytes \<Rightarrow> int \<times> bytes" where
  "read_int inp = (case xxread 4 inp of None \<Rightarrow> (-1, []) | Some (b, r) \<Rightarrow> (int_of b, r))"

definition write_int :: "int \<Rightarrow> int \<Rightarrow> bytes \<Rightarrow> bytes" where
  "write_int fd v out = (if fd < 0 then out else out @ le32 (of_int v))"

text \<open>A negative length makes \<open>string::resize\<close> end the process; after a short read the content of the
  string is not defined.\<close>

definition read_string :: "bytes \<Rightarrow> (string option \<times> bytes) run" where
  "read_string inp =
     (let (len, r) = read_int inp in
      if len < 0 then Exit
      else case xxread (nat len) r of
          None \<Rightarrow> Done (None, [])
        | Some (b, r') \<Rightarrow> Done (Some (string_of b), r'))"

definition write_string :: "int \<Rightarrow> string \<Rightarrow> bytes \<Rightarrow> bytes" where
  "write_string fd s out = (if fd < 0 then out else write_int fd (int (length s)) out @ bytes_of s)"

lemma int_of_le32: "int_of (le32 w) = sint w"
  by (simp add: int_of_def)

lemma read_write_int:
  assumes "- (2 ^ 31) \<le> v" and "v < 2 ^ 31"
  shows "read_int (le32 (of_int v) @ rest) = (v, rest)"
  using assms by (simp add: read_int_def xxread_def int_of_le32 signed_of_int signed_take_bit_int_eq_self)

lemma read_write_string:
  assumes "0 \<le> fd" and "length s < 2 ^ 31"
  shows "read_string (write_string fd s [] @ rest) = Done (Some s, rest)"
proof -
  have "read_int (le32 (of_int (int (length s))) @ bytes_of s @ rest) = (int (length s), bytes_of s @ rest)"
    using assms(2) by (intro read_write_int) simp_all
  then show ?thesis using assms(1)
    by (simp add: read_string_def write_string_def write_int_def xxread_def)
qed

text \<open>A string of \<open>2^31\<close> bytes or more, or a peer that sends a negative length or nothing, ends the reader.\<close>

lemma read_string_exits: "length inp < 4 \<Longrightarrow> read_string inp = Exit"
  by (simp add: read_string_def read_int_def xxread_def)

section \<open>The registry\<close>

record pollfd =
  pfd_fd :: int
  pfd_events :: u16
  pfd_revents :: u16

text \<open>The two tables (null pointers before the daemon runs and after \<open>clear_poll\<close>), what is in the pipe to
  the main thread, and the descriptors that were closed.\<close>

record poll =
  poll_map :: "(int \<rightharpoonup> u64) option"
  poll_fds :: "pollfd list option"
  poll_ctrl :: bytes
  poll_closed :: "int list"

definition POLL_CTRL_NEW :: int where "POLL_CTRL_NEW = 0"
definition POLL_CTRL_RM :: int where "POLL_CTRL_RM = 1"

definition pollfd_bytes :: "pollfd \<Rightarrow> bytes" where
  "pollfd_bytes f = le32 (of_int (pfd_fd f)) @ le_bytes 2 (unat (pfd_events f)) @ le_bytes 2 (unat (pfd_revents f))"

definition pollfd_of :: "bytes \<Rightarrow> pollfd" where
  "pollfd_of b = \<lparr>pfd_fd = int_of (take 4 b), pfd_events = of_nat (of_le (slice 4 2 b)), pfd_revents = of_nat (of_le (slice 6 2 b))\<rparr>"

definition register_main :: "pollfd \<Rightarrow> u64 \<Rightarrow> poll \<Rightarrow> poll option" where
  "register_main f cb p =
     do { m \<leftarrow> poll_map p; l \<leftarrow> poll_fds p;
          Some (p\<lparr>poll_map := Some (if m (pfd_fd f) = None then m(pfd_fd f \<mapsto> cb) else m), poll_fds := Some (l @ [f])\<rparr>) }"

definition register_poll :: "bool \<Rightarrow> pollfd \<Rightarrow> u64 \<Rightarrow> poll \<Rightarrow> poll option" where
  "register_poll on_main f cb p =
     (if on_main then register_main f cb p
      else Some (p\<lparr>poll_ctrl := write_int 0 POLL_CTRL_NEW (poll_ctrl p) @ pollfd_bytes f @ le_bytes 8 (unat cb)\<rparr>))"

text \<open>The first entry of a descriptor is made invalid; there may be none.\<close>

fun invalidate :: "int \<Rightarrow> pollfd list \<Rightarrow> pollfd list \<times> bool" where
  "invalidate fd [] = ([], False)"
| "invalidate fd (f # l) =
     (if pfd_fd f = fd then (f\<lparr>pfd_fd := -1\<rparr> # l, True) else let (l', b) = invalidate fd l in (f # l', b))"

definition unregister_main :: "int \<Rightarrow> bool \<Rightarrow> poll \<Rightarrow> poll option" where
  "unregister_main fd auto_close p =
     do { m \<leftarrow> poll_map p; l \<leftarrow> poll_fds p;
          let (l', found) = invalidate fd l;
          Some (p\<lparr>poll_map := Some (m(fd := None)), poll_fds := Some l',
                 poll_closed := poll_closed p @ (if found \<and> auto_close then [fd] else [])\<rparr>) }"

definition unregister_poll :: "bool \<Rightarrow> int \<Rightarrow> bool \<Rightarrow> poll \<Rightarrow> poll option" where
  "unregister_poll on_main fd auto_close p =
     (if fd < 0 then Some p
      else if on_main then unregister_main fd auto_close p
      else Some (p\<lparr>poll_ctrl := write_int 0 (of_bool auto_close) (write_int 0 fd (write_int 0 POLL_CTRL_RM (poll_ctrl p)))\<rparr>))"

definition clear_poll :: "poll \<Rightarrow> poll" where
  "clear_poll p =
     p\<lparr>poll_closed := poll_closed p @ (case poll_fds p of None \<Rightarrow> [] | Some l \<Rightarrow> map pfd_fd l),
       poll_fds := None, poll_map := None\<rparr>"

text \<open>The handler of the pipe; on the main thread the two operations act at once. With too few bytes in the
  pipe it waits.\<close>

definition poll_ctrl_handler :: "poll \<Rightarrow> poll option" where
  "poll_ctrl_handler p =
     (if length (poll_ctrl p) < 4 then None
      else
        let (code, r) = read_int (poll_ctrl p) in
        if code = POLL_CTRL_NEW then
          do { (b, r1) \<leftarrow> xxread 8 r; (c, r2) \<leftarrow> xxread 8 r1;
               register_poll True (pollfd_of b) (of_nat (of_le c)) (p\<lparr>poll_ctrl := r2\<rparr>) }
        else if code = POLL_CTRL_RM then
          if length r < 8 then None
          else
            let (fd, r1) = read_int r; (cl, r2) = read_int r1 in
            unregister_poll True fd (cl \<noteq> 0) (p\<lparr>poll_ctrl := r2\<rparr>)
        else None)"

section \<open>The loop\<close>

definition POLLERR :: u16 where "POLLERR = 0x008"
definition POLLNVAL :: u16 where "POLLNVAL = 0x020"

text \<open>What \<open>poll\<close> reports: nothing for an entry with a negative descriptor, else what the system says.\<close>

definition poll_report :: "(int \<Rightarrow> u16) \<Rightarrow> pollfd \<Rightarrow> pollfd" where
  "poll_report ready f = f\<lparr>pfd_revents := (if pfd_fd f < 0 then 0 else ready (pfd_fd f))\<rparr>"

text \<open>One pass over the entries; \<open>call\<close> runs the code at an address.\<close>

partial_function (option) poll_dispatch ::
    "(u64 \<Rightarrow> pollfd \<Rightarrow> poll \<Rightarrow> poll option) \<Rightarrow> nat \<Rightarrow> poll \<Rightarrow> poll option" where
  "poll_dispatch call i p =
     (case poll_fds p of
        None \<Rightarrow> None
      | Some l \<Rightarrow>
          if length l \<le> i then Some p
          else
            let f = l ! i in
            if pfd_revents f = 0 then poll_dispatch call (i + 1) p
            else
              do { m \<leftarrow> poll_map p;
                   if pfd_revents f AND POLLERR \<noteq> 0 \<or> pfd_revents f AND POLLNVAL \<noteq> 0
                   then poll_dispatch call i
                     (p\<lparr>poll_map := Some (m(pfd_fd f := None)), poll_fds := Some (take i l @ drop (i + 1) l)\<rparr>)
                   else
                     do { p' \<leftarrow> (case m (pfd_fd f) of None \<Rightarrow> Some p | Some cb \<Rightarrow> call cb f p);
                          poll_dispatch call (i + 1) p' } })"

definition poll_round :: "(int \<Rightarrow> u16) \<Rightarrow> (u64 \<Rightarrow> pollfd \<Rightarrow> poll \<Rightarrow> poll option) \<Rightarrow> poll \<Rightarrow> poll option" where
  "poll_round ready call p =
     do { l \<leftarrow> poll_fds p;
          let l' = map (poll_report ready) l;
          let p' = p\<lparr>poll_fds := Some l'\<rparr>;
          if \<forall>f \<in> set l'. pfd_revents f = 0 then Some p' else poll_dispatch call 0 p' }"

section \<open>Requests of other threads\<close>

lemma int_of_le32_int: "- (2 ^ 31) \<le> v \<Longrightarrow> v < 2 ^ 31 \<Longrightarrow> int_of (le32 (of_int v)) = v"
  by (simp add: int_of_le32 signed_of_int signed_take_bit_int_eq_self)

lemma pollfd_of_bytes:
  assumes "- (2 ^ 31) \<le> pfd_fd f" and "pfd_fd f < 2 ^ 31"
  shows "pollfd_of (pollfd_bytes f) = f"
proof -
  have "unat (pfd_events f) < 65536" "unat (pfd_revents f) < 65536"
    using unsigned_less [of "pfd_events f"] unsigned_less [of "pfd_revents f"] by simp_all
  then show ?thesis
    using assms by (simp add: pollfd_of_def pollfd_bytes_def int_of_le32_int slice_def of_le_le_bytes)
qed

lemma length_pollfd_bytes [simp]: "length (pollfd_bytes f) = 8"
  by (simp add: pollfd_bytes_def)

text \<open>C35: a request that another thread sends through the pipe has, once the main thread handles it, the effect
  of the same request made on the main thread, and leaves the requests behind it in the pipe.\<close>

theorem poll_ctrl_transparent:
  assumes "poll_ctrl p = []" and "- (2 ^ 31) \<le> pfd_fd f" and "pfd_fd f < 2 ^ 31" and "0 \<le> fd" and "fd < 2 ^ 31"
  shows "do { q \<leftarrow> register_poll False f cb p; poll_ctrl_handler (q\<lparr>poll_ctrl := poll_ctrl q @ rest\<rparr>) } =
      register_poll True f cb (p\<lparr>poll_ctrl := rest\<rparr>) \<and>
    do { q \<leftarrow> unregister_poll False fd auto_close p; poll_ctrl_handler (q\<lparr>poll_ctrl := poll_ctrl q @ rest\<rparr>) } =
      unregister_poll True fd auto_close (p\<lparr>poll_ctrl := rest\<rparr>)"
proof
  have "unat cb < 256 ^ 8" using unsigned_less [of cb] by simp
  moreover have "read_int (le32 0 @ x) = (0, x)" for x using read_write_int [of 0 x] by simp
  ultimately show "do { q \<leftarrow> register_poll False f cb p; poll_ctrl_handler (q\<lparr>poll_ctrl := poll_ctrl q @ rest\<rparr>) } =
      register_poll True f cb (p\<lparr>poll_ctrl := rest\<rparr>)"
    using assms(1-3) by (simp add: register_poll_def write_int_def poll_ctrl_handler_def POLL_CTRL_NEW_def xxread_def
        pollfd_of_bytes of_le_le_bytes)
next
  have "read_int (le32 1 @ x) = (1, x)" "read_int (le32 (of_int fd) @ x) = (fd, x)"
      "read_int (le32 (of_bool b) @ x) = (of_bool b, x)" for x b
    using read_write_int [of 1 x] read_write_int [of fd x] read_write_int [of "of_bool b" x] assms(4,5) by simp_all
  then show "do { q \<leftarrow> unregister_poll False fd auto_close p; poll_ctrl_handler (q\<lparr>poll_ctrl := poll_ctrl q @ rest\<rparr>) } =
      unregister_poll True fd auto_close (p\<lparr>poll_ctrl := rest\<rparr>)"
    using assms(1,4) by (simp add: unregister_poll_def write_int_def poll_ctrl_handler_def POLL_CTRL_NEW_def POLL_CTRL_RM_def)
qed

text \<open>A request takes three writes, so two threads that send at the same time can mix theirs: here a thread
  registers descriptor 5 and another one removes descriptor 9, and the main thread registers
  descriptor 1.\<close>

lemma poll_ctrl_mixed:
  "\<exists>p. poll_ctrl_handler \<lparr>poll_map = Some Map.empty, poll_fds = Some [],
       poll_ctrl = le32 0 @ le32 1 @ pollfd_bytes \<lparr>pfd_fd = 5, pfd_events = 1, pfd_revents = 0\<rparr> @ le32 9 @ le_bytes 8 77 @ le32 0,
       poll_closed = []\<rparr> = Some p \<and>
     map_option (map pfd_fd) (poll_fds p) = Some [1]"
  by (simp add: poll_ctrl_handler_def read_int_def xxread_def POLL_CTRL_NEW_def int_of_le32 register_poll_def
      register_main_def pollfd_of_def)

theorem poll_ctrl_transparent_witness:
  "do { q \<leftarrow> register_poll False \<lparr>pfd_fd = 5, pfd_events = 1, pfd_revents = 0\<rparr> 77
          \<lparr>poll_map = Some Map.empty, poll_fds = Some [], poll_ctrl = [], poll_closed = []\<rparr>;
        poll_ctrl_handler (q\<lparr>poll_ctrl := poll_ctrl q @ [1]\<rparr>) } =
     Some \<lparr>poll_map = Some [5 \<mapsto> 77], poll_fds = Some [\<lparr>pfd_fd = 5, pfd_events = 1, pfd_revents = 0\<rparr>],
       poll_ctrl = [1], poll_closed = []\<rparr>"
  using poll_ctrl_transparent [of "\<lparr>poll_map = Some Map.empty, poll_fds = Some [], poll_ctrl = [], poll_closed = []\<rparr>"
      "\<lparr>pfd_fd = 5, pfd_events = 1, pfd_revents = 0\<rparr>" 0 77 "[1]" False]
  by (simp add: register_poll_def register_main_def)

section \<open>A pass over the entries\<close>

text \<open>The registry is in use and every callback's descriptor is among those that are polled.\<close>

definition polled :: "poll \<Rightarrow> bool" where
  "polled p \<longleftrightarrow> (\<exists>m l. poll_map p = Some m \<and> poll_fds p = Some l \<and> dom m \<subseteq> pfd_fd ` set l)"

lemma register_main_polled: "polled p \<Longrightarrow> register_main f cb p = Some q \<Longrightarrow> polled q"
  by (auto simp: polled_def register_main_def subset_iff domIff image_iff split: if_splits)

lemma invalidate_fds: "pfd_fd ` set l - {fd} \<subseteq> pfd_fd ` set (fst (invalidate fd l))"
  by (induction l) (auto simp: split_def Let_def)

lemma unregister_main_polled:
  assumes "polled p" and "unregister_main fd auto_close p = Some q"
  shows "polled q"
proof -
  obtain m l where m: "poll_map p = Some m" "poll_fds p = Some l" "dom m \<subseteq> pfd_fd ` set l"
    using assms(1) by (auto simp: polled_def)
  then have "poll_map q = Some (m(fd := None))" "poll_fds q = Some (fst (invalidate fd l))"
    using assms(2) by (auto simp: unregister_main_def split_def Let_def)
  then show ?thesis using m(3) invalidate_fds [of l fd] by (auto simp: polled_def)
qed

lemma poll_ctrl_handler_polled: "polled p \<Longrightarrow> poll_ctrl_handler p = Some q \<Longrightarrow> polled q"
proof -
  assume p: "polled p" and q: "poll_ctrl_handler p = Some q"
  have upd: "polled (p\<lparr>poll_ctrl := r\<rparr>)" for r using p by (simp add: polled_def)
  have "register_main f cb (p\<lparr>poll_ctrl := r\<rparr>) = Some q \<Longrightarrow> polled q" for f cb r
    using register_main_polled [OF upd] .
  moreover have "unregister_poll True fd c (p\<lparr>poll_ctrl := r\<rparr>) = Some q \<Longrightarrow> polled q" for fd c r
    using unregister_main_polled [OF upd] upd by (auto simp: unregister_poll_def split: if_splits)
  ultimately show ?thesis
    using q by (auto simp: poll_ctrl_handler_def register_poll_def split_def Let_def split: if_splits bind_splits)
qed

lemma drop_entry_polled:
  assumes "poll_map p = Some m" and "poll_fds p = Some l" and "polled p" and "i < length l"
  shows "polled (p\<lparr>poll_map := Some (m(pfd_fd (l ! i) := None)), poll_fds := Some (take i l @ drop (i + 1) l)\<rparr>)"
proof -
  have "set l = insert (l ! i) (set (take i l @ drop (i + 1) l))"
    using arg_cong [OF id_take_nth_drop [OF assms(4)], of set] by simp
  then show ?thesis using assms(1-3) by (auto simp: polled_def)
qed

definition keeps_polled :: "(u64 \<Rightarrow> pollfd \<Rightarrow> poll \<Rightarrow> poll option) \<Rightarrow> bool" where
  "keeps_polled call \<longleftrightarrow> (\<forall>cb f p q. polled p \<longrightarrow> call cb f p = Some q \<longrightarrow> polled q)"

lemma dispatch_polled_all:
  assumes "poll_dispatch call i p = Some q" and "keeps_polled call" and "polled p"
  shows "polled q"
proof -
  have "keeps_polled call \<longrightarrow> polled p \<longrightarrow> polled q"
  proof (rule poll_dispatch.raw_induct [where P = "\<lambda>call i p q. keeps_polled call \<longrightarrow> polled p \<longrightarrow> polled q", OF _ assms(1)],
      intro impI)
    fix d call i p q
    assume IH: "\<And>call i p q. d call i p = Some q \<Longrightarrow> keeps_polled call \<longrightarrow> polled p \<longrightarrow> polled q"
      and k: "keeps_polled call" and p: "polled p"
      and b: "(case poll_fds p of
        None \<Rightarrow> None
      | Some l \<Rightarrow>
          if length l \<le> i then Some p
          else
            let f = l ! i in
            if pfd_revents f = 0 then d call (i + 1) p
            else
              do { m \<leftarrow> poll_map p;
                   if pfd_revents f AND POLLERR \<noteq> 0 \<or> pfd_revents f AND POLLNVAL \<noteq> 0
                   then d call i
                     (p\<lparr>poll_map := Some (m(pfd_fd f := None)), poll_fds := Some (take i l @ drop (i + 1) l)\<rparr>)
                   else
                     do { p' \<leftarrow> (case m (pfd_fd f) of None \<Rightarrow> Some p | Some cb \<Rightarrow> call cb f p);
                          d call (i + 1) p' } }) = Some q"
    obtain m l where m: "poll_map p = Some m" "poll_fds p = Some l" using p by (auto simp: polled_def)
    have next_: "polled p' \<Longrightarrow> d call j p' = Some q \<Longrightarrow> polled q" for j p' using IH k by blast
    have called: "polled p'" if "(case m fd of None \<Rightarrow> Some p | Some cb \<Rightarrow> call cb f p) = Some p'" for fd f p'
      using that k p by (auto simp: keeps_polled_def split: option.splits)
    show "polled q"
      using b p next_ called drop_entry_polled [OF m p, of i]
      by (auto simp: m Let_def simp del: fun_upd_apply split: if_splits bind_splits) blast
  qed
  then show ?thesis using assms(2,3) by blast
qed

text \<open>What the loop asks of the callbacks, and what it then keeps.\<close>

locale callbacks =
  fixes call :: "u64 \<Rightarrow> pollfd \<Rightarrow> poll \<Rightarrow> poll option"
  assumes call_polled: "polled p \<Longrightarrow> call cb f p = Some q \<Longrightarrow> polled q"
begin

lemma dispatch_polled: "polled p \<Longrightarrow> poll_dispatch call i p = Some q \<Longrightarrow> polled q"
  using dispatch_polled_all call_polled unfolding keeps_polled_def by blast

lemma round_polled:
  assumes "polled p" and "poll_round ready call p = Some q"
  shows "polled q"
proof -
  obtain l where l: "poll_fds p = Some l" using assms(1) by (auto simp: polled_def)
  have "polled (p\<lparr>poll_fds := Some (map (poll_report ready) l)\<rparr>)"
    using assms(1) l by (fastforce simp: polled_def poll_report_def image_image)
  then show ?thesis
    using assms(2) l dispatch_polled by (auto simp: poll_round_def Let_def split: if_splits)
qed

end

text \<open>The callbacks of the daemon: the handler of the pipe, and the handler of the main socket, which leaves
  the registry alone.\<close>

definition daemon_call :: "u64 \<Rightarrow> u64 \<Rightarrow> pollfd \<Rightarrow> poll \<Rightarrow> poll option" where
  "daemon_call ctrl cb f p = (if cb = ctrl then poll_ctrl_handler p else Some p)"

interpretation daemon: callbacks "daemon_call ctrl"
  by unfold_locales (auto simp: daemon_call_def intro: poll_ctrl_handler_polled split: if_splits)

lemma quiet_dispatch:
  assumes "poll_fds p = Some l" and "poll_map p = Some m"
    and "\<And>f. f \<in> set l \<Longrightarrow> pfd_revents f AND POLLERR = 0 \<and> pfd_revents f AND POLLNVAL = 0" and "\<And>cb f. call cb f p = Some p"
  shows "poll_dispatch call i p = Some p"
proof (induction "length l - i" arbitrary: i)
  case 0
  then show ?case using assms(1) by (subst poll_dispatch.simps) simp
next
  case (Suc n)
  then have "poll_dispatch call (i + 1) p = Some p" by simp
  moreover have "l ! i \<in> set l" using Suc(2) by simp
  ultimately show ?case using assms Suc(2) by (subst poll_dispatch.simps) (simp add: Let_def split: option.split)
qed

text \<open>An entry that was made invalid is not removed by the next pass, nor by any later one: the system
  reports nothing for it.\<close>

lemma stale_entry_stays:
  assumes "unregister_main fd auto_close p = Some q" and "poll_fds p = Some l"
    and "\<And>d. ready d AND POLLERR = 0 \<and> ready d AND POLLNVAL = 0" and "\<And>cb f p. call cb f p = Some p"
  shows "\<exists>r l'. poll_round ready call q = Some r \<and> poll_fds r = Some l' \<and> length l' = length l"
proof -
  obtain m where m: "poll_map p = Some m" using assms(1) by (cases "poll_map p") (auto simp: unregister_main_def)
  let ?l = "map (poll_report ready) (fst (invalidate fd l))"
  have len: "length (fst (invalidate fd l)) = length l" by (induction l) (auto simp: split_def Let_def)
  have q: "poll_fds q = Some (fst (invalidate fd l))" "poll_map q = Some (m(fd := None))"
    using assms(1,2) m by (auto simp: unregister_main_def split_def Let_def)
  have "poll_dispatch call 0 (q\<lparr>poll_fds := Some ?l\<rparr>) = Some (q\<lparr>poll_fds := Some ?l\<rparr>)"
    by (rule quiet_dispatch [where l = ?l and m = "m(fd := None)"]) (use q(2) assms(3,4) in \<open>auto simp: poll_report_def\<close>)
  then show ?thesis using q(1) len by (auto simp: poll_round_def Let_def)
qed

end
