(* ===== verification/Core_Thread.thy ===== *)
theory Core_Thread
  imports Core_Poll
begin

text \<open>
  The cached thread pool of \<^verbatim>\<open>src/native/src/core/thread.cpp\<close>. The state is guarded by one lock, so the
  code between two points where the lock is free is one step; a step of the machine is such a piece of
  \<open>thread_pool_loop\<close> or of \<open>exec_task\<close>, or something the operating system does to a thread that waits
  on a condition variable: a time-out or a wake-up without a signal. \<open>exec_task\<close> has one caller, the
  main thread.
\<close>

section \<open>Time stamps\<close>

record timespec =
  tv_sec :: int
  tv_nsec :: int

definition timespec_add :: "timespec \<Rightarrow> timespec \<Rightarrow> timespec" where
  "timespec_add a b =
     (let s = tv_sec a + tv_sec b; n = tv_nsec a + tv_nsec b in
      if n \<ge> 1000000000 then \<lparr>tv_sec = s + 1, tv_nsec = n - 1000000000\<rparr> else \<lparr>tv_sec = s, tv_nsec = n\<rparr>)"

definition THREAD_IDLE_MAX_SEC :: int where "THREAD_IDLE_MAX_SEC = 60"
definition CORE_POOL_SIZE :: int where "CORE_POOL_SIZE = 3"

section \<open>State\<close>

text \<open>Where a worker is: before taking the lock at the top of its loop; waiting on \<open>send_task\<close>; woken up;
  past its waiting time; outside the lock with what it took as \<open>local_task\<close>; returned. The last three
  have still to take the lock.\<close>

datatype 'a wpc = Enter | Waiting | Woken | Expired | Run "'a option" | Gone

record 'a worker =
  w_core :: bool
  w_main :: bool
  w_pc :: "'a wpc"

text \<open>The caller of \<open>exec_task\<close> is outside it, waits on \<open>recv_task\<close>, or is woken up.\<close>

datatype main_pc = Outside | Blocked | Released

text \<open>The guarded variables, the threads, and two histories: the tasks given to \<open>exec_task\<close> and those a
  worker took.\<close>

record 'a pool =
  idle_threads :: int
  total_threads :: int
  pending_task :: "'a option"
  workers :: "'a worker list"
  caller :: main_pc
  submitted :: "'a list"
  started :: "'a list"

definition pool_init :: "'a pool" where
  "pool_init = \<lparr>idle_threads = 0, total_threads = 0, pending_task = None, workers = [], caller = Outside,
     submitted = [], started = []\<rparr>"

definition wpc_at :: "nat \<Rightarrow> 'a pool \<Rightarrow> 'a wpc" where
  "wpc_at i p = (if i < length (workers p) then w_pc (workers p ! i) else Gone)"

definition set_pc :: "nat \<Rightarrow> 'a wpc \<Rightarrow> 'a pool \<Rightarrow> 'a pool" where
  "set_pc i c p = p\<lparr>workers := (workers p)[i := (workers p ! i)\<lparr>w_pc := c\<rparr>]\<rparr>"

section \<open>Condition variables\<close>

definition waiting :: "'a pool \<Rightarrow> nat list" where
  "waiting p = filter (\<lambda>i. w_pc (workers p ! i) = Waiting) [0..<length (workers p)]"

text \<open>A signal wakes one waiting thread, the choice is the system's; it is lost when none waits.\<close>

definition signal_send :: "nat \<Rightarrow> 'a pool \<Rightarrow> 'a pool" where
  "signal_send choice p =
     (case waiting p of [] \<Rightarrow> p | ws \<Rightarrow> set_pc (ws ! (choice mod length ws)) Woken p)"

definition signal_recv :: "'a pool \<Rightarrow> 'a pool" where
  "signal_recv p = (if caller p = Blocked then p\<lparr>caller := Released\<rparr> else p)"

section \<open>Steps of the code\<close>

definition take_task :: "nat \<Rightarrow> 'a pool \<Rightarrow> 'a pool" where
  "take_task i p =
     (let p' = (case pending_task p of
          None \<Rightarrow> set_pc i (Run None) p
        | Some t \<Rightarrow> signal_recv (set_pc i (Run (Some t)) (p\<lparr>pending_task := None, started := started p @ [t]\<rparr>)))
      in p'\<lparr>idle_threads := idle_threads p' - 1\<rparr>)"

definition worker_enter :: "nat \<Rightarrow> 'a pool \<Rightarrow> 'a pool" where
  "worker_enter i p =
     (let p' = p\<lparr>idle_threads := idle_threads p + 1\<rparr> in
      if pending_task p' = None then set_pc i Waiting p' else take_task i p')"

definition worker_expired :: "nat \<Rightarrow> 'a pool \<Rightarrow> 'a pool" where
  "worker_expired i p = set_pc i Gone (p\<lparr>idle_threads := idle_threads p - 1, total_threads := total_threads p - 1\<rparr>)"

text \<open>The task has returned: the main thread of a process (a forked child) ends there.\<close>

definition worker_done :: "nat \<Rightarrow> 'a pool \<Rightarrow> 'a pool run" where
  "worker_done i p = (if w_main (workers p ! i) then Exit else Done (set_pc i Enter p))"

definition exec_task :: "'a \<Rightarrow> nat \<Rightarrow> 'a pool \<Rightarrow> 'a pool" where
  "exec_task t choice p =
     (let p1 = p\<lparr>pending_task := Some t, submitted := submitted p @ [t]\<rparr>;
          p2 = (if idle_threads p1 = 0
                then let n = total_threads p1 + 1 in
                  p1\<lparr>total_threads := n,
                     workers := workers p1 @ [\<lparr>w_core = (n \<le> CORE_POOL_SIZE), w_main = False, w_pc = Enter\<rparr>]\<rparr>
                else signal_send choice p1)
      in p2\<lparr>caller := Blocked\<rparr>)"

text \<open>The child of a fork made by worker \<open>i\<close>: the poll registry is cleared, only that thread is there, and it
  is the main thread.\<close>

definition reset_pool :: "nat \<Rightarrow> 'a pool \<Rightarrow> poll \<Rightarrow> 'a pool \<times> poll" where
  "reset_pool i p q =
     (p\<lparr>idle_threads := 0, total_threads := 0, pending_task := None,
        workers := [(workers p ! i)\<lparr>w_main := True\<rparr>], caller := Outside\<rparr>, clear_poll q)"

section \<open>The machine\<close>

datatype 'a event =
  Submit 'a nat | Return | Spurious_return
| Start nat | Resume nat | Leave nat | Finish nat
| Timeout nat | Spurious nat

definition pool_step :: "'a event \<Rightarrow> 'a pool \<Rightarrow> 'a pool option" where
  "pool_step e p =
     (case e of
        Submit t choice \<Rightarrow> if caller p = Outside then Some (exec_task t choice p) else None
      | Return \<Rightarrow> if caller p = Released then Some (p\<lparr>caller := Outside\<rparr>) else None
      | Spurious_return \<Rightarrow> if caller p = Blocked then Some (p\<lparr>caller := Released\<rparr>) else None
      | Start i \<Rightarrow> if wpc_at i p = Enter then Some (worker_enter i p) else None
      | Resume i \<Rightarrow> if wpc_at i p = Woken then Some (take_task i p) else None
      | Leave i \<Rightarrow> if wpc_at i p = Expired then Some (worker_expired i p) else None
      | Finish i \<Rightarrow> (case wpc_at i p of Run _ \<Rightarrow> (case worker_done i p of Exit \<Rightarrow> None | Done p' \<Rightarrow> Some p') | _ \<Rightarrow> None)
      | Timeout i \<Rightarrow> if wpc_at i p = Waiting \<and> \<not> w_core (workers p ! i) then Some (set_pc i Expired p) else None
      | Spurious i \<Rightarrow> if wpc_at i p = Waiting then Some (set_pc i Woken p) else None)"

section \<open>The invariant\<close>

definition idle_pc :: "'a wpc \<Rightarrow> bool" where
  "idle_pc c \<longleftrightarrow> c = Waiting \<or> c = Woken \<or> c = Expired"

text \<open>Points from which a worker goes on by itself.\<close>

definition able :: "'a wpc \<Rightarrow> bool" where
  "able c \<longleftrightarrow> c = Enter \<or> c = Woken \<or> (\<exists>t. c = Run t)"

definition headcount :: "('a worker \<Rightarrow> bool) \<Rightarrow> 'a pool \<Rightarrow> int" where
  "headcount P p = int (length (filter P (workers p)))"

lemma length_filter_update:
  "i < length xs \<Longrightarrow>
   int (length (filter P (xs[i := x]))) = int (length (filter P xs)) - of_bool (P (xs ! i)) + of_bool (P x)"
proof (induction xs arbitrary: i)
  case (Cons y ys)
  then show ?case by (cases i) (auto split: if_splits)
qed simp

lemma headcount_set_pc:
  "i < length (workers p) \<Longrightarrow>
   headcount P (set_pc i c p) = headcount P p - of_bool (P (workers p ! i)) + of_bool (P ((workers p ! i)\<lparr>w_pc := c\<rparr>))"
  by (simp add: headcount_def set_pc_def length_filter_update)

lemma set_pc_simps [simp]:
  "idle_threads (set_pc i c p) = idle_threads p" "total_threads (set_pc i c p) = total_threads p"
  "pending_task (set_pc i c p) = pending_task p" "caller (set_pc i c p) = caller p"
  "submitted (set_pc i c p) = submitted p" "started (set_pc i c p) = started p"
  "length (workers (set_pc i c p)) = length (workers p)"
  by (simp_all add: set_pc_def)

lemma set_pc_set:
  "i < length (workers p) \<Longrightarrow> w \<in> set (workers (set_pc i c p)) \<Longrightarrow>
   w \<in> set (workers p) \<or> w = (workers p ! i)\<lparr>w_pc := c\<rparr>"
  unfolding set_pc_def using set_update_subset_insert [of "workers p" i] by auto

lemma wpc_at_set_pc: "wpc_at j (set_pc i c p) = (if j = i \<and> i < length (workers p) then c else wpc_at j p)"
  by (simp add: wpc_at_def set_pc_def nth_list_update)

lemma headcount_upd [simp]:
  "headcount P (p\<lparr>idle_threads := x\<rparr>) = headcount P p" "headcount P (p\<lparr>total_threads := x\<rparr>) = headcount P p"
  "headcount P (p\<lparr>pending_task := t\<rparr>) = headcount P p" "headcount P (p\<lparr>caller := c\<rparr>) = headcount P p"
  "headcount P (p\<lparr>submitted := l\<rparr>) = headcount P p" "headcount P (p\<lparr>started := l\<rparr>) = headcount P p"
  by (simp_all add: headcount_def)

lemma wpc_at_upd [simp]:
  "wpc_at i (p\<lparr>idle_threads := x\<rparr>) = wpc_at i p" "wpc_at i (p\<lparr>total_threads := x\<rparr>) = wpc_at i p"
  "wpc_at i (p\<lparr>pending_task := t\<rparr>) = wpc_at i p" "wpc_at i (p\<lparr>caller := c\<rparr>) = wpc_at i p"
  "wpc_at i (p\<lparr>submitted := l\<rparr>) = wpc_at i p" "wpc_at i (p\<lparr>started := l\<rparr>) = wpc_at i p"
  by (simp_all add: wpc_at_def)

text \<open>The part of the invariant that counts: the counters are right, the first three threads are the core
  threads, and these never end.\<close>

definition counts :: "'a pool \<Rightarrow> bool" where
  "counts p \<longleftrightarrow>
     idle_threads p = headcount (\<lambda>w. idle_pc (w_pc w)) p \<and>
     total_threads p = headcount (\<lambda>w. w_pc w \<noteq> Gone) p \<and>
     headcount w_core p = min CORE_POOL_SIZE (total_threads p) \<and>
     (\<forall>w \<in> set (workers p). \<not> w_main w \<and> (w_core w \<longrightarrow> w_pc w \<noteq> Expired \<and> w_pc w \<noteq> Gone))"

text \<open>The whole: a task is pending exactly while the caller waits, there is then a worker that can take it,
  and the tasks were taken in the order they came, each once.\<close>

definition pool_inv :: "'a pool \<Rightarrow> bool" where
  "pool_inv p \<longleftrightarrow>
     counts p \<and> (pending_task p = None \<longleftrightarrow> caller p \<noteq> Blocked) \<and>
     (pending_task p \<noteq> None \<longrightarrow> (\<exists>i. able (wpc_at i p))) \<and>
     submitted p = started p @ (case pending_task p of None \<Rightarrow> [] | Some t \<Rightarrow> [t])"

lemma core_lt_total:
  assumes "counts p" and "w \<in> set (workers p)" and "\<not> w_core w" and "w_pc w \<noteq> Gone"
  shows "headcount w_core p < total_threads p"
proof -
  have "filter w_core (workers p) = filter w_core (filter (\<lambda>w. w_pc w \<noteq> Gone) (workers p))"
    using assms(1) by (auto simp: counts_def intro: filter_cong)
  moreover have "w \<in> set (filter (\<lambda>w. w_pc w \<noteq> Gone) (workers p))" using assms(2,4) by simp
  ultimately have "length (filter w_core (workers p)) < length (filter (\<lambda>w. w_pc w \<noteq> Gone) (workers p))"
    using assms(3) by (metis length_filter_less)
  then show ?thesis using assms(1) unfolding counts_def headcount_def by linarith
qed

text \<open>Every step moves one worker from one point to another and adapts the counters.\<close>

lemma counts_move:
  assumes "counts p" and i: "i < length (workers p)" and p': "workers p' = workers (set_pc i c p)"
    and "idle_threads p' = idle_threads p - of_bool (idle_pc (wpc_at i p)) + of_bool (idle_pc c)"
    and "total_threads p' = total_threads p - of_bool (c = Gone)" and "wpc_at i p \<noteq> Gone"
    and "c = Gone \<or> c = Expired \<Longrightarrow> \<not> w_core (workers p ! i)"
  shows "counts p'"
proof -
  have h: "headcount P p' = headcount P (set_pc i c p)" for P by (simp add: headcount_def p')
  have w: "w_pc (workers p ! i) = wpc_at i p" using i by (simp add: wpc_at_def)
  have m: "workers p ! i \<in> set (workers p)" using i by simp
  have nc: "\<not> w_core (workers p ! i) \<Longrightarrow> headcount w_core p < total_threads p"
    using core_lt_total [OF assms(1) m] w assms(6) by simp
  have core: "headcount w_core p' = headcount w_core p" by (simp add: h headcount_set_pc [OF i])
  moreover have "headcount w_core p = min CORE_POOL_SIZE (total_threads p')"
    using assms(1,5,7) nc by (cases "c = Gone") (auto simp: counts_def)
  moreover have "idle_threads p' = headcount (\<lambda>w. idle_pc (w_pc w)) p'"
    using assms(1,4) by (simp add: h headcount_set_pc [OF i] counts_def w)
  moreover have "total_threads p' = headcount (\<lambda>w. w_pc w \<noteq> Gone) p'"
    using assms(1,5,6) by (simp add: h headcount_set_pc [OF i] counts_def w)
  moreover have "\<forall>w \<in> set (workers p'). \<not> w_main w \<and> (w_core w \<longrightarrow> w_pc w \<noteq> Expired \<and> w_pc w \<noteq> Gone)"
    using assms(1,7) set_pc_set [OF i, of _ c] m unfolding p' by (fastforce simp: counts_def)
  ultimately show ?thesis by (simp add: counts_def)
qed

section \<open>Every step keeps the invariant\<close>

lemma wpc_at_len: "wpc_at i p \<noteq> Gone \<Longrightarrow> i < length (workers p)"
  by (auto simp: wpc_at_def split: if_splits)

lemma take_task_parts:
  "workers (take_task i p) = workers (set_pc i (Run (pending_task p)) p)"
  "idle_threads (take_task i p) = idle_threads p - 1" "total_threads (take_task i p) = total_threads p"
  "pending_task (take_task i p) = None" "submitted (take_task i p) = submitted p"
  "caller (take_task i p) = (if pending_task p \<noteq> None \<and> caller p = Blocked then Released else caller p)"
  "started (take_task i p) = started p @ (case pending_task p of None \<Rightarrow> [] | Some t \<Rightarrow> [t])"
  by (auto simp: take_task_def signal_recv_def set_pc_def Let_def split: option.split)

lemma wpc_at_workers: "workers p = workers q \<Longrightarrow> wpc_at i p = wpc_at i q"
  by (simp add: wpc_at_def)

lemma take_task_inv:
  assumes "pool_inv p" and "wpc_at i p = Woken"
  shows "pool_inv (take_task i p)"
proof -
  have i: "i < length (workers p)" using assms(2) wpc_at_len by force
  have "counts (take_task i p)"
    by (rule counts_move [OF _ i take_task_parts(1)])
      (use assms in \<open>auto simp: pool_inv_def take_task_parts idle_pc_def\<close>)
  then show ?thesis using assms(1) by (auto simp: pool_inv_def take_task_parts)
qed

lemma worker_enter_inv:
  assumes "pool_inv p" and "wpc_at i p = Enter"
  shows "pool_inv (worker_enter i p)"
proof -
  have i: "i < length (workers p)" using assms(2) wpc_at_len by force
  show ?thesis
  proof (cases "pending_task p")
    case None
    have w: "workers (worker_enter i p) = workers (set_pc i Waiting p)"
      by (simp add: worker_enter_def None set_pc_def)
    have "counts (worker_enter i p)"
      by (rule counts_move [OF _ i w]) (use assms None in \<open>auto simp: pool_inv_def worker_enter_def idle_pc_def\<close>)
    then show ?thesis using assms(1) None by (auto simp: pool_inv_def worker_enter_def)
  next
    case (Some t)
    have w: "workers (worker_enter i p) = workers (set_pc i (Run (Some t)) p)"
      by (simp add: worker_enter_def Some take_task_parts) (simp add: set_pc_def)
    have "counts (worker_enter i p)"
      by (rule counts_move [OF _ i w])
        (use assms Some in \<open>auto simp: pool_inv_def worker_enter_def idle_pc_def take_task_parts\<close>)
    then show ?thesis using assms(1) Some by (auto simp: pool_inv_def worker_enter_def take_task_parts)
  qed
qed

text \<open>A worker that changes its point without touching the task.\<close>

lemma quiet_move_inv:
  assumes "pool_inv p" and i: "i < length (workers p)" and w: "workers p' = workers (set_pc i c p)"
    and "idle_threads p' = idle_threads p - of_bool (idle_pc (wpc_at i p)) + of_bool (idle_pc c)"
    and "total_threads p' = total_threads p - of_bool (c = Gone)" and "wpc_at i p \<noteq> Gone"
    and "c = Gone \<or> c = Expired \<Longrightarrow> \<not> w_core (workers p ! i)" and "able (wpc_at i p) \<Longrightarrow> able c"
    and "pending_task p' = pending_task p" "caller p' = caller p" "submitted p' = submitted p" "started p' = started p"
  shows "pool_inv p'"
proof -
  have "counts p'" by (rule counts_move [OF _ i w assms(4-7)]) (use assms(1) in \<open>auto simp: pool_inv_def\<close>)
  moreover have "able (wpc_at j p')" if "able (wpc_at j p)" for j
    using that assms(8) i by (auto simp: wpc_at_workers [OF w] wpc_at_set_pc)
  ultimately show ?thesis using assms(1,9-) by (auto simp: pool_inv_def)
qed

lemma worker_done_inv:
  assumes "pool_inv p" and "wpc_at i p = Run t"
  shows "\<exists>p'. worker_done i p = Done p' \<and> pool_inv p'"
proof -
  have i: "i < length (workers p)" using assms(2) wpc_at_len by force
  then have "\<not> w_main (workers p ! i)" using assms(1) by (auto simp: pool_inv_def counts_def)
  moreover have "pool_inv (set_pc i Enter p)"
    by (rule quiet_move_inv [OF assms(1) i refl]) (use assms(2) in \<open>auto simp: idle_pc_def able_def\<close>)
  ultimately show ?thesis by (simp add: worker_done_def)
qed

lemma leave_inv:
  assumes "pool_inv p" and "wpc_at i p = Expired"
  shows "pool_inv (worker_expired i p)"
proof -
  have i: "i < length (workers p)" using assms(2) wpc_at_len by force
  then have "workers p ! i \<in> set (workers p)" "w_pc (workers p ! i) = Expired"
    using assms(2) by (simp_all add: wpc_at_def)
  then have "\<not> w_core (workers p ! i)" using assms(1) by (auto simp: pool_inv_def counts_def)
  then show ?thesis
    by (intro quiet_move_inv [OF assms(1) i, of _ Gone])
      (use assms(2) in \<open>auto simp: worker_expired_def idle_pc_def able_def set_pc_def\<close>)
qed

lemma waiting_inv:
  assumes "pool_inv p" and "wpc_at i p = Waiting" and "c = Woken \<or> c = Expired \<and> \<not> w_core (workers p ! i)"
  shows "pool_inv (set_pc i c p)"
proof -
  have i: "i < length (workers p)" using assms(2) wpc_at_len by force
  show ?thesis
    by (rule quiet_move_inv [OF assms(1) i refl]) (use assms(2,3) in \<open>auto simp: idle_pc_def able_def\<close>)
qed

lemma waiting_iff: "i \<in> set (waiting p) \<longleftrightarrow> wpc_at i p = Waiting"
  by (auto simp: waiting_def wpc_at_def)

lemma waiting_upd [simp]:
  "waiting (p\<lparr>pending_task := t\<rparr>) = waiting p" "waiting (p\<lparr>submitted := l\<rparr>) = waiting p"
  by (simp_all add: waiting_def)

lemma exec_spawn_counts:
  assumes "counts p" and "idle_threads p = 0"
  shows "counts (p\<lparr>total_threads := total_threads p + 1,
    workers := workers p @ [\<lparr>w_core = (total_threads p + 1 \<le> CORE_POOL_SIZE), w_main = False, w_pc = Enter\<rparr>]\<rparr>)"
  using assms by (auto simp: counts_def headcount_def idle_pc_def CORE_POOL_SIZE_def)

text \<open>No signal is sent to a waiting thread only if the idle threads are all past their time or woken up;
  as they are not core threads, the core threads are all busy.\<close>

lemma busy_core:
  assumes "counts p" and "idle_threads p \<noteq> 0" and "waiting p = []"
  shows "\<exists>i. able (wpc_at i p)"
proof -
  have nw: "w_pc w \<noteq> Waiting" if "w \<in> set (workers p)" for w
    using that assms(3) by (auto simp: in_set_conv_nth waiting_def filter_empty_conv)
  have ex: "\<exists>i. able (wpc_at i p)" if "w \<in> set (workers p)" "able (w_pc w)" for w
    using that by (auto simp: in_set_conv_nth wpc_at_def)
  have "filter (\<lambda>w. idle_pc (w_pc w)) (workers p) \<noteq> []"
    using assms(1,2) by (auto simp: counts_def headcount_def)
  then obtain w where w: "w \<in> set (workers p)" "idle_pc (w_pc w)" by (auto simp: filter_empty_conv)
  show ?thesis
  proof (cases "w_pc w = Woken")
    case True
    then show ?thesis using ex [OF w(1)] by (simp add: able_def)
  next
    case False
    then have e: "w_pc w = Expired" using w nw by (auto simp: idle_pc_def)
    then have "\<not> w_core w" using assms(1) w(1) by (auto simp: counts_def)
    then have "headcount w_core p < total_threads p" using core_lt_total [OF assms(1) w(1)] e by simp
    then have "headcount w_core p = 3" using assms(1) by (simp add: counts_def CORE_POOL_SIZE_def)
    then have "filter w_core (workers p) \<noteq> []" by (auto simp: headcount_def)
    then obtain v where v: "v \<in> set (workers p)" "w_core v" by (auto simp: filter_empty_conv)
    then have "w_pc v \<noteq> Expired" "w_pc v \<noteq> Gone" using assms(1) by (auto simp: counts_def)
    then have "able (w_pc v)" using nw [OF v(1)] by (cases "w_pc v") (auto simp: able_def)
    then show ?thesis by (rule ex [OF v(1)])
  qed
qed

lemma counts_upd [simp]:
  "counts (p\<lparr>pending_task := t\<rparr>) = counts p" "counts (p\<lparr>caller := c\<rparr>) = counts p"
  "counts (p\<lparr>submitted := l\<rparr>) = counts p"
  by (simp_all add: counts_def)

lemma exec_task_inv:
  assumes "pool_inv p" and "caller p = Outside"
  shows "pool_inv (exec_task t choice p)"
proof -
  let ?p = "p\<lparr>pending_task := Some t, submitted := submitted p @ [t]\<rparr>"
  have c: "counts p" and n: "pending_task p = None" and s: "submitted p = started p"
    using assms by (auto simp: pool_inv_def)
  show ?thesis
  proof (cases "idle_threads p = 0")
    case True
    have "counts (exec_task t choice p)"
      using exec_spawn_counts [OF c True] True by (auto simp: exec_task_def Let_def counts_def headcount_def)
    moreover have "able (wpc_at (length (workers p)) (exec_task t choice p))"
      using True by (simp add: exec_task_def Let_def able_def wpc_at_def)
    ultimately show ?thesis using True s unfolding pool_inv_def by (auto simp: exec_task_def Let_def)
  next
    case False
    have e: "exec_task t choice p = (signal_send choice ?p)\<lparr>caller := Blocked\<rparr>"
      using False by (simp add: exec_task_def Let_def)
    show ?thesis
    proof (cases "waiting p")
      case Nil
      then show ?thesis
        unfolding e using busy_core [OF c False Nil] c s by (simp add: signal_send_def Nil pool_inv_def)
    next
      case (Cons a ws)
      let ?i = "(a # ws) ! (choice mod length (a # ws))"
      have "?i \<in> set (waiting p)" unfolding Cons by (rule nth_mem) simp
      then have i: "wpc_at ?i p = Waiting" by (simp add: waiting_iff)
      then have l: "?i < length (workers p)" by (intro wpc_at_len) simp
      have "counts (set_pc ?i Woken ?p)"
        by (rule counts_move [of ?p ?i, OF _ _ refl]) (use c i l in \<open>auto simp: idle_pc_def\<close>)
      moreover have "able (wpc_at ?i (set_pc ?i Woken ?p))" using l by (simp add: wpc_at_set_pc able_def)
      ultimately show ?thesis
        unfolding e using s by (auto simp: signal_send_def Cons pool_inv_def simp del: nth_Cons_pos)
    qed
  qed
qed

lemma pool_step_inv:
  assumes "pool_inv p" and "e \<noteq> Spurious_return" and "pool_step e p = Some p'"
  shows "pool_inv p'"
proof (cases e)
  case (Finish i)
  then show ?thesis
    using assms worker_done_inv [OF assms(1), of i] by (auto simp: pool_step_def split: wpc.splits run.splits)
next
  case Return
  then show ?thesis using assms by (auto simp: pool_step_def pool_inv_def split: if_splits)
qed (use assms in \<open>auto simp: pool_step_def split: if_splits
    intro: exec_task_inv worker_enter_inv take_task_inv leave_inv waiting_inv\<close>)

interpretation pool: machine pool_step "\<lambda>e. e \<noteq> Spurious_return" pool_inv
  by unfold_locales (rule pool_step_inv)

lemma pool_init_inv: "pool_inv pool_init"
  by (simp add: pool_inv_def pool_init_def counts_def headcount_def CORE_POOL_SIZE_def)

section \<open>Properties\<close>

text \<open>C4: in every state the pool reaches (without a wake-up of the caller that nobody sent), the counters are
  the numbers of idle and of living threads, the core threads are the first three and at most three,
  and the tasks given to \<open>exec_task\<close> are taken once each, in their order, at most the last one pending.\<close>

theorem pool_counters:
  assumes "run_events pool_step es pool_init = Some p" and "Spurious_return \<notin> set es"
  shows "idle_threads p = headcount (\<lambda>w. w_pc w \<in> {Waiting, Woken, Expired}) p \<and>
    total_threads p = headcount (\<lambda>w. w_pc w \<noteq> Gone) p \<and>
    headcount w_core p = min CORE_POOL_SIZE (total_threads p) \<and>
    submitted p = started p @ (case pending_task p of None \<Rightarrow> [] | Some t \<Rightarrow> [t])"
proof -
  have "list_all (\<lambda>e. e \<noteq> Spurious_return) es" using assms(2) by (auto simp: list_all_iff)
  then have "pool_inv p" using pool.run_inv [OF pool_init_inv _ assms(1)] by blast
  then show ?thesis by (auto simp: pool_inv_def counts_def headcount_def idle_pc_def)
qed

lemmas pool_eval =
  pool_step_def pool_init_def exec_task_def worker_enter_def take_task_def worker_done_def worker_expired_def
  signal_send_def signal_recv_def waiting_def wpc_at_def set_pc_def CORE_POOL_SIZE_def Let_def upt_rec

theorem pool_counters_witness:
  "\<exists>p. run_events pool_step [Submit (7::nat) 0, Start 0, Return, Submit 8 0] pool_init = Some p \<and>
     submitted p = started p @ [8] \<and> total_threads p = headcount (\<lambda>w. w_pc w \<noteq> Gone) p"
proof -
  obtain p where p: "run_events pool_step [Submit (7::nat) 0, Start 0, Return, Submit 8 0] pool_init = Some p"
      "pending_task p = Some 8" by (simp add: pool_eval)
  show ?thesis using pool_counters [OF p(1)] p by auto
qed

section \<open>Every task is taken\<close>

fun mover :: "'a event \<Rightarrow> nat option" where
  "mover (Start i) = Some i"
| "mover (Resume i) = Some i"
| "mover (Leave i) = Some i"
| "mover (Finish i) = Some i"
| "mover _ = None"

lemma wpc_at_exec:
  assumes "wpc_at i p \<noteq> Waiting" and "wpc_at i p \<noteq> Gone"
  shows "wpc_at i (exec_task t choice p) = wpc_at i p"
proof -
  have l: "i < length (workers p)" using assms(2) by (rule wpc_at_len)
  show ?thesis
  proof (cases "waiting p")
    case Nil
    then show ?thesis using l by (simp add: exec_task_def Let_def signal_send_def wpc_at_def nth_append)
  next
    case (Cons a ws)
    let ?j = "(a # ws) ! (choice mod length (a # ws))"
    have "?j \<in> set (waiting p)" unfolding Cons by (rule nth_mem) simp
    then have "?j \<noteq> i" using assms(1) by (auto simp: waiting_iff)
    then show ?thesis
      using l by (auto simp: exec_task_def Let_def signal_send_def Cons wpc_at_def nth_append set_pc_def
          simp del: nth_Cons_pos)
  qed
qed

lemma wpc_at_take: "wpc_at i (take_task j p) = (if i = j \<and> j < length (workers p) then Run (pending_task p) else wpc_at i p)"
  by (simp add: wpc_at_workers [OF take_task_parts(1)] wpc_at_set_pc)

lemma able_stays:
  assumes "pool_step e p = Some p'" and "mover e \<noteq> Some i" and "able (wpc_at i p)"
  shows "wpc_at i p' = wpc_at i p"
proof (cases e)
  case (Submit t c)
  then show ?thesis using assms wpc_at_exec [of i p t c] by (auto simp: pool_step_def able_def split: if_splits)
next
  case (Finish j)
  then show ?thesis using assms
    by (auto simp: pool_step_def worker_done_def wpc_at_set_pc split: wpc.splits run.splits if_splits)
qed (use assms in \<open>auto simp: pool_step_def worker_enter_def worker_expired_def wpc_at_take wpc_at_set_pc able_def Let_def
    split: if_splits\<close>)

interpretation pool_threads: agents pool_step "\<lambda>e. e \<noteq> Spurious_return" pool_inv wpc_at mover able
  by unfold_locales (rule able_stays)

lemma pending_stays:
  assumes "pool_inv p" and "pool_step e p = Some p'" and "pending_task p = Some t"
  shows "pending_task p' = Some t \<or> pending_task p' = None \<and> started p' = started p @ [t] \<and> caller p' = Released"
proof -
  have "caller p = Blocked" using assms(1,3) by (auto simp: pool_inv_def)
  then show ?thesis using assms(2,3)
    by (cases e) (auto simp: pool_step_def worker_enter_def worker_done_def worker_expired_def take_task_parts Let_def
      split: if_splits wpc.splits run.splits)
qed

lemma move_takes:
  assumes "pool_inv p" and "pool_step e p = Some p'" and "mover e = Some i" and "pending_task p = Some t"
    and "wpc_at i p = Enter \<or> wpc_at i p = Woken"
  shows "pending_task p' = None"
  using assms(2-5) by (cases e) (auto simp: pool_step_def worker_enter_def take_task_parts Let_def split: if_splits wpc.splits)

lemma move_run:
  assumes "pool_inv p" and "pool_step e p = Some p'" and "mover e = Some i" and "wpc_at i p = Run u"
  shows "wpc_at i p' = Enter"
  using assms(2-4) wpc_at_len [of i p]
  by (cases e) (auto simp: pool_step_def worker_done_def wpc_at_set_pc split: if_splits wpc.splits run.splits)

text \<open>A task stays pending until it is taken, so it is taken by the first worker that gets there.\<close>

lemma pending_until:
  assumes "endless pool_step st ev" and "\<And>n. pool_inv (st n)" and "pending_task (st n) = Some t" and "n \<le> m"
  shows "pending_task (st m) = Some t \<or>
    (\<exists>k. n \<le> k \<and> k < m \<and> pending_task (st k) = Some t \<and> started (st (Suc k)) = started (st k) @ [t] \<and> caller (st (Suc k)) = Released)"
  using assms(4)
proof (induction m rule: dec_induct)
  case (step m)
  have "pool_step (ev m) (st m) = Some (st (Suc m))" using assms(1) by (simp add: endless_def)
  then show ?case
    using pending_stays [OF assms(2)] step by (metis less_Suc_eq)
qed (use assms(3) in simp)

text \<open>C3: in an endless run in which every thread that can go on does so at some time (which includes that the
  tasks return), a task given to \<open>exec_task\<close> is taken by a worker, which lets the caller go on.\<close>

theorem task_taken:
  assumes run: "endless pool_step st ev" and init: "st 0 = pool_init" and ok: "\<And>n. ev n \<noteq> Spurious_return"
    and fair: "fair wpc_at mover able st ev" and t: "pending_task (st n) = Some t"
  shows "\<exists>k\<ge>n. pending_task (st k) = Some t \<and> started (st (Suc k)) = started (st k) @ [t] \<and> caller (st (Suc k)) = Released"
proof -
  have i0: "pool_inv (st 0)" by (simp add: init pool_init_inv)
  have inv: "pool_inv (st n)" for n by (rule pool.endless_inv [OF run i0 ok])
  have step: "pool_step (ev n) (st n) = Some (st (Suc n))" for n using run by (simp add: endless_def)
  have ready: ?thesis if "n \<le> m" and "wpc_at i (st m) = Enter \<or> wpc_at i (st m) = Woken" for i m
  proof -
    have "able (wpc_at i (st m))" using that(2) by (auto simp: able_def)
    then obtain k where k: "m \<le> k" "mover (ev k) = Some i" "wpc_at i (st k) = wpc_at i (st m)"
      using pool_threads.first_move [OF run i0 ok fair] by blast
    show ?thesis
    proof (rule ccontr)
      assume no: "\<not> ?thesis"
      have p: "pending_task (st l) = Some t" if "n \<le> l" for l
        using pending_until [OF run inv t that] no by blast
      have "pending_task (st (Suc k)) = None"
        using move_takes [OF inv step k(2) p] k that by simp
      then show False using p [of "Suc k"] k(1) that(1) by simp
    qed
  qed
  obtain i where i: "able (wpc_at i (st n))" using inv [of n] t by (auto simp: pool_inv_def)
  show ?thesis
  proof (cases "\<exists>u. wpc_at i (st n) = Run u")
    case True
    obtain k where k: "n \<le> k" "mover (ev k) = Some i" "wpc_at i (st k) = wpc_at i (st n)"
      using pool_threads.first_move [OF run i0 ok fair i] by blast
    then have "wpc_at i (st (Suc k)) = Enter" using True move_run [OF inv step k(2)] by auto
    then show ?thesis using ready [of "Suc k" i] k(1) by simp
  next
    case False
    then show ?thesis using ready [of n i] i by (auto simp: able_def)
  qed
qed

text \<open>A run with one task: afterwards the worker is woken up for nothing again and again.\<close>

definition demo_worker :: "nat wpc \<Rightarrow> int \<Rightarrow> nat pool" where
  "demo_worker c n = \<lparr>idle_threads = n, total_threads = 1, pending_task = None,
     workers = [\<lparr>w_core = True, w_main = False, w_pc = c\<rparr>], caller = Outside, submitted = [7], started = [7]\<rparr>"

definition demo_prefix :: "(nat pool \<times> nat event) list" where
  "demo_prefix =
     [(pool_init, Submit 7 0),
      ((demo_worker Enter 0)\<lparr>pending_task := Some 7, caller := Blocked, started := []\<rparr>, Start 0),
      ((demo_worker (Run (Some 7)) 0)\<lparr>caller := Released\<rparr>, Return),
      (demo_worker (Run (Some 7)) 0, Finish 0), (demo_worker Enter 0, Start 0)]"

definition demo_cycle :: "(nat pool \<times> nat event) list" where
  "demo_cycle = [(demo_worker Waiting 1, Spurious 0), (demo_worker Woken 1, Resume 0),
     (demo_worker (Run None) 0, Finish 0), (demo_worker Enter 0, Start 0)]"

definition demo :: "nat \<Rightarrow> nat pool \<times> nat event" where
  "demo n = (if n < 5 then demo_prefix ! n else demo_cycle ! ((n - 5) mod 4))"

lemma mod4_cases: "n mod 4 = 0 \<or> n mod 4 = 1 \<or> n mod 4 = 2 \<or> n mod 4 = (3::nat)"
  by presburger

lemma demo_later: "demo (5 + k) = demo_cycle ! (k mod 4)" "demo (Suc (5 + k)) = demo_cycle ! (Suc (k mod 4) mod 4)"
  by (simp_all add: demo_def mod_Suc_eq)

lemma demo_endless: "endless pool_step (fst \<circ> demo) (snd \<circ> demo)"
  unfolding endless_def
proof
  fix n
  show "pool_step ((snd \<circ> demo) n) ((fst \<circ> demo) n) = Some ((fst \<circ> demo) (Suc n))"
  proof (cases "n < 5")
    case True
    then have "n = 0 \<or> n = 1 \<or> n = 2 \<or> n = 3 \<or> n = 4" by auto
    then show ?thesis by (auto simp: demo_def demo_prefix_def demo_cycle_def demo_worker_def pool_eval)
  next
    case False
    then obtain k where n: "n = 5 + k" using le_Suc_ex not_less by blast
    show ?thesis unfolding n comp_apply demo_later using mod4_cases [of k]
      by (auto simp: demo_cycle_def demo_worker_def pool_eval)
  qed
qed

lemma demo_fair: "fair wpc_at mover able (fst \<circ> demo) (snd \<circ> demo)"
  unfolding fair_def
proof (intro allI impI)
  fix n i
  assume "able (wpc_at i ((fst \<circ> demo) n))"
  moreover have "length (workers ((fst \<circ> demo) n)) \<le> 1"
  proof (cases "n < 5")
    case True
    then have "n = 0 \<or> n = 1 \<or> n = 2 \<or> n = 3 \<or> n = 4" by auto
    then show ?thesis by (auto simp: demo_def demo_prefix_def demo_worker_def pool_init_def)
  next
    case False
    with mod4_cases [of "n - 5"] show ?thesis by (auto simp: demo_def demo_cycle_def demo_worker_def)
  qed
  ultimately have "i = 0" by (auto simp: wpc_at_def able_def split: if_splits)
  moreover have "mover ((snd \<circ> demo) (4 * n + 6)) = Some 0"
  proof -
    have "4 * n + 6 - 5 = 1 + 4 * n" by simp
    then have "(4 * n + 6 - 5) mod 4 = 1" by presburger
    then show ?thesis by (simp add: demo_def demo_cycle_def)
  qed
  ultimately show "\<exists>m\<ge>n. mover ((snd \<circ> demo) m) = Some i" by (intro exI [of _ "4 * n + 6"]) simp
qed

theorem task_taken_witness:
  "\<exists>k\<ge>1. started (fst (demo (Suc k))) = started (fst (demo k)) @ [7]"
proof -
  have "(snd \<circ> demo) n \<noteq> Spurious_return" for n
  proof (cases "n < 5")
    case True
    then have "n = 0 \<or> n = 1 \<or> n = 2 \<or> n = 3 \<or> n = 4" by auto
    then show ?thesis by (auto simp: demo_def demo_prefix_def)
  next
    case False
    with mod4_cases [of "n - 5"] show ?thesis by (auto simp: demo_def demo_cycle_def)
  qed
  moreover have "pending_task ((fst \<circ> demo) 1) = Some 7" "(fst \<circ> demo) 0 = pool_init"
    by (simp_all add: demo_def demo_prefix_def)
  ultimately have "\<exists>k\<ge>1. pending_task ((fst \<circ> demo) k) = Some 7 \<and>
      started ((fst \<circ> demo) (Suc k)) = started ((fst \<circ> demo) k) @ [7] \<and> caller ((fst \<circ> demo) (Suc k)) = Released"
    by (intro task_taken [OF demo_endless _ _ demo_fair])
  then show ?thesis by (metis comp_apply)
qed

section \<open>Where the pool goes wrong\<close>

definition lost_pool :: "nat pool" where
  "lost_pool = \<lparr>idle_threads = 0, total_threads = 3, pending_task = Some 5,
     workers = [\<lparr>w_core = True, w_main = False, w_pc = Run (Some 1)\<rparr>, \<lparr>w_core = True, w_main = False, w_pc = Run (Some 2)\<rparr>,
       \<lparr>w_core = True, w_main = False, w_pc = Run (Some 3)\<rparr>, \<lparr>w_core = False, w_main = False, w_pc = Gone\<rparr>],
     caller = Blocked, submitted = [1, 2, 3, 4, 5], started = [1, 2, 3, 4]\<rparr>"

text \<open>C36: a signal can be lost. A thread that has waited its time is still counted as idle until it takes the
  lock again, so \<open>exec_task\<close> signals instead of starting a thread although nobody waits; the thread then
  leaves. The caller is blocked with no idle thread, until one of the other tasks returns.\<close>

theorem signal_lost:
  "\<exists>es p. Spurious_return \<notin> set es \<and> run_events pool_step es pool_init = Some p \<and>
     pending_task p = Some (5::nat) \<and> caller p = Blocked \<and> idle_threads p = 0 \<and>
     (\<forall>i. wpc_at i p = Gone \<or> (\<exists>t. wpc_at i p = Run (Some t)))"
proof -
  let ?es = "[Submit 1 0, Start 0, Return, Submit 2 0, Start 1, Return, Submit 3 0, Start 2, Return,
    Submit 4 0, Start 3, Return, Finish 3, Start 3, Timeout 3, Submit 5 0, Leave 3] :: nat event list"
  have "run_events pool_step ?es pool_init = Some lost_pool" by code_simp
  moreover have "wpc_at i lost_pool = Gone \<or> (\<exists>t. wpc_at i lost_pool = Run (Some t))" for i
  proof -
    have "\<forall>w \<in> set (workers lost_pool). w_pc w = Gone \<or> (\<exists>t. w_pc w = Run (Some t))" by (simp add: lost_pool_def)
    then show ?thesis by (auto simp: wpc_at_def)
  qed
  moreover have "Spurious_return \<notin> set ?es" by simp
  ultimately show ?thesis by (intro exI [of _ ?es] exI [of _ lost_pool]) (simp add: lost_pool_def)
qed

text \<open>A wake-up of the caller that nobody sent, which the system may make, loses the pending task: there is
  no loop around the wait in \<open>exec_task\<close>.\<close>

lemma task_lost:
  "\<exists>es p. run_events pool_step es pool_init = Some p \<and> 1 \<in> set (submitted p) \<and> (1::nat) \<notin> set (started p) \<and>
     pending_task p = Some 2"
  by (rule exI [of _ "[Submit 1 0, Spurious_return, Return, Submit 2 0]"]) (simp add: pool_eval)

text \<open>Adding to a time stamp keeps it in its normal form.\<close>

lemma timespec_add_normal:
  assumes "0 \<le> tv_nsec a" "tv_nsec a < 1000000000" "0 \<le> tv_nsec b" "tv_nsec b < 1000000000"
  shows "0 \<le> tv_nsec (timespec_add a b) \<and> tv_nsec (timespec_add a b) < 1000000000 \<and>
    tv_sec (timespec_add a b) * 1000000000 + tv_nsec (timespec_add a b) =
      (tv_sec a + tv_sec b) * 1000000000 + tv_nsec a + tv_nsec b"
  using assms by (simp add: timespec_add_def Let_def)

text \<open>A forked child ends when the task that forked returns.\<close>

lemma child_exits: "worker_done 0 (fst (reset_pool i p q)) = Exit"
  by (simp add: worker_done_def reset_pool_def)

end
