(* ===== verification/Core_Daemon.thy ===== *)
theory Core_Daemon
  imports Core_Thread Base_Misc
begin

unbundle bit_operations_syntax

text \<open>
  Requests to the daemon: who may ask for what and which handler answers
  (\<^verbatim>\<open>src/native/src/core/daemon.cpp\<close>), the boot stages (\<^verbatim>\<open>src/native/src/core/daemon.rs\<close>), the client side
  of the connection, the command line of \<open>magisk\<close> (\<^verbatim>\<open>src/native/src/core/magisk.cpp\<close>,
  \<^verbatim>\<open>src/native/src/core/applets.cpp\<close>), and the native bridge property that loads zygisk. What a handler of
  another component does is an effect; what the system says (credentials, properties, devices) is an
  argument.
\<close>

section \<open>Codes\<close>

definition START_DAEMON :: int where "START_DAEMON = 0"
definition CHECK_VERSION :: int where "CHECK_VERSION = 1"
definition CHECK_VERSION_CODE :: int where "CHECK_VERSION_CODE = 2"
definition STOP_DAEMON :: int where "STOP_DAEMON = 3"
definition SYNC_BARRIER :: int where "SYNC_BARRIER = 4"
definition SUPERUSER :: int where "SUPERUSER = 5"
definition ZYGOTE_RESTART :: int where "ZYGOTE_RESTART = 6"
definition DENYLIST :: int where "DENYLIST = 7"
definition SQLITE_CMD :: int where "SQLITE_CMD = 8"
definition REMOVE_MODULES :: int where "REMOVE_MODULES = 9"
definition ZYGISK :: int where "ZYGISK = 10"
definition STAGE_BARRIER :: int where "STAGE_BARRIER = 11"
definition POST_FS_DATA :: int where "POST_FS_DATA = 12"
definition LATE_START :: int where "LATE_START = 13"
definition BOOT_COMPLETE :: int where "BOOT_COMPLETE = 14"
definition REQ_END :: int where "REQ_END = 15"

lemmas request_codes =
  START_DAEMON_def CHECK_VERSION_def CHECK_VERSION_CODE_def STOP_DAEMON_def SYNC_BARRIER_def SUPERUSER_def
  ZYGOTE_RESTART_def DENYLIST_def SQLITE_CMD_def REMOVE_MODULES_def ZYGISK_def STAGE_BARRIER_def
  POST_FS_DATA_def LATE_START_def BOOT_COMPLETE_def REQ_END_def

definition RESP_ERROR :: int where "RESP_ERROR = -1"
definition RESP_OK :: int where "RESP_OK = 0"
definition ROOT_REQUIRED :: int where "ROOT_REQUIRED = 1"
definition ACCESS_DENIED :: int where "ACCESS_DENIED = 2"
definition RESP_END :: int where "RESP_END = 3"

lemmas respond_codes = RESP_ERROR_def RESP_OK_def ROOT_REQUIRED_def ACCESS_DENIED_def RESP_END_def

definition AID_ROOT :: int where "AID_ROOT = 0"
definition AID_SHELL :: int where "AID_SHELL = 2000"

definition ZYGISKLDR :: string where "ZYGISKLDR = ''libzygisk.so''"
definition NBPROP :: string where "NBPROP = ''ro.dalvik.vm.native.bridge''"

section \<open>Credentials\<close>

record sock_cred =
  cred_pid :: int
  cred_uid :: int
  cred_context :: string

text \<open>\<open>peer\<close> and \<open>sec\<close> are what the two calls of \<open>getsockopt\<close> give, if they succeed; a security context that
  fills the buffer has its end written behind it.\<close>

definition get_client_cred :: "(int \<times> int) option \<Rightarrow> bytes option \<Rightarrow> sock_cred option option" where
  "get_client_cred peer sec =
     (case peer of
        None \<Rightarrow> Some None
      | Some (pid, uid) \<Rightarrow>
          (let b = (case sec of None \<Rightarrow> [] | Some b \<Rightarrow> b) in
           if length b < 4096
           then Some (Some \<lparr>cred_pid = pid, cred_uid = uid, cred_context = c_str (string_of b)\<rparr>)
           else None))"

section \<open>Handlers\<close>

datatype effect =
  Reply bytes | Close_client | Exit_daemon | Setup_logfile | Revert_unmount | Set_prop string string
| Run_denylist sock_cred | Run_superuser sock_cred | Prune_su_access | Scan_deny_apps | Zygisk_reset bool
| Run_db_exec | Run_remove_modules | Run_reboot | Run_zygisk | Run_boot_stage int

record daemon_env =
  magisk_version :: string
  magisk_ver_code :: int
  prop_of :: "string \<Rightarrow> string"

definition reply_int :: "int \<Rightarrow> effect" where
  "reply_int v = Reply (write_int 0 v [])"

definition handle_request_async :: "int \<Rightarrow> sock_cred \<Rightarrow> bytes \<Rightarrow> effect list option" where
  "handle_request_async code cred inp =
     (if code = DENYLIST then Some [Run_denylist cred]
      else if code = SUPERUSER then Some [Run_superuser cred]
      else if code = ZYGOTE_RESTART then Some [Prune_su_access, Scan_deny_apps, Zygisk_reset False, Close_client]
      else if code = SQLITE_CMD then Some [Run_db_exec]
      else if code = REMOVE_MODULES then
        Some ([Run_remove_modules, reply_int 0, Close_client] @ (if fst (read_int inp) \<noteq> 0 then [Run_reboot] else []))
      else if code = ZYGISK then Some [Run_zygisk]
      else None)"

text \<open>What stopping the daemon does to the native bridge property.\<close>

definition stop_prop :: "string \<Rightarrow> string option" where
  "stop_prop nb =
     (if nb = ZYGISKLDR then Some ''0''
      else if length nb > length ZYGISKLDR then Some (drop (length ZYGISKLDR) nb) else None)"

definition handle_request_sync :: "daemon_env \<Rightarrow> int \<Rightarrow> effect list option" where
  "handle_request_sync env code =
     (if code = CHECK_VERSION then Some [Reply (write_string 0 (magisk_version env @ '':MAGISK:R'') [])]
      else if code = CHECK_VERSION_CODE then Some [reply_int (magisk_ver_code env)]
      else if code = START_DAEMON then Some [Setup_logfile]
      else if code = STOP_DAEMON then
        Some ([Revert_unmount] @ (case stop_prop (prop_of env NBPROP) of None \<Rightarrow> [] | Some v \<Rightarrow> [Set_prop NBPROP v]) @
              [reply_int 0, Exit_daemon])
      else None)"

text \<open>\<open>st\<close> is the device and inode of the executable of a process, \<open>self\<close> those of the daemon.\<close>

definition is_client :: "(int \<Rightarrow> (int \<times> int) option) \<Rightarrow> int \<times> int \<Rightarrow> int \<Rightarrow> bool" where
  "is_client st self pid = (case st pid of None \<Rightarrow> False | Some i \<Rightarrow> fst i = fst self \<and> snd i = snd self)"

text \<open>The requests only root may make.\<close>

definition root_only :: "int \<Rightarrow> bool" where
  "root_only code \<longleftrightarrow>
     code \<in> {POST_FS_DATA, LATE_START, BOOT_COMPLETE, ZYGOTE_RESTART, SQLITE_CMD, DENYLIST, STOP_DAEMON}"

text \<open>What the main thread does at once, and the task it gives to the thread pool.\<close>

definition handle_request ::
    "daemon_env \<Rightarrow> (int \<Rightarrow> bool) \<Rightarrow> sock_cred option \<Rightarrow> bytes \<Rightarrow> (effect list \<times> effect list option) option" where
  "handle_request env client_exe cred inp =
     (case cred of
        None \<Rightarrow> Some ([Close_client], None)
      | Some c \<Rightarrow>
          let is_root = (cred_uid c = AID_ROOT); is_zygote = (cred_context c = ''u:r:zygote:s0'') in
          if \<not> is_root \<and> \<not> is_zygote \<and> \<not> client_exe (cred_pid c)
          then Some ([reply_int ACCESS_DENIED, Close_client], None)
          else
            let (code, inp') = read_int inp in
            if code < 0 \<or> code \<ge> REQ_END \<or> code = SYNC_BARRIER \<or> code = STAGE_BARRIER
            then Some ([Close_client], None)
            else if root_only code \<and> \<not> is_root
            then Some ([reply_int ROOT_REQUIRED, Close_client], None)
            else if code = REMOVE_MODULES \<and> \<not> is_root \<and> cred_uid c \<noteq> AID_SHELL
            then Some ([reply_int ACCESS_DENIED, Close_client], None)
            else if code = ZYGISK \<and> \<not> is_zygote
            then Some ([reply_int ACCESS_DENIED, Close_client], None)
            else if code < SYNC_BARRIER then
              do { es \<leftarrow> handle_request_sync env code; Some ([reply_int RESP_OK] @ es @ [Close_client], None) }
            else if code < STAGE_BARRIER then
              do { es \<leftarrow> handle_request_async code c inp'; Some ([reply_int RESP_OK], Some es) }
            else Some ([reply_int RESP_OK], Some [Run_boot_stage code]))"

section \<open>The client\<close>

definition get_magisk_tmp :: "(string \<Rightarrow> bool) \<Rightarrow> string option \<Rightarrow> string" where
  "get_magisk_tmp present cache =
     (case cache of
        Some path \<Rightarrow> path
      | None \<Rightarrow> if present ''/debug_ramdisk/.magisk'' then ''/debug_ramdisk''
                else if present ''/sbin/.magisk'' then ''/sbin'' else [])"

text \<open>\<open>up n\<close>: the \<open>n\<close>-th attempt to connect succeeds.\<close>

partial_function (option) wait_connect :: "(nat \<Rightarrow> bool) \<Rightarrow> nat \<Rightarrow> nat option" where
  "wait_connect up n = (if up n then Some n else wait_connect up (n + 1))"

definition response_ok :: "bytes \<Rightarrow> bool" where
  "response_ok reply =
     (let res = fst (read_int reply);
          res = (if res < RESP_ERROR \<or> res \<ge> RESP_END then RESP_ERROR else res)
      in res = RESP_OK)"

text \<open>The bytes sent to the daemon and whether the caller gets a connection; \<open>answer\<close> is what the daemon
  replies to them.\<close>

definition connect_daemon ::
    "(nat \<Rightarrow> bool) \<Rightarrow> int \<Rightarrow> string \<Rightarrow> string \<Rightarrow> (bytes \<Rightarrow> bytes) \<Rightarrow> int \<Rightarrow> bool \<Rightarrow> (bytes \<times> bool) option" where
  "connect_daemon up uid exe tmp answer req create =
     (let talk = (let sent = write_int 0 req [] in (sent, response_ok (answer sent))) in
      if up 0 then Some talk
      else if \<not> create \<or> uid \<noteq> AID_ROOT then Some ([], False)
      else if tmp = [] \<or> \<not> str_starts exe tmp then Some ([], False)
      else do { _ \<leftarrow> wait_connect up 1; Some talk })"

section \<open>Starting the daemon\<close>

datatype start_effect =
  Android_logging | Block_signals | Set_nice_name | Dup_null | Stat_self | Bind_socket bool | Listen | New_registry
| Register_main_socket | Init_thread_pool | Poll_loop

text \<open>The steps of \<open>daemon_entry\<close>; in their middle it calls itself.\<close>

partial_function (option) daemon_entry :: "bool \<Rightarrow> start_effect list \<Rightarrow> start_effect list option" where
  "daemon_entry bound log =
     do { log \<leftarrow> daemon_entry bound (log @ [Android_logging, Block_signals, Set_nice_name, Dup_null]);
          if \<not> bound then Some (log @ [Stat_self, Bind_socket False])
          else Some (log @ [Stat_self, Bind_socket True, Listen, New_registry, Register_main_socket, Init_thread_pool, Poll_loop]) }"

section \<open>Boot stages\<close>

definition PostFsDataDone :: u32 where "PostFsDataDone = push_bit 0 1"
definition LateStartDone :: u32 where "LateStartDone = push_bit 1 1"
definition BootComplete :: u32 where "BootComplete = push_bit 2 1"
definition SafeMode :: u32 where "SafeMode = push_bit 3 1"

definition boot_contains :: "u32 \<Rightarrow> u32 \<Rightarrow> bool" where
  "boot_contains s stage \<longleftrightarrow> s AND stage \<noteq> 0"

definition boot_set :: "u32 \<Rightarrow> u32 \<Rightarrow> u32" where
  "boot_set s stage = s OR stage"

datatype stage_effect = Post_fs_data | Late_start | Boot_complete

text \<open>\<open>data\<close> is the result of \<open>check_data\<close>, \<open>safe\<close> the one of \<open>post_fs_data\<close>; the handler holds a lock, so
  requests come one after the other.\<close>

definition boot_stage_handler :: "bool \<Rightarrow> bool \<Rightarrow> int \<Rightarrow> u32 \<Rightarrow> u32 \<times> stage_effect list" where
  "boot_stage_handler data safe code s =
     (if code = POST_FS_DATA then
        if data \<and> \<not> boot_contains s PostFsDataDone
        then (boot_set (if safe then boot_set s SafeMode else s) PostFsDataDone, [Post_fs_data])
        else (s, [])
      else if code = LATE_START then
        if boot_contains s PostFsDataDone \<and> \<not> boot_contains s SafeMode
        then (boot_set s LateStartDone, [Late_start])
        else (s, [])
      else if code = BOOT_COMPLETE then
        if boot_contains s PostFsDataDone then (boot_set s BootComplete, [Boot_complete]) else (s, [])
      else (s, []))"

text \<open>The data partition is mounted, and when it is encrypted the volume daemon runs.\<close>

definition check_data :: "string list \<Rightarrow> (string \<Rightarrow> string) \<Rightarrow> bool" where
  "check_data mounts prop =
     ((\<exists>line \<in> set mounts. str_contains line '' /data '' \<and> \<not> str_contains line ''tmpfs'') \<and>
      (if prop ''ro.crypto.state'' = ''encrypted'' then prop ''init.svc.vold'' \<noteq> [] else True))"

section \<open>The native bridge\<close>

text \<open>The property that \<open>load_modules\<close> sets when zygisk is enabled, and the one \<open>restore_zygisk_prop\<close> sets.\<close>

definition zygisk_prop :: "string \<Rightarrow> string" where
  "zygisk_prop nb =
     (let orig = (if nb = [] then ''0'' else nb) in if orig \<noteq> ''0'' then ZYGISKLDR @ orig else ZYGISKLDR)"

definition restore_zygisk_prop :: "string \<Rightarrow> string" where
  "restore_zygisk_prop native_bridge =
     (if length native_bridge > length ZYGISKLDR then drop (length ZYGISKLDR) native_bridge else ''0'')"

section \<open>Safe mode keys\<close>

definition KEY_VOLUMEDOWN :: nat where "KEY_VOLUMEDOWN = 114"

definition test_bit_at :: "nat \<Rightarrow> bytes \<Rightarrow> bool" where
  "test_bit_at b a \<longleftrightarrow> (a ! (b div 8)) AND push_bit (b mod 8) 1 \<noteq> 0"

text \<open>\<open>open_ev\<close> makes and opens the device with a minor number, \<open>keys\<close> are the keys a device has, \<open>state n\<close> those
  that are down at the \<open>n\<close>-th sample.\<close>

definition key_events :: "(nat \<Rightarrow> int option) \<Rightarrow> (int \<Rightarrow> bytes) \<Rightarrow> int list" where
  "key_events open_ev keys =
     filter (\<lambda>fd. test_bit_at KEY_VOLUMEDOWN (keys fd)) (List.map_filter open_ev [64..<96])"

fun key_held :: "(nat \<Rightarrow> int \<Rightarrow> bytes) \<Rightarrow> int list \<Rightarrow> nat \<Rightarrow> nat \<Rightarrow> bool" where
  "key_held state events i 0 = True"
| "key_held state events i (Suc k) =
     ((\<exists>fd \<in> set events. test_bit_at KEY_VOLUMEDOWN (state i fd)) \<and> key_held state events (i + 1) k)"

definition check_key_combo :: "(nat \<Rightarrow> int option) \<Rightarrow> (int \<Rightarrow> bytes) \<Rightarrow> (nat \<Rightarrow> int \<Rightarrow> bytes) \<Rightarrow> bool" where
  "check_key_combo open_ev keys state =
     (let events = key_events open_ev keys in
      if events = [] then False else key_held state events 0 300)"

section \<open>Command lines\<close>

datatype magisk_cmd =
  Usage | Print_version | Daemon_version | Daemon_ver_code | List_applets | Unlock_blocks | Restore_con
| Clone_attr string string | Clone string string | Start_daemon | Stop_daemon | Stage_post_fs_data | Stage_service
| Stage_boot_complete | Restart_zygote | Denylist_cli "string list" | Sqlite string | Remove_all bool | Print_path
| Install_module string | Preinit_device

text \<open>\<open>magisk_main\<close>: the first option that matches, in the order of the source.\<close>

definition magisk_main :: "string list \<Rightarrow> magisk_cmd" where
  "magisk_main argv =
     (let argc = length argv; a = argv ! 1 in
      if argc < 2 then Usage
      else if a = ''-c'' then Print_version
      else if a = ''-v'' then Daemon_version
      else if a = ''-V'' then Daemon_ver_code
      else if a = ''--list'' then List_applets
      else if a = ''--unlock-blocks'' then Unlock_blocks
      else if a = ''--restorecon'' then Restore_con
      else if argc \<ge> 4 \<and> a = ''--clone-attr'' then Clone_attr (argv ! 2) (argv ! 3)
      else if argc \<ge> 4 \<and> a = ''--clone'' then Clone (argv ! 2) (argv ! 3)
      else if a = ''--daemon'' then Start_daemon
      else if a = ''--stop'' then Stop_daemon
      else if a = ''--post-fs-data'' then Stage_post_fs_data
      else if a = ''--service'' then Stage_service
      else if a = ''--boot-complete'' then Stage_boot_complete
      else if a = ''--zygote-restart'' then Restart_zygote
      else if a = ''--denylist'' then Denylist_cli (drop 1 argv)
      else if argc \<ge> 3 \<and> a = ''--sqlite'' then Sqlite (argv ! 2)
      else if a = ''--remove-modules'' then
        if argc = 3 \<and> argv ! 2 = ''-n'' then Remove_all False
        else if argc = 2 then Remove_all True else Usage
      else if a = ''--path'' then Print_path
      else if argc \<ge> 3 \<and> a = ''--install-module'' then Install_module (argv ! 2)
      else if a = ''--preinit-device'' then Preinit_device
      else Usage)"

text \<open>The request a command makes, whether it may start the daemon, and what it sends after it.\<close>

fun request_of :: "magisk_cmd \<Rightarrow> (int \<times> bool \<times> bytes) option" where
  "request_of Daemon_version = Some (CHECK_VERSION, False, [])"
| "request_of Daemon_ver_code = Some (CHECK_VERSION_CODE, False, [])"
| "request_of Start_daemon = Some (START_DAEMON, True, [])"
| "request_of Stop_daemon = Some (STOP_DAEMON, False, [])"
| "request_of Stage_post_fs_data = Some (POST_FS_DATA, True, [])"
| "request_of Stage_service = Some (LATE_START, True, [])"
| "request_of Stage_boot_complete = Some (BOOT_COMPLETE, False, [])"
| "request_of Restart_zygote = Some (ZYGOTE_RESTART, False, [])"
| "request_of (Sqlite sql) = Some (SQLITE_CMD, False, write_string 0 sql [])"
| "request_of (Remove_all reboot) = Some (REMOVE_MODULES, False, write_int 0 (of_bool reboot) [])"
| "request_of _ = None"

text \<open>The last component of a path, as \<open>basename\<close> of the C library gives it.\<close>

definition base_name :: "string \<Rightarrow> string" where
  "base_name path =
     (if path = [] then ''.''
      else
        let p = rev (dropWhile (\<lambda>c. c = CHR ''/'') (rev path)) in
        if p = [] then ''/'' else rev (takeWhile (\<lambda>c. c \<noteq> CHR ''/'') (rev p)))"

datatype applet = Su | Resetprop | Magiskhide | Zygisk_applet | Magisk

datatype applet_call = Applet applet "string list" | Applet_not_found | Bad_call

fun applet_of :: "(string \<times> applet) list \<Rightarrow> string \<Rightarrow> string list \<Rightarrow> applet_call" where
  "applet_of [] name argv = Applet_not_found"
| "applet_of ((n, a) # rest) name argv = (if name = n then Applet a argv else applet_of rest name argv)"

definition applets :: "(string \<times> applet) list" where
  "applets = [(''su'', Su), (''resetprop'', Resetprop), (''magiskhide'', Magiskhide)]"

definition private_applets :: "(string \<times> applet) list" where
  "private_applets = [(''zygisk'', Zygisk_applet)]"

definition applet_main :: "string list \<Rightarrow> applet_call" where
  "applet_main argv =
     (if argv = [] then Bad_call
      else
        let argv0 = base_name (argv ! 0) in
        if argv ! 0 = [] then
          if length argv < 2 then Bad_call
          else applet_of private_applets (argv ! 1) (drop 1 argv)
        else if argv0 = ''magisk'' \<or> argv0 = ''magisk32'' \<or> argv0 = ''magisk64'' then
          if length argv > 1 \<and> (argv ! 1 = [] \<or> hd (argv ! 1) \<noteq> CHR ''-'')
          then applet_of applets (argv ! 1) (drop 1 argv)
          else Applet Magisk argv
        else applet_of applets argv0 argv)"

section \<open>Who may ask for what\<close>

text \<open>The permissions as a table.\<close>

definition permitted :: "(int \<Rightarrow> bool) \<Rightarrow> sock_cred \<Rightarrow> int \<Rightarrow> bool" where
  "permitted client_exe c code \<longleftrightarrow>
     code \<in> {START_DAEMON..BOOT_COMPLETE} - {SYNC_BARRIER, STAGE_BARRIER} \<and>
     (cred_uid c = AID_ROOT \<or> cred_context c = ''u:r:zygote:s0'' \<or> client_exe (cred_pid c)) \<and>
     (code \<in> {POST_FS_DATA, LATE_START, BOOT_COMPLETE, ZYGOTE_RESTART, SQLITE_CMD, DENYLIST, STOP_DAEMON}
        \<longrightarrow> cred_uid c = AID_ROOT) \<and>
     (code = REMOVE_MODULES \<longrightarrow> cred_uid c = AID_ROOT \<or> cred_uid c = AID_SHELL) \<and>
     (code = ZYGISK \<longrightarrow> cred_context c = ''u:r:zygote:s0'')"

text \<open>The bytes a client reads back.\<close>

fun reply_of :: "effect list \<Rightarrow> bytes" where
  "reply_of [] = []"
| "reply_of (Reply b # es) = b @ reply_of es"
| "reply_of (_ # es) = reply_of es"

lemma sync_total: "0 \<le> code \<Longrightarrow> code < SYNC_BARRIER \<Longrightarrow> \<exists>es. handle_request_sync env code = Some es"
  by (auto simp: handle_request_sync_def request_codes)

lemma async_total:
  "SYNC_BARRIER < code \<Longrightarrow> code < STAGE_BARRIER \<Longrightarrow> \<exists>es. handle_request_async code c inp = Some es"
  by (auto simp: handle_request_async_def request_codes)

lemma reply_int_bytes [simp]: "reply_of (reply_int v # es) = le32 (of_int v) @ reply_of es"
  by (simp add: reply_int_def write_int_def)

lemma response_ok_int:
  "- (2 ^ 31) \<le> v \<Longrightarrow> v < 2 ^ 31 \<Longrightarrow> response_ok (le32 (of_int v) @ rest) \<longleftrightarrow> v = 0"
  using read_write_int [of v rest] by (auto simp: response_ok_def respond_codes)

lemma response_ok_empty: "\<not> response_ok []"
  by (simp add: response_ok_def read_int_def xxread_def respond_codes)

definition valid_code :: "int \<Rightarrow> bool" where
  "valid_code code \<longleftrightarrow> \<not> (code < 0 \<or> code \<ge> REQ_END \<or> code = SYNC_BARRIER \<or> code = STAGE_BARRIER)"

lemma permitted_valid:
  "permitted ex c code \<longleftrightarrow> valid_code code \<and>
     (cred_uid c = AID_ROOT \<or> cred_context c = ''u:r:zygote:s0'' \<or> ex (cred_pid c)) \<and>
     (root_only code \<longrightarrow> cred_uid c = AID_ROOT) \<and>
     (code = REMOVE_MODULES \<longrightarrow> cred_uid c = AID_ROOT \<or> cred_uid c = AID_SHELL) \<and>
     (code = ZYGISK \<longrightarrow> cred_context c = ''u:r:zygote:s0'')"
proof -
  have "code \<in> {START_DAEMON..BOOT_COMPLETE} - {SYNC_BARRIER, STAGE_BARRIER} \<longleftrightarrow> valid_code code"
    unfolding valid_code_def request_codes by auto
  then show ?thesis unfolding permitted_def root_only_def by simp
qed

text \<open>Acceptance begins with \<open>OK\<close>; every other answer is a refusal or none.\<close>

lemma handle_request_refused:
  assumes "read_int inp = (code, inp')" and "\<not> permitted ex c code"
  shows "\<exists>es. handle_request env ex (Some c) inp = Some (es, None) \<and> \<not> response_ok (reply_of es)"
proof -
  have no: "\<not> response_ok (le32 1)" "\<not> response_ok (le32 2)" "\<not> response_ok []"
    using response_ok_int [of 1 "[]"] response_ok_int [of 2 "[]"] response_ok_empty by simp_all
  show ?thesis
  proof (cases "cred_uid c = AID_ROOT \<or> cred_context c = ''u:r:zygote:s0'' \<or> ex (cred_pid c)")
    case False
    then show ?thesis using no by (simp add: handle_request_def Let_def ACCESS_DENIED_def)
  next
    case True
    then show ?thesis
      using assms no unfolding permitted_valid valid_code_def
      by (simp add: handle_request_def Let_def ACCESS_DENIED_def ROOT_REQUIRED_def) fastforce
  qed
qed

lemma handle_request_accepted:
  assumes "read_int inp = (code, inp')" and "permitted ex c code"
  shows "\<exists>es task. handle_request env ex (Some c) inp = Some (es, task) \<and> response_ok (reply_of es)"
proof -
  have yes: "response_ok (le32 0 @ r)" for r using response_ok_int [of 0 r] by simp
  have v: "\<not> code < 0" "\<not> code \<ge> REQ_END" "code \<noteq> SYNC_BARRIER" "code \<noteq> STAGE_BARRIER"
    using assms(2) by (auto simp: permitted_valid valid_code_def)
  consider "code < SYNC_BARRIER" | "SYNC_BARRIER < code" "code < STAGE_BARRIER" | "STAGE_BARRIER < code"
    using v by linarith
  then show ?thesis
  proof cases
    case 1
    then obtain es where "handle_request_sync env code = Some es" using sync_total [of code env] v by auto
    then show ?thesis
      using assms v 1 yes unfolding permitted_valid by (simp add: handle_request_def Let_def RESP_OK_def) blast
  next
    case 2
    then obtain es where "handle_request_async code c inp' = Some es" using async_total by blast
    then show ?thesis
      using assms v 2 yes [of "[]"] unfolding permitted_valid by (simp add: handle_request_def Let_def RESP_OK_def) blast
  next
    case 3
    then have "\<not> code < STAGE_BARRIER" "\<not> code < SYNC_BARRIER" by (simp_all add: request_codes)
    then show ?thesis
      using assms v yes [of "[]"] unfolding permitted_valid by (simp add: handle_request_def Let_def RESP_OK_def) blast
  qed
qed

text \<open>C5: a client that connects with a request gets its connection exactly when the table permits the request to
  it; the daemon never runs into the branches its author marked unreachable, and gives a task to the
  thread pool only for a permitted request.\<close>

theorem connect_permitted:
  assumes "up 0" and "- (2 ^ 31) \<le> req" and "req < 2 ^ 31"
  shows "\<exists>es task. handle_request env ex (Some c) (le32 (of_int req)) = Some (es, task) \<and>
    connect_daemon up uid exe tmp (\<lambda>_. reply_of es) req create = Some (le32 (of_int req), permitted ex c req) \<and>
    (task \<noteq> None \<longrightarrow> permitted ex c req)"
proof -
  have r: "read_int (le32 (of_int req)) = (req, [])" using read_write_int [OF assms(2,3), of "[]"] by simp
  have "\<exists>es task. handle_request env ex (Some c) (le32 (of_int req)) = Some (es, task) \<and>
      response_ok (reply_of es) = permitted ex c req \<and> (task \<noteq> None \<longrightarrow> permitted ex c req)"
    using handle_request_refused [OF r] handle_request_accepted [OF r] by (cases "permitted ex c req") blast+
  then show ?thesis using assms(1) by (auto simp: connect_daemon_def Let_def write_int_def)
qed

text \<open>What everyone may ask for, and what only root may.\<close>

lemma permitted_iff:
  "valid_code code \<Longrightarrow> cred_uid c = AID_ROOT \<Longrightarrow> code \<noteq> ZYGISK \<Longrightarrow> permitted ex c code"
  by (simp add: permitted_valid)

definition sample_cred :: sock_cred where
  "sample_cred = \<lparr>cred_pid = 7, cred_uid = 10001, cred_context = ''u:r:untrusted_app:s0''\<rparr>"

definition sample_env :: daemon_env where
  "sample_env = \<lparr>magisk_version = ''27.0'', magisk_ver_code = 27000, prop_of = (\<lambda>_. [])\<rparr>"

theorem connect_permitted_witness:
  "\<exists>es task. handle_request sample_env (\<lambda>p. p = 7) (Some sample_cred) (le32 5) = Some (es, task) \<and>
     connect_daemon (\<lambda>_. True) 10001 [] [] (\<lambda>_. reply_of es) SUPERUSER False = Some (le32 5, True)"
proof -
  have "permitted (\<lambda>p. p = 7) sample_cred SUPERUSER"
    by (simp add: permitted_def sample_cred_def request_codes)
  then show ?thesis
    using connect_permitted [of "\<lambda>_. True" SUPERUSER sample_env "\<lambda>p. p = 7" sample_cred 10001 "[]" "[]" False]
    by (simp add: SUPERUSER_def)
qed

text \<open>Every request that a command line of \<open>magisk\<close> makes is granted to root.\<close>

lemma magisk_requests: "request_of cmd = Some (code, create, payload) \<Longrightarrow> valid_code code \<and> code \<noteq> ZYGISK"
  by (cases cmd) (auto simp: valid_code_def request_codes)

lemma cli_root_granted:
  "request_of (magisk_main argv) = Some (code, create, payload) \<Longrightarrow> cred_uid c = AID_ROOT \<Longrightarrow> permitted ex c code"
  using magisk_requests permitted_iff by blast

section \<open>The daemon does not start\<close>

lemma daemon_entry_diverges: "daemon_entry bound log = None"
proof (rule ccontr)
  assume "daemon_entry bound log \<noteq> None"
  then obtain r where "daemon_entry bound log = Some r" by blast
  then show False by (rule daemon_entry.raw_induct [where P = "\<lambda>_ _ _. False", rotated]) (auto split: bind_splits)
qed

lemma wait_for_ever: "(\<And>n. \<not> up n) \<Longrightarrow> wait_connect up n = None"
proof (rule ccontr)
  assume up: "\<And>n. \<not> up n" and "wait_connect up n \<noteq> None"
  then obtain r where "wait_connect up n = Some r" by blast
  then have "\<exists>n. up n"
    by (rule wait_connect.raw_induct [where P = "\<lambda>up _ _. \<exists>n. up n", rotated]) (auto split: if_splits)
  then show False using up by blast
qed



section \<open>Boot stages\<close>

lemma boot_contains_set: "boot_contains (boot_set s a) b \<longleftrightarrow> boot_contains s b \<or> boot_contains a b"
  by (simp add: boot_contains_def boot_set_def bit.conj_disj_distrib2 or_eq_0_iff)

lemma boot_bits [simp]:
  "boot_contains PostFsDataDone PostFsDataDone" "\<not> boot_contains PostFsDataDone SafeMode"
  "\<not> boot_contains LateStartDone PostFsDataDone" "\<not> boot_contains LateStartDone SafeMode"
  "\<not> boot_contains BootComplete PostFsDataDone" "\<not> boot_contains BootComplete SafeMode"
  "boot_contains SafeMode SafeMode" "\<not> boot_contains SafeMode PostFsDataDone" "\<not> boot_contains 0 b"
  by (simp_all add: boot_contains_def PostFsDataDone_def LateStartDone_def BootComplete_def SafeMode_def)

record boot =
  boot_flags :: u32
  boot_log :: "stage_effect list"

definition boot_init :: boot where
  "boot_init = \<lparr>boot_flags = 0, boot_log = []\<rparr>"

text \<open>A request with its code, whether the data partition is there, and whether \<open>post_fs_data\<close> asks for safe
  mode.\<close>

definition boot_step :: "int \<times> bool \<times> bool \<Rightarrow> boot \<Rightarrow> boot option" where
  "boot_step e b =
     (case e of (code, data, safe) \<Rightarrow>
        (case boot_stage_handler data safe code (boot_flags b) of
          (s, es) \<Rightarrow> Some \<lparr>boot_flags = s, boot_log = boot_log b @ es\<rparr>))"

definition boot_inv :: "boot \<Rightarrow> bool" where
  "boot_inv b \<longleftrightarrow>
     count_list (boot_log b) Post_fs_data = of_bool (boot_contains (boot_flags b) PostFsDataDone) \<and>
     (boot_log b \<noteq> [] \<longrightarrow> hd (boot_log b) = Post_fs_data) \<and>
     (boot_contains (boot_flags b) SafeMode \<longrightarrow> boot_contains (boot_flags b) PostFsDataDone) \<and>
     (Late_start \<in> set (boot_log b) \<longrightarrow> \<not> boot_contains (boot_flags b) SafeMode)"

lemma boot_step_inv:
  assumes "boot_inv b" and "boot_step e b = Some b'"
  shows "boot_inv b'"
proof -
  obtain code data safe where e: "e = (code, data, safe)" by (cases e) auto
  have h: "boot_log b = [] \<or> boot_contains (boot_flags b) PostFsDataDone \<and> hd (boot_log b) = Post_fs_data"
    using assms(1) by (cases "boot_log b") (auto simp: boot_inv_def of_bool_def split: if_splits)
  show ?thesis
    using assms h unfolding e boot_step_def boot_stage_handler_def
    by (auto simp: boot_inv_def boot_contains_set hd_append split: if_splits)
qed

interpretation boot: machine boot_step "\<lambda>_. True" boot_inv
  by unfold_locales (rule boot_step_inv)

text \<open>C14: whatever requests come in whatever order, \<open>post_fs_data\<close> runs at most once and before every other stage,
  and \<open>late_start\<close> never runs after it asked for safe mode.\<close>

theorem boot_stages:
  assumes "run_events boot_step es boot_init = Some b"
  shows "count_list (boot_log b) Post_fs_data \<le> 1 \<and> (boot_log b \<noteq> [] \<longrightarrow> hd (boot_log b) = Post_fs_data) \<and>
    (Late_start \<in> set (boot_log b) \<longrightarrow> \<not> boot_contains (boot_flags b) SafeMode)"
proof -
  have "boot_inv boot_init" by (simp add: boot_inv_def boot_init_def)
  then have "boot_inv b" using boot.run_inv [OF _ _ assms] by (simp add: list_all_iff)
  then show ?thesis by (auto simp: boot_inv_def)
qed

theorem boot_stages_witness:
  "\<exists>b. run_events boot_step [(LATE_START, True, False), (POST_FS_DATA, True, True), (POST_FS_DATA, True, False), (LATE_START, True, False)]
     boot_init = Some b \<and> boot_log b = [Post_fs_data] \<and> hd (boot_log b) = Post_fs_data \<and> count_list (boot_log b) Post_fs_data \<le> 1"
proof -
  obtain b where b: "run_events boot_step [(LATE_START, True, False), (POST_FS_DATA, True, True), (POST_FS_DATA, True, False),
      (LATE_START, True, False)] boot_init = Some b" "boot_log b = [Post_fs_data]"
    by (simp add: boot_step_def boot_init_def boot_stage_handler_def boot_contains_set request_codes)
  then show ?thesis using boot_stages [OF b(1)] by auto
qed

section \<open>Properties and keys\<close>


text \<open>When zygisk was not loaded, stopping the daemon cuts the name of a native bridge that is longer than the
  name of the loader.\<close>

lemma stop_cuts_bridge: "stop_prop ''libndk_translation.so'' = Some ''lation.so''"
  by (simp add: stop_prop_def ZYGISKLDR_def)

lemma key_held_all:
  "key_held state events i k \<longleftrightarrow> (\<forall>j<k. \<exists>fd \<in> set events. test_bit_at KEY_VOLUMEDOWN (state (i + j) fd))"
proof (induction k arbitrary: i)
  case (Suc k)
  then show ?case by (simp add: All_less_Suc2)
qed simp

text \<open>Safe mode is entered by the keys only if in each of 300 samples some device reports the key down.\<close>

lemma check_key_combo_iff:
  "check_key_combo open_ev keys state \<longleftrightarrow>
     key_events open_ev keys \<noteq> [] \<and>
     (\<forall>j<300. \<exists>fd \<in> set (key_events open_ev keys). test_bit_at KEY_VOLUMEDOWN (state j fd))"
  by (auto simp: check_key_combo_def Let_def key_held_all)

end
