(* ===== verification/Core_Map.thy ===== *)
theory Core_Map
  imports Kitsune_Prelude "HOL-Library.List_Lexorder" "HOL-Library.Char_ord"
begin

text \<open>
  The ordered containers of the C++ library the daemon uses: \<open>std::set\<close> as a strictly increasing list and
  \<open>std::map\<close> as a list of pairs with strictly increasing keys, so that iterating over one is going through
  the list. Strings are ordered as \<open>StringCmp\<close> of \<^verbatim>\<open>src/native/src/base/misc.hpp\<close> orders them.
\<close>

section \<open>Sets\<close>

fun set_put :: "'a::linorder \<Rightarrow> 'a list \<Rightarrow> 'a list" where
  "set_put x [] = [x]"
| "set_put x (y # ys) = (if x < y then x # y # ys else if x = y then y # ys else y # set_put x ys)"

fun set_del :: "'a::linorder \<Rightarrow> 'a list \<Rightarrow> 'a list" where
  "set_del x [] = []"
| "set_del x (y # ys) = (if x = y then ys else y # set_del x ys)"

abbreviation ascending :: "'a::linorder list \<Rightarrow> bool" where
  "ascending \<equiv> sorted_wrt (<)"

lemma set_set_put [simp]: "set (set_put x ys) = insert x (set ys)"
  by (induction ys) auto

lemma ascending_set_put: "ascending ys \<Longrightarrow> ascending (set_put x ys)"
  by (induction ys) auto

lemma set_set_del: "ascending ys \<Longrightarrow> set (set_del x ys) = set ys - {x}"
  by (induction ys) auto

lemma set_del_subset: "set (set_del x ys) \<subseteq> set ys"
  by (induction ys) auto

lemma ascending_set_del: "ascending ys \<Longrightarrow> ascending (set_del x ys)"
  using set_del_subset by (induction ys) fastforce+

section \<open>Maps\<close>

fun map_put :: "'k::linorder \<Rightarrow> 'v \<Rightarrow> ('k \<times> 'v) list \<Rightarrow> ('k \<times> 'v) list" where
  "map_put k v [] = [(k, v)]"
| "map_put k v ((j, w) # m) =
     (if k < j then (k, v) # (j, w) # m else if k = j then (k, v) # m else (j, w) # map_put k v m)"

fun map_del :: "'k::linorder \<Rightarrow> ('k \<times> 'v) list \<Rightarrow> ('k \<times> 'v) list" where
  "map_del k [] = []"
| "map_del k ((j, w) # m) = (if k = j then m else (j, w) # map_del k m)"

definition map_wf :: "('k::linorder \<times> 'v) list \<Rightarrow> bool" where
  "map_wf m \<longleftrightarrow> ascending (map fst m)"

lemma set_map_put: "fst ` set (map_put k v m) = insert k (fst ` set m)"
  by (induction k v m rule: map_put.induct) auto

lemma map_wf_put: "map_wf m \<Longrightarrow> map_wf (map_put k v m)"
proof (induction k v m rule: map_put.induct)
  case (2 k v j w m)
  then show ?case using set_map_put [of k v m] by (auto simp: map_wf_def image_iff)
qed (simp add: map_wf_def)

lemma set_map_del: "fst ` set (map_del k m) \<subseteq> fst ` set m"
  by (induction k m rule: map_del.induct) auto

lemma map_wf_del: "map_wf m \<Longrightarrow> map_wf (map_del k m)"
proof (induction k m rule: map_del.induct)
  case (2 k j w m)
  then show ?case using set_map_del [of k m] by (fastforce simp: map_wf_def)
qed simp

lemma map_of_above: "map_wf ((j, w) # m) \<Longrightarrow> k \<le> j \<Longrightarrow> map_of m k = None"
  by (force simp: map_wf_def map_of_eq_None_iff)

lemma map_of_put: "map_wf m \<Longrightarrow> map_of (map_put k v m) = (map_of m)(k \<mapsto> v)"
  by (induction k v m rule: map_put.induct) (auto simp: fun_eq_iff map_wf_def)

lemma map_of_del: "map_wf m \<Longrightarrow> map_of (map_del k m) = (map_of m)(k := None)"
proof (induction k m rule: map_del.induct)
  case (2 k j w m)
  then show ?case using map_of_above [of j w m j] by (auto simp: fun_eq_iff map_wf_def)
qed (simp add: fun_eq_iff)

text \<open>What the users of a map rely on.\<close>

locale key_map =
  fixes get :: "'m \<Rightarrow> 'k \<Rightarrow> 'v option" and put :: "'k \<Rightarrow> 'v \<Rightarrow> 'm \<Rightarrow> 'm" and del :: "'k \<Rightarrow> 'm \<Rightarrow> 'm" and wf :: "'m \<Rightarrow> bool"
  assumes wf_put: "wf m \<Longrightarrow> wf (put k v m)" and wf_del: "wf m \<Longrightarrow> wf (del k m)"
    and get_put: "wf m \<Longrightarrow> get (put k v m) j = (if j = k then Some v else get m j)"
    and get_del: "wf m \<Longrightarrow> get (del k m) j = (if j = k then None else get m j)"
begin

lemma del_put: "wf m \<Longrightarrow> get m k = None \<Longrightarrow> get (del k (put k v m)) = get m"
  by (auto simp: fun_eq_iff wf_put get_put get_del)

lemma dom_put: "wf m \<Longrightarrow> dom (get (put k v m)) = insert k (dom (get m))"
  by (auto simp: dom_def get_put)

lemma dom_del: "wf m \<Longrightarrow> dom (get (del k m)) = dom (get m) - {k}"
  by (auto simp: dom_def get_del)

end

interpretation omap: key_map map_of map_put map_del map_wf
  by unfold_locales (simp_all add: map_wf_put map_wf_del map_of_put map_of_del)

end
