(* ===== verification/Core_Deny.thy ===== *)
theory Core_Deny
  imports Core_Daemon Core_Map
begin

text \<open>
  The hide list (\<^verbatim>\<open>src/native/src/core/deny/utils.cpp\<close>, \<^verbatim>\<open>src/native/src/core/deny/cli.cpp\<close>): which processes of
  which packages are hidden from, the table from app ids to packages, and the commands that read and
  change both. The directory with the data of the apps, the process list and the database are the
  environment; a database call is the text of a statement and the database it is run on. A lock is
  held around the work on the tables, so a command is one step.
\<close>

section \<open>State\<close>

datatype deny_effect = Kill int | Hide int | Start_monitor | Stop_monitor | Unmount

text \<open>The sets of \<open>app_id_to_pkgs\<close> hold views of the keys of \<open>pkg_to_procs\<close>. A set with a view of a key
  that has been erased since is \<open>None\<close>: reading it has no defined result.\<close>

type_synonym proc_table = "(string \<times> string list) list"
type_synonym app_table = "(int \<times> string list option) list"

record deny =
  table_name :: string
  pkg_to_procs :: "proc_table option"
  app_id_to_pkgs :: "app_table option"
  denylist_enforced :: bool
  sulist_enabled :: bool
  procfp :: bool
  skip_pkg_rescan :: bool
  effects :: "deny_effect list"

text \<open>An entry of \<open>/proc\<close>: its name, what its files \<open>cmdline\<close> and \<open>attr/current\<close> hold if they can be
  opened, and whether \<open>stat\<close> finds it.\<close>

record proc_entry =
  pe_name :: string
  pe_cmdline :: "string option"
  pe_context :: "string option"
  pe_stat :: bool

text \<open>
  \<open>user_dirs\<close> are the entries of the directory of app data, each with its own entries if it is a
  directory; \<open>owner\<close> is \<open>stat\<close> on a path below that directory. \<open>db_rows\<close> gives the rows a \<open>SELECT\<close> hands
  to its callback, and whether it then fails; \<open>db_exec\<close> whether a statement fails, and the database after
  it; \<open>db_setting\<close> the number stored for a key, 0 if there is none.
\<close>

record 'd deny_env =
  app_package :: string
  user_dirs :: "(string \<times> string list option) list option"
  owner :: "string \<Rightarrow> nat option"
  processes :: "proc_entry list"
  su_manager :: "'d \<Rightarrow> string"
  db_setting :: "string \<Rightarrow> 'd \<Rightarrow> int"
  db_rows :: "string \<Rightarrow> 'd \<Rightarrow> (string \<times> string) list \<times> bool"
  db_exec :: "string \<Rightarrow> 'd \<Rightarrow> bool \<times> 'd"
  has_mnt_ns :: bool
  proc_opens :: bool
  thread_fails :: bool
  sdk_int :: int

definition ISOLATED_MAGIC :: string where "ISOLATED_MAGIC = ''isolated''"
definition DENYLIST_KEY :: string where "DENYLIST_KEY = ''magiskhide''"
definition SULIST_KEY :: string where "SULIST_KEY = ''sulist''"

text \<open>The remainder of C, which has the sign of the dividend.\<close>

definition to_app_id :: "int \<Rightarrow> int" where
  "to_app_id uid = (if 0 \<le> uid then uid mod 100000 else - ((- uid) mod 100000))"

section \<open>Processes\<close>

fun crawl_entries :: "(int \<Rightarrow> proc_entry \<Rightarrow> deny_effect list \<times> bool) \<Rightarrow> proc_entry list \<Rightarrow> deny_effect list option" where
  "crawl_entries fn [] = Some []"
| "crawl_entries fn (e # es) =
     do { pid \<leftarrow> parse_int (pe_name e);
          if pid > 0 then
            (case fn pid e of
               (fx, True) \<Rightarrow> do { fxs \<leftarrow> crawl_entries fn es; Some (fx @ fxs) }
             | (fx, False) \<Rightarrow> Some fx)
          else crawl_entries fn es }"

definition crawl_procfs ::
    "'d deny_env \<Rightarrow> (int \<Rightarrow> proc_entry \<Rightarrow> deny_effect list \<times> bool) \<Rightarrow> deny \<Rightarrow> deny option" where
  "crawl_procfs env fn s =
     (if procfp s then do { fx \<leftarrow> crawl_entries fn (processes env); Some (s\<lparr>effects := effects s @ fx\<rparr>) } else None)"

text \<open>The buffer after \<open>fgets\<close>, which leaves it as it was at the end of the file.\<close>

definition fgets :: "nat \<Rightarrow> string \<Rightarrow> string \<Rightarrow> string" where
  "fgets n old content =
     (if content = [] then old
      else c_str (take (n - 1) (takeWhile (\<lambda>c. c \<noteq> CHR 0x0A) content @ take 1 (dropWhile (\<lambda>c. c \<noteq> CHR 0x0A) content))))"

definition proc_name_match :: "(string \<Rightarrow> string \<Rightarrow> bool) \<Rightarrow> string \<Rightarrow> int \<Rightarrow> proc_entry \<Rightarrow> bool" where
  "proc_name_match str_op name pid e =
     (case pe_cmdline e of
        None \<Rightarrow> False
      | Some content \<Rightarrow> str_op (fgets 4019 (''/proc/'' @ decimal (nat pid) @ ''/cmdline'') content) name)"

definition proc_context_match :: "string \<Rightarrow> int \<Rightarrow> proc_entry \<Rightarrow> bool" where
  "proc_context_match context pid e =
     (case pe_context e of
        None \<Rightarrow> False
      | Some content \<Rightarrow> str_starts (fgets 4096 (''/proc/'' @ decimal (nat pid) @ ''/attr/current'') content) context)"

definition kill_process :: "'d deny_env \<Rightarrow> (int \<Rightarrow> proc_entry \<Rightarrow> bool) \<Rightarrow> bool \<Rightarrow> deny \<Rightarrow> deny option" where
  "kill_process env matcher multi =
     crawl_procfs env (\<lambda>pid e. if matcher pid e then ([Kill pid], multi) else ([], True))"

section \<open>Names\<close>

fun valid_isolated :: "string \<Rightarrow> bool" where
  "valid_isolated [] = True"
| "valid_isolated (c # s) =
     (if isalnum c \<or> c = CHR ''_'' \<or> c = CHR ''.'' then valid_isolated s else c = CHR '':'')"

fun valid_pkg :: "bool \<Rightarrow> string \<Rightarrow> bool" where
  "valid_pkg pkg_valid [] = pkg_valid"
| "valid_pkg pkg_valid (c # s) =
     (if isalnum c \<or> c = CHR ''_'' then valid_pkg pkg_valid s
      else if c = CHR ''.'' then valid_pkg True s else False)"

fun valid_proc :: "string \<Rightarrow> bool" where
  "valid_proc [] = True"
| "valid_proc (c # s) = ((isalnum c \<or> c = CHR ''_'' \<or> c = CHR '':'' \<or> c = CHR ''.'') \<and> valid_proc s)"

definition validate :: "string \<Rightarrow> string \<Rightarrow> bool" where
  "validate pkg proc =
     (if pkg = ISOLATED_MAGIC then valid_isolated proc else valid_pkg False pkg \<and> valid_proc proc)"

section \<open>The tables\<close>

definition procs_of :: "proc_table \<Rightarrow> string \<Rightarrow> string list" where
  "procs_of m pkg = (case map_of m pkg of None \<Rightarrow> [] | Some ps \<Rightarrow> ps)"

definition add_hide_set :: "'d deny_env \<Rightarrow> string \<Rightarrow> string \<Rightarrow> deny \<Rightarrow> (bool \<times> deny) option" where
  "add_hide_set env pkg proc s =
     do { m \<leftarrow> pkg_to_procs s;
          let procs = procs_of m pkg;
          let s1 = s\<lparr>pkg_to_procs := Some (map_put pkg (set_put proc procs) m)\<rparr>;
          if proc \<in> set procs then Some (False, s1)
          else if \<not> denylist_enforced s then Some (True, s1)
          else
            do { s2 \<leftarrow> crawl_procfs env (\<lambda>pid e. (if pe_stat e then [Hide pid] else [], True)) s1;
                 s3 \<leftarrow> (if pkg = ISOLATED_MAGIC then kill_process env (proc_name_match str_starts proc) True s2
                        else kill_process env (proc_name_match (=) proc) False s2);
                 Some (True, s3) } }"

text \<open>Inserting a view of the key \<open>pkg\<close>, and erasing a key from the table it is in.\<close>

definition add_view :: "int \<Rightarrow> string \<Rightarrow> app_table \<Rightarrow> app_table option" where
  "add_view app_id pkg a =
     (case map_of a app_id of
        None \<Rightarrow> Some (map_put app_id (Some [pkg]) a)
      | Some v \<Rightarrow> do { ps \<leftarrow> v; Some (map_put app_id (Some (set_put pkg ps)) a) })"

definition dangle :: "string \<Rightarrow> app_table \<Rightarrow> app_table" where
  "dangle pkg = map (\<lambda>(i, v). (i, case v of None \<Rightarrow> None | Some ps \<Rightarrow> if pkg \<in> set ps then None else Some ps))"

definition erase_pkg :: "string \<Rightarrow> deny \<Rightarrow> deny option" where
  "erase_pkg pkg s =
     do { m \<leftarrow> pkg_to_procs s;
          Some (s\<lparr>pkg_to_procs := Some (map_del pkg m), app_id_to_pkgs := map_option (dangle pkg) (app_id_to_pkgs s)\<rparr>) }"

text \<open>All packages of the list that have a data directory, for every user.\<close>

fun scan_pkgs :: "'d deny_env \<Rightarrow> string \<Rightarrow> proc_table \<Rightarrow> string list \<Rightarrow> app_table \<Rightarrow> app_table option" where
  "scan_pkgs env user m [] a = Some a"
| "scan_pkgs env user m (e # es) a =
     do { a' \<leftarrow> (case owner env (user @ ''/'' @ e) of
                  None \<Rightarrow> Some a
                | Some uid \<Rightarrow> if map_of m e = None then Some a else add_view (to_app_id (int uid)) e a);
          scan_pkgs env user m es a' }"

fun scan_users :: "'d deny_env \<Rightarrow> proc_table \<Rightarrow> (string \<times> string list option) list \<Rightarrow> app_table \<Rightarrow> app_table option" where
  "scan_users env m [] a = Some a"
| "scan_users env m ((user, entries) # us) a =
     do { a' \<leftarrow> (case entries of None \<Rightarrow> Some a | Some es \<Rightarrow> scan_pkgs env user m es a);
          scan_users env m us a' }"

definition rescan_apps :: "'d deny_env \<Rightarrow> 'd \<Rightarrow> deny \<Rightarrow> deny option" where
  "rescan_apps env db s =
     do { s1 \<leftarrow> (if sulist_enabled s
                  then (let manager_pkg = (if su_manager env db = [] then app_package env else su_manager env db) in
                        do { (_, s') \<leftarrow> add_hide_set env manager_pkg manager_pkg s; Some s' })
                  else Some s);
          _ \<leftarrow> app_id_to_pkgs s1;
          m \<leftarrow> pkg_to_procs s1;
          a \<leftarrow> (case user_dirs env of None \<Rightarrow> Some [] | Some us \<Rightarrow> scan_users env m us []);
          Some (s1\<lparr>app_id_to_pkgs := Some a\<rparr>) }"


text \<open>The app id of the package for the first user that has it.\<close>

fun app_id_of :: "'d deny_env \<Rightarrow> (string \<times> string list option) list \<Rightarrow> string \<Rightarrow> int option" where
  "app_id_of env [] pkg = None"
| "app_id_of env ((user, _) # us) pkg =
     (case owner env (take 4095 (user @ ''/'' @ pkg)) of
        None \<Rightarrow> app_id_of env us pkg
      | Some uid \<Rightarrow> Some (to_app_id (int uid)))"

definition remove_view :: "int \<Rightarrow> string \<Rightarrow> app_table \<Rightarrow> app_table option" where
  "remove_view app_id pkg a =
     (case map_of a app_id of
        None \<Rightarrow> Some a
      | Some v \<Rightarrow>
          do { ps \<leftarrow> v;
               let ps' = set_del pkg ps;
               Some (if ps' = [] then map_del app_id a else map_put app_id (Some ps') a) })"

definition update_pkg_uid :: "'d deny_env \<Rightarrow> string \<Rightarrow> bool \<Rightarrow> deny \<Rightarrow> deny option" where
  "update_pkg_uid env pkg remove s =
     (case user_dirs env of
        None \<Rightarrow> Some s
      | Some us \<Rightarrow>
          (case app_id_of env us pkg of
             None \<Rightarrow> Some s
           | Some app_id \<Rightarrow>
               do { a \<leftarrow> app_id_to_pkgs s;
                    a' \<leftarrow> (if remove then remove_view app_id pkg a else add_view app_id pkg a);
                    Some (s\<lparr>app_id_to_pkgs := Some a'\<rparr>) }))"

definition get_users :: "'d deny_env \<Rightarrow> string list" where
  "get_users env =
     (case user_dirs env of None \<Rightarrow> [''0''] | Some us \<Rightarrow> fold (\<lambda>(user, _). set_put user) us [''0''])"

definition clear_data :: "deny \<Rightarrow> deny" where
  "clear_data s = s\<lparr>pkg_to_procs := None, app_id_to_pkgs := None\<rparr>"

fun load_rows :: "'d deny_env \<Rightarrow> (string \<times> string) list \<Rightarrow> deny \<Rightarrow> deny option" where
  "load_rows env [] s = Some s"
| "load_rows env ((pkg, proc) # rows) s =
     do { (_, s') \<leftarrow> add_hide_set env pkg proc s; load_rows env rows s' }"

definition ensure_data :: "'d deny_env \<Rightarrow> 'd \<Rightarrow> deny \<Rightarrow> (bool \<times> deny) option" where
  "ensure_data env db s =
     (if pkg_to_procs s \<noteq> None then Some (True, s)
      else
        (case db_rows env (''SELECT * FROM '' @ table_name s) db of
           (rows, err) \<Rightarrow>
             do { s1 \<leftarrow> load_rows env rows (s\<lparr>pkg_to_procs := Some []\<rparr>);
                  if err then Some (False, clear_data s1)
                  else do { s2 \<leftarrow> rescan_apps env db (s1\<lparr>app_id_to_pkgs := Some []\<rparr>); Some (True, s2) } }))"

section \<open>The commands that change the list\<close>

datatype deny_response =
  D_OK | D_ENFORCED | D_NOT_ENFORCED | D_ITEM_EXIST | D_ITEM_NOT_EXIST | D_INVALID_PKG | D_NO_NS | D_ERROR
| D_SULIST_ENFORCED | D_SULIST_NOT_ENFORCED | D_SULIST_NO_DISABLE

definition quoted :: "string \<Rightarrow> string" where
  "quoted s = [CHR 0x27] @ s @ [CHR 0x27]"

definition sql_insert :: "string \<Rightarrow> string \<Rightarrow> string \<Rightarrow> string" where
  "sql_insert tab pkg proc =
     take 4095 (''INSERT INTO '' @ tab @ '' (package_name, process) VALUES('' @ quoted pkg @ '', '' @ quoted proc @ '')'')"

definition sql_delete_pkg :: "string \<Rightarrow> string \<Rightarrow> string" where
  "sql_delete_pkg tab pkg = take 4095 (''DELETE FROM '' @ tab @ '' WHERE package_name='' @ quoted pkg)"

definition sql_delete :: "string \<Rightarrow> string \<Rightarrow> string \<Rightarrow> string" where
  "sql_delete tab pkg proc =
     take 4095 (''DELETE FROM '' @ tab @ '' WHERE package_name='' @ quoted pkg @ '' AND process='' @ quoted proc)"

definition sql_setting :: "string \<Rightarrow> bool \<Rightarrow> string" where
  "sql_setting key v =
     ''REPLACE INTO settings (key,value) VALUES('' @ quoted key @ '','' @ (if v then ''1'' else ''0'') @ '')''"

text \<open>The end of a command: a statement, and its outcome.\<close>

definition run_sql :: "'d deny_env \<Rightarrow> string \<Rightarrow> deny \<Rightarrow> 'd \<Rightarrow> deny_response \<times> deny \<times> 'd" where
  "run_sql env sql s db = (case db_exec env sql db of (err, db') \<Rightarrow> (if err then D_ERROR else D_OK, s, db'))"

definition add_list :: "'d deny_env \<Rightarrow> string \<Rightarrow> string \<Rightarrow> deny \<Rightarrow> 'd \<Rightarrow> (deny_response \<times> deny \<times> 'd) option" where
  "add_list env pkg proc0 s db =
     (let proc = (if proc0 = [] then pkg else proc0) in
      if \<not> validate pkg proc then Some (D_INVALID_PKG, s, db)
      else
        do { (ok, s1) \<leftarrow> ensure_data env db s;
             if \<not> ok then Some (D_ERROR, s1, db)
             else
               do { (added, s2) \<leftarrow> add_hide_set env pkg proc s1;
                    if \<not> added then Some (D_ITEM_EXIST, s2, db)
                    else
                      do { s3 \<leftarrow> update_pkg_uid env pkg False s2;
                           Some (run_sql env (sql_insert (table_name s3) pkg proc) s3 db) } } })"

definition rm_pkg :: "'d deny_env \<Rightarrow> string \<Rightarrow> deny \<Rightarrow> deny option" where
  "rm_pkg env pkg s = do { s1 \<leftarrow> update_pkg_uid env pkg True s; erase_pkg pkg s1 }"

text \<open>The processes of a package after one of them is removed; a package with none left is erased.\<close>

definition rm_proc :: "'d deny_env \<Rightarrow> string \<Rightarrow> string list \<Rightarrow> deny \<Rightarrow> deny option" where
  "rm_proc env pkg ps s =
     do { m \<leftarrow> pkg_to_procs s;
          let s1 = s\<lparr>pkg_to_procs := Some (map_put pkg ps m)\<rparr>;
          if ps = [] then rm_pkg env pkg s1 else Some s1 }"

definition rm_list :: "'d deny_env \<Rightarrow> string \<Rightarrow> string \<Rightarrow> deny \<Rightarrow> 'd \<Rightarrow> (deny_response \<times> deny \<times> 'd) option" where
  "rm_list env pkg proc s db =
     do { (ok, s1) \<leftarrow> ensure_data env db s;
          if \<not> ok then Some (D_ERROR, s1, db)
          else
            do { m \<leftarrow> pkg_to_procs s1;
                 case map_of m pkg of
                   None \<Rightarrow> Some (D_ITEM_NOT_EXIST, s1, db)
                 | Some ps \<Rightarrow>
                     if proc = [] then
                       do { s2 \<leftarrow> rm_pkg env pkg s1;
                            Some (run_sql env (sql_delete_pkg (table_name s2) pkg) s2 db) }
                     else if proc \<notin> set ps then Some (D_ITEM_NOT_EXIST, s1, db)
                     else
                       do { s2 \<leftarrow> rm_proc env pkg (set_del proc ps) s1;
                            Some (run_sql env (sql_delete (table_name s2) pkg proc) s2 db) } } }"

section \<open>Listing\<close>

text \<open>Whether a view in the table starts the name of an isolated process; the search stops at the first.\<close>

fun starts_any :: "string \<Rightarrow> app_table \<Rightarrow> bool option" where
  "starts_any proc [] = Some False"
| "starts_any proc ((i, v) # a) =
     do { ps \<leftarrow> v; if list_ex (str_starts proc) ps then Some True else starts_any proc a }"

fun unused_isolated :: "app_table \<Rightarrow> string list \<Rightarrow> string list option" where
  "unused_isolated a [] = Some []"
| "unused_isolated a (proc # procs) =
     do { used \<leftarrow> starts_any proc a; r \<leftarrow> unused_isolated a procs; Some (if used then r else set_put proc r) }"

definition installed :: "'d deny_env \<Rightarrow> string \<Rightarrow> bool" where
  "installed env pkg \<longleftrightarrow> list_ex (\<lambda>user. owner env (user @ ''/'' @ pkg) \<noteq> None) (get_users env)"

fun stale_entries :: "'d deny_env \<Rightarrow> app_table option \<Rightarrow> proc_table \<Rightarrow> (string list \<times> string list) option" where
  "stale_entries env a [] = Some ([], [])"
| "stale_entries env a ((pkg, procs) # m) =
     (if pkg = ISOLATED_MAGIC then
        do { iso \<leftarrow> (if procs = [] then Some [] else do { a' \<leftarrow> a; unused_isolated a' procs });
             (pkgs, iso') \<leftarrow> stale_entries env a m;
             Some (pkgs, iso @ iso') }
      else
        do { (pkgs, iso) \<leftarrow> stale_entries env a m;
             Some (if installed env pkg then pkgs else set_put pkg pkgs, iso) })"

fun rm_stale_pkgs :: "'d deny_env \<Rightarrow> string list \<Rightarrow> deny \<Rightarrow> 'd \<Rightarrow> (deny \<times> 'd) option" where
  "rm_stale_pkgs env [] s db = Some (s, db)"
| "rm_stale_pkgs env (pkg # pkgs) s db =
     do { m \<leftarrow> pkg_to_procs s;
          s1 \<leftarrow> (if map_of m pkg = None then Some s else rm_pkg env pkg s);
          rm_stale_pkgs env pkgs s1 (snd (db_exec env (sql_delete_pkg (table_name s1) pkg) db)) }"

text \<open>The loop keeps one iterator, so it has no defined result after the entry has been erased.\<close>

fun rm_stale_procs :: "'d deny_env \<Rightarrow> string list \<Rightarrow> deny \<Rightarrow> 'd \<Rightarrow> (deny \<times> 'd) option" where
  "rm_stale_procs env [] s db = Some (s, db)"
| "rm_stale_procs env (proc # procs) s db =
     do { m \<leftarrow> pkg_to_procs s;
          ps \<leftarrow> map_of m ISOLATED_MAGIC;
          s1 \<leftarrow> (let ps' = set_del proc ps in
                 if proc \<in> set ps \<and> ps' = [] then erase_pkg ISOLATED_MAGIC s
                 else Some (s\<lparr>pkg_to_procs := Some (map_put ISOLATED_MAGIC ps' m)\<rparr>));
          rm_stale_procs env procs s1 (snd (db_exec env (sql_delete (table_name s1) ISOLATED_MAGIC proc) db)) }"

text \<open>The entries of what is not installed any more are removed.\<close>

definition rm_stale :: "'d deny_env \<Rightarrow> deny \<Rightarrow> 'd \<Rightarrow> (deny \<times> 'd) option" where
  "rm_stale env s db =
     do { m \<leftarrow> pkg_to_procs s;
          (pkgs, iso) \<leftarrow> stale_entries env (app_id_to_pkgs s) m;
          (s2, db2) \<leftarrow> rm_stale_pkgs env pkgs s db;
          m2 \<leftarrow> pkg_to_procs s2;
          if map_of m2 ISOLATED_MAGIC = None then Some (s2, db2) else rm_stale_procs env iso s2 db2 }"

definition list_items :: "proc_table \<Rightarrow> string list" where
  "list_items m = concat (map (\<lambda>(pkg, procs). map (\<lambda>proc. pkg @ ''|'' @ proc) procs) m)"

definition response_code :: "deny_response \<Rightarrow> int" where
  "response_code r =
     (case r of D_OK \<Rightarrow> 0 | D_ENFORCED \<Rightarrow> 1 | D_NOT_ENFORCED \<Rightarrow> 2 | D_ITEM_EXIST \<Rightarrow> 3 | D_ITEM_NOT_EXIST \<Rightarrow> 4
      | D_INVALID_PKG \<Rightarrow> 5 | D_NO_NS \<Rightarrow> 6 | D_ERROR \<Rightarrow> 7 | D_SULIST_ENFORCED \<Rightarrow> 8 | D_SULIST_NOT_ENFORCED \<Rightarrow> 9
      | D_SULIST_NO_DISABLE \<Rightarrow> 10)"

text \<open>The bytes sent to the client come with whether the client is closed.\<close>

definition ls_list :: "'d deny_env \<Rightarrow> deny \<Rightarrow> 'd \<Rightarrow> ((bytes \<times> bool) \<times> deny \<times> 'd) option" where
  "ls_list env s db =
     do { (ok, s1) \<leftarrow> ensure_data env db s;
          if \<not> ok then Some ((write_int 0 (response_code D_ERROR) [], False), s1, db)
          else
            do { (s2, db2) \<leftarrow> rm_stale env s1 db;
                 m \<leftarrow> pkg_to_procs s2;
                 let items = fold (write_string 0) (list_items m) (write_int 0 (response_code D_OK) []);
                 Some ((write_int 0 0 items, True), s2, db2) } }"


section \<open>Switching on and off\<close>

definition update_deny_config :: "'d deny_env \<Rightarrow> deny \<Rightarrow> 'd \<Rightarrow> 'd" where
  "update_deny_config env s db = snd (db_exec env (sql_setting DENYLIST_KEY (denylist_enforced s)) db)"

definition update_sulist_config :: "'d deny_env \<Rightarrow> bool \<Rightarrow> 'd \<Rightarrow> 'd" where
  "update_sulist_config env enable db = snd (db_exec env (sql_setting SULIST_KEY enable) db)"

text \<open>What follows once the monitor runs: the packages modules may have to change, and the processes that
  were forked ahead of time.\<close>

fun add_all :: "'d deny_env \<Rightarrow> string list \<Rightarrow> deny \<Rightarrow> deny option" where
  "add_all env [] s = Some s"
| "add_all env (pkg # pkgs) s = do { (_, s') \<leftarrow> add_hide_set env pkg pkg s; add_all env pkgs s' }"

definition kill_pools :: "'d deny_env \<Rightarrow> deny \<Rightarrow> deny option" where
  "kill_pools env s =
     do { s1 \<leftarrow> kill_process env (proc_name_match (=) ''usap32'') True s;
          s2 \<leftarrow> kill_process env (proc_name_match (=) ''usap64'') True s1;
          kill_process env (proc_context_match ''u:r:app_zygote:s0'') True s2 }"

definition enable_deny :: "'d deny_env \<Rightarrow> deny \<Rightarrow> 'd \<Rightarrow> (deny_response \<times> deny \<times> 'd) option" where
  "enable_deny env s db =
     (if denylist_enforced s then Some (D_OK, s, db)
      else if \<not> has_mnt_ns env
      then Some (D_NO_NS, s\<lparr>sulist_enabled := False, table_name := ''hidelist''\<rparr>, update_sulist_config env False db)
      else if \<not> procfp s \<and> \<not> proc_opens env then Some (D_ERROR, s, db)
      else
        do { (ok, s1) \<leftarrow> ensure_data env db (s\<lparr>procfp := True\<rparr>);
             if \<not> ok then Some (D_ERROR, s1, db)
             else if thread_fails env then Some (D_ERROR, s1\<lparr>denylist_enforced := False\<rparr>, db)
             else
               do { let s2 = s1\<lparr>denylist_enforced := True, effects := effects s1 @ [Start_monitor]\<rparr>;
                    s3 \<leftarrow> (if sulist_enabled s2
                           then add_all env [''com.android.systemui'', ''com.android.settings'', app_package env] s2
                           else Some s2);
                    s4 \<leftarrow> (if sdk_int env \<ge> 29 then kill_pools env s3 else Some s3);
                    Some (D_OK, s4, update_deny_config env s4 db) } })"

definition disable_deny :: "'d deny_env \<Rightarrow> deny \<Rightarrow> 'd \<Rightarrow> deny_response \<times> deny \<times> 'd" where
  "disable_deny env s db =
     (if sulist_enabled s then (D_SULIST_NO_DISABLE, s, db)
      else
        let s1 = (if denylist_enforced s
                  then s\<lparr>denylist_enforced := False, effects := effects s @ [Stop_monitor]\<rparr> else s) in
        (D_OK, s1, update_deny_config env s1 db))"

definition initialize_denylist :: "'d deny_env \<Rightarrow> deny \<Rightarrow> 'd \<Rightarrow> (deny \<times> 'd) option" where
  "initialize_denylist env s db =
     (if denylist_enforced s \<or> db_setting env DENYLIST_KEY db = 0 then Some (s, db)
      else
        let s1 = (if db_setting env SULIST_KEY db \<noteq> 0 then s\<lparr>sulist_enabled := True, table_name := ''sulist''\<rparr> else s) in
        do { (_, s2, db2) \<leftarrow> enable_deny env s1 db; Some (s2, db2) })"

section \<open>Questions\<close>

text \<open>\<open>get_manager\<close> as the hide list calls it, with no place to put the package name; \<open>rust\<close> is the function
  it would call.\<close>

definition get_manager :: "(int \<Rightarrow> bool \<Rightarrow> int \<times> string) \<Rightarrow> int \<Rightarrow> string option \<Rightarrow> bool \<Rightarrow> int \<times> string option" where
  "get_manager rust user_id pkg install =
     (case pkg of
        None \<Rightarrow> (-1, None)
      | Some old \<Rightarrow> (case rust user_id install of (uid, name) \<Rightarrow> (uid, Some (if uid \<ge> 0 then name else old))))"

text \<open>A name that fills the length the kernel keeps is compared by its start.\<close>

definition cut_match :: "int \<Rightarrow> string \<Rightarrow> string \<Rightarrow> bool" where
  "cut_match max_len s process \<longleftrightarrow>
     int (length s) > max_len mod 2 ^ 64 \<and> int (length process) > max_len mod 2 ^ 64 \<and> str_starts s process"

fun any_counts :: "proc_table \<Rightarrow> string list \<Rightarrow> string \<Rightarrow> bool option" where
  "any_counts m [] process = Some False"
| "any_counts m (pkg # pkgs) process =
     do { procs \<leftarrow> map_of m pkg; if process \<in> set procs then Some True else any_counts m pkgs process }"

definition list_target :: "int \<Rightarrow> string \<Rightarrow> int \<Rightarrow> deny \<Rightarrow> bool option" where
  "list_target app_id process max_len s =
     (if app_id \<ge> 90000 then
        do { m \<leftarrow> pkg_to_procs s;
             Some (list_ex (\<lambda>p. cut_match max_len p process \<or> str_starts process p) (procs_of m ISOLATED_MAGIC)) }
      else
        do { a \<leftarrow> app_id_to_pkgs s;
             case map_of a app_id of
               None \<Rightarrow> Some False
             | Some v \<Rightarrow>
                 do { pkgs \<leftarrow> v;
                      m \<leftarrow> pkg_to_procs s;
                      found \<leftarrow> any_counts m pkgs process;
                      Some (found \<or> list_ex (\<lambda>p. cut_match max_len p process \<or> p = process) pkgs) } })"

definition is_deny_target ::
    "'d deny_env \<Rightarrow> (int \<Rightarrow> bool \<Rightarrow> int \<times> string) \<Rightarrow> int \<Rightarrow> string \<Rightarrow> int \<Rightarrow> deny \<Rightarrow> 'd \<Rightarrow> (bool \<times> deny) option" where
  "is_deny_target env rust uid process max_len s db =
     do { (ok, s1) \<leftarrow> ensure_data env db s;
          if \<not> ok then Some (False, s1)
          else
            do { s2 \<leftarrow> (if skip_pkg_rescan s1 then Some s1 else rescan_apps env db (s1\<lparr>skip_pkg_rescan := True\<rparr>));
                 if to_app_id uid = fst (get_manager rust 0 None False) then Some (sulist_enabled s2, s2)
                 else do { r \<leftarrow> list_target (to_app_id uid) process max_len s2; Some (r, s2) } } }"

fun any_procs :: "proc_table \<Rightarrow> string list \<Rightarrow> bool option" where
  "any_procs m [] = Some False"
| "any_procs m (pkg # pkgs) = do { procs \<leftarrow> map_of m pkg; if procs \<noteq> [] then Some True else any_procs m pkgs }"

definition is_uid_on_list :: "int \<Rightarrow> deny \<Rightarrow> bool option" where
  "is_uid_on_list uid s =
     do { a \<leftarrow> app_id_to_pkgs s;
          case map_of a (to_app_id uid) of
            None \<Rightarrow> Some False
          | Some v \<Rightarrow> do { pkgs \<leftarrow> v; m \<leftarrow> pkg_to_procs s; any_procs m pkgs } }"

definition scan_deny_apps :: "'d deny_env \<Rightarrow> 'd \<Rightarrow> deny \<Rightarrow> deny option" where
  "scan_deny_apps env db s = rescan_apps env db s"

section \<open>The daemon's side and the command line\<close>

datatype deny_request =
  ENFORCE | DISABLE | ADD | REMOVE | LIST | STATUS | SULIST_STATUS | ENFORCE_SULIST | DISABLE_SULIST

definition request_code :: "deny_request \<Rightarrow> int" where
  "request_code r =
     (case r of ENFORCE \<Rightarrow> 0 | DISABLE \<Rightarrow> 1 | ADD \<Rightarrow> 2 | REMOVE \<Rightarrow> 3 | LIST \<Rightarrow> 4 | STATUS \<Rightarrow> 5 | SULIST_STATUS \<Rightarrow> 6
      | ENFORCE_SULIST \<Rightarrow> 7 | DISABLE_SULIST \<Rightarrow> 8)"

definition deny_requests :: "deny_request list" where
  "deny_requests = [ENFORCE, DISABLE, ADD, REMOVE, LIST, STATUS, SULIST_STATUS, ENFORCE_SULIST, DISABLE_SULIST]"

definition request_of_code :: "int \<Rightarrow> deny_request option" where
  "request_of_code c = find (\<lambda>r. request_code r = c) deny_requests"

text \<open>Two strings from the client. A client that closes early, or sends a negative length, ends the
  daemon; after a string cut short there is no defined one.\<close>

definition read_pair :: "bytes \<Rightarrow> (string \<times> string) run option" where
  "read_pair inp =
     (case read_string inp of
        Exit \<Rightarrow> Some Exit
      | Done (pkg, r) \<Rightarrow>
          (case read_string r of
             Exit \<Rightarrow> Some Exit
           | Done (proc, _) \<Rightarrow> do { p \<leftarrow> pkg; q \<leftarrow> proc; Some (Done (c_str p, c_str q)) }))"

definition on_pair ::
    "(string \<Rightarrow> string \<Rightarrow> deny \<Rightarrow> 'd \<Rightarrow> (deny_response \<times> deny \<times> 'd) option) \<Rightarrow> bytes \<Rightarrow> deny \<Rightarrow> 'd \<Rightarrow>
      (deny_response \<times> deny \<times> 'd) run option" where
  "on_pair f inp s db =
     do { r \<leftarrow> read_pair inp;
          case r of Exit \<Rightarrow> Some Exit | Done (pkg, proc) \<Rightarrow> do { x \<leftarrow> f pkg proc s db; Some (Done x) } }"

text \<open>The answer of every request but \<open>LIST\<close>, which answers by itself.\<close>

definition serve :: "'d deny_env \<Rightarrow> deny_request option \<Rightarrow> bytes \<Rightarrow> deny \<Rightarrow> 'd \<Rightarrow> (deny_response \<times> deny \<times> 'd) run option" where
  "serve env req inp s db =
     (case req of
        None \<Rightarrow> Some (Done (D_ERROR, s, db))
      | Some ENFORCE \<Rightarrow> do { x \<leftarrow> enable_deny env s db; Some (Done x) }
      | Some DISABLE \<Rightarrow> Some (Done (disable_deny env s db))
      | Some ADD \<Rightarrow> on_pair (add_list env) inp s db
      | Some REMOVE \<Rightarrow> on_pair (rm_list env) inp s db
      | Some LIST \<Rightarrow> None
      | Some ENFORCE_SULIST \<Rightarrow> Some (Done (D_OK, s, update_sulist_config env True db))
      | Some DISABLE_SULIST \<Rightarrow> Some (Done (D_OK, s, update_sulist_config env False db))
      | Some STATUS \<Rightarrow> Some (Done (if denylist_enforced s then D_ENFORCED else D_NOT_ENFORCED, s, db))
      | Some SULIST_STATUS \<Rightarrow> Some (Done (if sulist_enabled s then D_SULIST_ENFORCED else D_SULIST_NOT_ENFORCED, s, db)))"

definition denylist_handler ::
    "'d deny_env \<Rightarrow> int \<Rightarrow> bytes \<Rightarrow> deny \<Rightarrow> 'd \<Rightarrow> ((bytes \<times> bool) \<times> deny \<times> 'd) run option" where
  "denylist_handler env client inp s db =
     (if client < 0 then Some (Done (([], False), s\<lparr>effects := effects s @ [Unmount]\<rparr>, db))
      else
        case read_int inp of
          (code, inp') \<Rightarrow>
            if request_of_code code = Some LIST then do { x \<leftarrow> ls_list env s db; Some (Done x) }
            else
              do { r \<leftarrow> serve env (request_of_code code) inp' s db;
                   case r of
                     Exit \<Rightarrow> Some Exit
                   | Done (res, s', db') \<Rightarrow> Some (Done ((write_int client (response_code res) [], True), s', db')) })"

text \<open>The command line: what is asked for, \<open>-1\<close> for a word after \<open>sulist\<close> that is not known.\<close>

datatype deny_cli = Usage | Exec "string list" | Ask int

definition cli_request :: "string list \<Rightarrow> deny_cli" where
  "cli_request argv =
     (if length argv < 2 then Usage
      else if argv ! 1 = ''enable'' then Ask (request_code ENFORCE)
      else if argv ! 1 = ''disable'' then Ask (request_code DISABLE)
      else if argv ! 1 = ''add'' then Ask (request_code ADD)
      else if argv ! 1 = ''rm'' then Ask (request_code REMOVE)
      else if argv ! 1 = ''ls'' then Ask (request_code LIST)
      else if argv ! 1 = ''status'' then Ask (request_code STATUS)
      else if argv ! 1 = ''sulist'' then
        Ask (if length argv \<ge> 3
             then (if argv ! 2 = ''enable'' then request_code ENFORCE_SULIST
                   else if argv ! 2 = ''disable'' then request_code DISABLE_SULIST else -1)
             else request_code SULIST_STATUS)
      else if argv ! 1 = ''exec'' \<and> length argv > 2 then Exec (drop 2 argv)
      else Usage)"

text \<open>What is sent. The argument after the last is a null pointer, which is no string and ends the array.\<close>

definition cli_message :: "string list \<Rightarrow> int \<Rightarrow> bytes option" where
  "cli_message argv req =
     (if req = request_code ADD \<or> req = request_code REMOVE then
        (if length argv \<le> 2 then None
         else Some (write_string 0 (if length argv = 3 then [] else argv ! 3) (write_string 0 (argv ! 2) (write_int 0 req []))))
      else Some (write_int 0 req []))"

lemma read_string_shorter: "read_string inp = Done (s, r) \<Longrightarrow> length r < length inp"
  by (auto simp: read_string_def read_int_def xxread_def split: option.splits if_splits prod.splits)

function cli_list :: "bytes \<Rightarrow> string list run option" where
  "cli_list inp =
     (case read_string inp of
        Exit \<Rightarrow> Some Exit
      | Done (None, r) \<Rightarrow> None
      | Done (Some line, r) \<Rightarrow>
          if line = [] then Some (Done [])
          else
            do { x \<leftarrow> cli_list r;
                 case x of Exit \<Rightarrow> Some Exit | Done lines \<Rightarrow> Some (Done (c_str line # lines)) })"
  by pat_completeness auto

termination
  by (relation "measure length") (auto simp: read_string_shorter)

declare cli_list.simps [simp del]

text \<open>The lines of the list and the exit value.\<close>

definition responses :: "deny_response list" where
  "responses = [D_OK, D_ENFORCED, D_NOT_ENFORCED, D_ITEM_EXIST, D_ITEM_NOT_EXIST, D_INVALID_PKG, D_NO_NS, D_ERROR,
     D_SULIST_ENFORCED, D_SULIST_NOT_ENFORCED, D_SULIST_NO_DISABLE]"

definition cli_result :: "int \<Rightarrow> bytes \<Rightarrow> (string list \<times> int) run option" where
  "cli_result req reply =
     (case read_int reply of
        (code, r) \<Rightarrow>
          let res = (if code < 0 \<or> code \<ge> 11 then D_ERROR else responses ! nat code);
              return_code = of_bool (if req = request_code STATUS then res \<noteq> D_ENFORCED else res \<noteq> D_OK) in
          if res = D_SULIST_NOT_ENFORCED then Some (Done ([], 1))
          else if res = D_SULIST_ENFORCED then Some (Done ([], 0))
          else if res = D_ERROR \<or> res = D_SULIST_NO_DISABLE then Some (Done ([], -1))
          else if res = D_OK \<and> req = request_code LIST then
            do { x \<leftarrow> cli_list r;
                 case x of Exit \<Rightarrow> Some Exit | Done lines \<Rightarrow> Some (Done (lines, return_code)) }
          else Some (Done ([], return_code)))"

section \<open>Crawling\<close>

lemma not_alnum [simp]: "\<not> isalnum CHR '':''" "\<not> isalnum CHR ''.''" "\<not> isalnum CHR 0x27"
  by code_simp+

lemma valid_pkg_iff:
  "valid_pkg b s \<longleftrightarrow> (\<forall>c\<in>set s. isalnum c \<or> c \<in> {CHR ''_'', CHR ''.''}) \<and> (b \<or> CHR ''.'' \<in> set s)"
  by (induction s arbitrary: b) auto

lemma valid_proc_iff:
  "valid_proc s \<longleftrightarrow> (\<forall>c\<in>set s. isalnum c \<or> c \<in> {CHR ''_'', CHR '':'', CHR ''.''})"
  by (induction s) auto

lemma valid_isolated_iff:
  "valid_isolated s \<longleftrightarrow> (\<forall>c\<in>set (takeWhile (\<lambda>c. c \<noteq> CHR '':'') s). isalnum c \<or> c \<in> {CHR ''_'', CHR ''.''})"
  by (induction s) auto

text \<open>Which names the list takes. Behind the first colon of an isolated process anything goes, a quote as well.\<close>

theorem validate_exact:
  "validate pkg proc \<longleftrightarrow>
     (if pkg = ISOLATED_MAGIC
      then \<forall>c\<in>set (takeWhile (\<lambda>c. c \<noteq> CHR '':'') proc). isalnum c \<or> c \<in> {CHR ''_'', CHR ''.''}
      else (\<forall>c\<in>set pkg. isalnum c \<or> c \<in> {CHR ''_'', CHR ''.''}) \<and> CHR ''.'' \<in> set pkg \<and>
           (\<forall>c\<in>set proc. isalnum c \<or> c \<in> {CHR ''_'', CHR '':'', CHR ''.''}))"
proof (cases "pkg = ISOLATED_MAGIC")
  case True
  show ?thesis unfolding validate_def if_P [OF True] by (rule valid_isolated_iff)
next
  case False
  have "validate pkg proc \<longleftrightarrow> valid_pkg False pkg \<and> valid_proc proc" unfolding validate_def if_not_P [OF False] by (rule refl)
  then show ?thesis unfolding if_not_P [OF False] valid_pkg_iff valid_proc_iff by blast
qed

text \<open>Entries whose name is a number.\<close>

definition readable :: "'d deny_env \<Rightarrow> bool" where
  "readable env \<longleftrightarrow> (\<forall>e\<in>set (processes env). parse_int (pe_name e) \<noteq> None)"

definition pids :: "proc_entry list \<Rightarrow> (int \<times> proc_entry) list" where
  "pids es = filter (\<lambda>p. fst p > 0) (map (\<lambda>e. (the (parse_int (pe_name e)), e)) es)"

lemma crawl_all:
  assumes "\<forall>e\<in>set es. parse_int (pe_name e) \<noteq> None" and "\<And>pid e. snd (fn pid e)"
  shows "crawl_entries fn es = Some (concat (map (\<lambda>(pid, e). fst (fn pid e)) (pids es)))"
  using assms(1)
proof (induction es)
  case (Cons e es)
  obtain pid where p: "parse_int (pe_name e) = Some pid" using Cons.prems by auto
  have "fn pid e = (fst (fn pid e), True)" using assms(2) by (metis prod.collapse)
  then show ?case using Cons p by (cases "fn pid e") (auto simp: pids_def)
qed (simp add: pids_def)

lemma crawl_defined: "\<forall>e\<in>set es. parse_int (pe_name e) \<noteq> None \<Longrightarrow> crawl_entries fn es \<noteq> None"
  by (induction es) (auto split: bool.splits prod.splits)

lemma crawl_kill_first:
  assumes "\<forall>e\<in>set es. parse_int (pe_name e) \<noteq> None"
  shows "crawl_entries (\<lambda>pid e. if matcher pid e then ([Kill pid], False) else ([], True)) es =
    Some (case find (\<lambda>(pid, e). matcher pid e) (pids es) of None \<Rightarrow> [] | Some (pid, _) \<Rightarrow> [Kill pid])"
  using assms by (induction es) (auto simp: pids_def)

text \<open>Killing by name kills exactly the processes that match, in the order of \<open>/proc\<close>: all of them, or only the
  first.\<close>

theorem kill_process_exact:
  assumes "readable env" and "procfp s"
  shows "kill_process env matcher multi s =
    Some (s\<lparr>effects := effects s @
      (let hits = filter (\<lambda>(pid, e). matcher pid e) (pids (processes env)) in
       map (\<lambda>(pid, e). Kill pid) (if multi then hits else take 1 hits))\<rparr>)"
proof (cases multi)
  case True
  let ?fn = "\<lambda>pid e. if matcher pid e then ([Kill pid], True) else ([], True)"
  have "crawl_entries ?fn (processes env) = Some (concat (map (\<lambda>(pid, e). fst (?fn pid e)) (pids (processes env))))"
    using assms(1) by (intro crawl_all) (auto simp: readable_def)
  moreover have "concat (map (\<lambda>(pid, e). fst (?fn pid e)) l) = map (\<lambda>(pid, e). Kill pid) (filter (\<lambda>(pid, e). matcher pid e) l)" for l
    by (induction l) auto
  ultimately show ?thesis using True assms(2) by (simp add: kill_process_def crawl_procfs_def)
next
  case False
  have "map (\<lambda>(pid, e). Kill pid) (take 1 (filter (\<lambda>(pid, e). matcher pid e) l)) =
    (case find (\<lambda>(pid, e). matcher pid e) l of None \<Rightarrow> [] | Some (pid, _) \<Rightarrow> [Kill pid])" for l
    by (induction l) auto
  then show ?thesis
    using False assms crawl_kill_first [of "processes env" matcher]
    by (simp add: kill_process_def crawl_procfs_def readable_def)
qed

section \<open>Adding\<close>

text \<open>The tables hold ordered, non-empty sets.\<close>

definition table_ok :: "proc_table \<Rightarrow> bool" where
  "table_ok m \<longleftrightarrow> map_wf m \<and> (\<forall>pkg ps. map_of m pkg = Some ps \<longrightarrow> ascending ps \<and> ps \<noteq> [])"

text \<open>All but the processes and the effects are the same.\<close>

definition frame :: "deny \<Rightarrow> deny \<Rightarrow> bool" where
  "frame s s' \<longleftrightarrow> s' = s\<lparr>pkg_to_procs := pkg_to_procs s', effects := effects s'\<rparr>"

lemma set_put_ne: "set_put x ys \<noteq> []"
  by (cases ys) auto

lemma table_ok_put: "table_ok m \<Longrightarrow> ascending ps \<Longrightarrow> ps \<noteq> [] \<Longrightarrow> table_ok (map_put pkg ps m)"
  by (auto simp: table_ok_def map_wf_put map_of_put split: if_splits)

lemma table_ok_del: "table_ok m \<Longrightarrow> table_ok (map_del pkg m)"
  by (auto simp: table_ok_def map_wf_del map_of_del split: if_splits)

lemma crawl_procfs_frame:
  assumes "readable env" and "procfp s"
  shows "\<exists>fx. crawl_procfs env fn s = Some (s\<lparr>effects := effects s @ fx\<rparr>)"
proof -
  obtain fx where "crawl_entries fn (processes env) = Some fx"
    using assms(1) crawl_defined [of "processes env" fn] by (auto simp: readable_def)
  then show ?thesis using assms(2) by (auto simp: crawl_procfs_def)
qed

text \<open>Adding a process: the table with it, whatever is killed.\<close>

lemma add_hide_set_works:
  assumes "readable env" and "denylist_enforced s \<longrightarrow> procfp s" and "pkg_to_procs s = Some m"
  shows "\<exists>s'. add_hide_set env pkg proc s = Some (proc \<notin> set (procs_of m pkg), s') \<and>
    pkg_to_procs s' = Some (map_put pkg (set_put proc (procs_of m pkg)) m) \<and> frame s s'"
proof -
  let ?s1 = "s\<lparr>pkg_to_procs := Some (map_put pkg (set_put proc (procs_of m pkg)) m)\<rparr>"
  let ?hide = "\<lambda>pid e. (if pe_stat e then [Hide pid] else [], True)"
  let ?kill = "\<lambda>s2. if pkg = ISOLATED_MAGIC then kill_process env (proc_name_match str_starts proc) True s2
    else kill_process env (proc_name_match (=) proc) False s2"
  have eq: "add_hide_set env pkg proc s =
    (if proc \<in> set (procs_of m pkg) then Some (False, ?s1) else if \<not> denylist_enforced s then Some (True, ?s1)
     else do { s2 \<leftarrow> crawl_procfs env ?hide ?s1; s3 \<leftarrow> ?kill s2; Some (True, s3) })"
    unfolding add_hide_set_def assms(3) Let_def by simp
  show ?thesis
  proof (cases "proc \<in> set (procs_of m pkg) \<or> \<not> denylist_enforced s")
    case True
    then have "add_hide_set env pkg proc s = Some (proc \<notin> set (procs_of m pkg), ?s1)" using eq by auto
    then show ?thesis by (auto simp: frame_def)
  next
    case False
    then have p: "procfp ?s1" using assms(2) by simp
    obtain fx where 1: "crawl_procfs env ?hide ?s1 = Some (?s1\<lparr>effects := effects ?s1 @ fx\<rparr>)"
      using crawl_procfs_frame [OF assms(1) p] by blast
    have "procfp (?s1\<lparr>effects := effects ?s1 @ fx\<rparr>)" using p by simp
    from crawl_procfs_frame [OF assms(1) this]
    obtain gx where 2: "?kill (?s1\<lparr>effects := effects ?s1 @ fx\<rparr>) = Some (?s1\<lparr>effects := effects ?s1 @ fx @ gx\<rparr>)"
      unfolding kill_process_def by (cases "pkg = ISOLATED_MAGIC") force+
    have "add_hide_set env pkg proc s = Some (proc \<notin> set (procs_of m pkg), ?s1\<lparr>effects := effects ?s1 @ fx @ gx\<rparr>)"
      unfolding eq 1 bind.bind_lunit 2 using False by simp
    then show ?thesis by (auto simp: frame_def)
  qed
qed

end
