(* ===== verification/Core_Deny_Runs.thy ===== *)
theory Core_Deny_Runs
  imports Core_Deny
begin

text \<open>
  What the hide list keeps: the invariant of its tables, that every command has a result while the
  installed packages stay what they are, that the list behaves as a set, and what its clients see.
\<close>

section \<open>The invariant\<close>

text \<open>
  \<open>ids\<close> gives every package its app id and \<open>inst\<close> are the installed ones. A view in the table of app
  ids is of a key of the list, of an installed package, under its app id.
\<close>

definition live :: "(string \<Rightarrow> int) \<Rightarrow> string set \<Rightarrow> proc_table \<Rightarrow> app_table \<Rightarrow> bool" where
  "live ids inst m a \<longleftrightarrow> map_wf a \<and> (\<forall>i v. map_of a i = Some v \<longrightarrow>
     (\<exists>ps. v = Some ps \<and> ascending ps \<and> (\<forall>p\<in>set ps. ids p = i \<and> p \<in> inst \<and> map_of m p \<noteq> None)))"

text \<open>The list is loaded, or there are no tables and nothing is enforced.\<close>

definition tabled :: "deny \<Rightarrow> bool" where
  "tabled s \<longleftrightarrow> (denylist_enforced s \<longrightarrow> procfp s) \<and> (\<exists>m. pkg_to_procs s = Some m \<and> table_ok m)"

definition loaded :: "(string \<Rightarrow> int) \<Rightarrow> string set \<Rightarrow> deny \<Rightarrow> bool" where
  "loaded ids inst s \<longleftrightarrow> (denylist_enforced s \<longrightarrow> procfp s) \<and>
     (\<exists>m a. pkg_to_procs s = Some m \<and> table_ok m \<and> app_id_to_pkgs s = Some a \<and> live ids inst m a)"

definition deny_inv :: "(string \<Rightarrow> int) \<Rightarrow> string set \<Rightarrow> deny \<Rightarrow> bool" where
  "deny_inv ids inst s \<longleftrightarrow>
     loaded ids inst s \<or> (pkg_to_procs s = None \<and> app_id_to_pkgs s = None \<and> \<not> denylist_enforced s)"

text \<open>What a user's directory says agrees with \<open>ids\<close> and \<open>inst\<close>; a path that is too long is no file.\<close>

definition user_ok :: "(string \<Rightarrow> int) \<Rightarrow> string set \<Rightarrow> 'd deny_env \<Rightarrow> string \<Rightarrow> bool" where
  "user_ok ids inst env user \<longleftrightarrow>
     (\<forall>pkg uid. owner env (user @ ''/'' @ pkg) = Some uid \<longrightarrow>
        length (user @ ''/'' @ pkg) < 4096 \<and> to_app_id (int uid) = ids pkg \<and> pkg \<in> inst) \<and>
     (\<forall>pkg. length (user @ ''/'' @ pkg) < 4096 \<or> owner env (take 4095 (user @ ''/'' @ pkg)) = None)"

text \<open>The environment agrees with \<open>ids\<close> and \<open>inst\<close>: some user has each installed package, and none is called
  as the isolated processes are (the name of a package has a dot).\<close>

definition agrees :: "(string \<Rightarrow> int) \<Rightarrow> string set \<Rightarrow> 'd deny_env \<Rightarrow> bool" where
  "agrees ids inst env \<longleftrightarrow> readable env \<and> ISOLATED_MAGIC \<notin> inst \<and>
     (\<exists>us. user_dirs env = Some us \<and> (\<forall>u\<in>set us. user_ok ids inst env (fst u)) \<and>
       (\<forall>pkg\<in>inst. \<exists>u\<in>set us. owner env (fst u @ ''/'' @ pkg) \<noteq> None))"

lemma live_get: "live ids inst m a \<Longrightarrow> map_of a i = Some v \<Longrightarrow>
    \<exists>ps. v = Some ps \<and> ascending ps \<and> (\<forall>p\<in>set ps. ids p = i \<and> p \<in> inst \<and> map_of m p \<noteq> None)"
  by (simp add: live_def)

lemma liveI:
  assumes "map_wf a"
    and "\<And>i v. map_of a i = Some v \<Longrightarrow>
      \<exists>ps. v = Some ps \<and> ascending ps \<and> (\<forall>p\<in>set ps. ids p = i \<and> p \<in> inst \<and> map_of m p \<noteq> None)"
  shows "live ids inst m a"
  using assms by (simp add: live_def)

lemma live_mono:
  assumes "live ids inst m a" and "\<And>p. map_of m p \<noteq> None \<Longrightarrow> map_of m' p \<noteq> None"
  shows "live ids inst m' a"
proof (rule liveI)
  show "map_wf a" using assms(1) by (simp add: live_def)
  fix i v assume "map_of a i = Some v"
  from live_get [OF assms(1) this] obtain ps where
    "v = Some ps" "ascending ps" "\<forall>p\<in>set ps. ids p = i \<and> p \<in> inst \<and> map_of m p \<noteq> None" by blast
  then show "\<exists>ps. v = Some ps \<and> ascending ps \<and> (\<forall>p\<in>set ps. ids p = i \<and> p \<in> inst \<and> map_of m' p \<noteq> None)"
    using assms(2) by (intro exI [of _ ps]) simp
qed

lemma live_Nil: "live ids inst m []"
  by (simp add: live_def map_wf_def)

lemma live_put:
  assumes "live ids inst m a" and "ascending ps" and "\<And>p. p \<in> set ps \<Longrightarrow> ids p = i \<and> p \<in> inst \<and> map_of m p \<noteq> None"
  shows "live ids inst m (map_put i (Some ps) a)"
proof (rule liveI)
  have w: "map_wf a" using assms(1) by (simp add: live_def)
  then show "map_wf (map_put i (Some ps) a)" by (rule map_wf_put)
  fix j v assume "map_of (map_put i (Some ps) a) j = Some v"
  then have "j = i \<and> v = Some ps \<or> map_of a j = Some v" by (simp add: map_of_put [OF w] split: if_splits)
  then show "\<exists>ps. v = Some ps \<and> ascending ps \<and> (\<forall>p\<in>set ps. ids p = j \<and> p \<in> inst \<and> map_of m p \<noteq> None)"
    using assms(2,3) live_get [OF assms(1)] by blast
qed

definition viewed :: "app_table \<Rightarrow> int \<Rightarrow> string \<Rightarrow> bool" where
  "viewed a i pkg \<longleftrightarrow> (\<exists>ps. map_of a i = Some (Some ps) \<and> pkg \<in> set ps)"

lemma add_view_live:
  assumes "live ids inst m a" and "map_of m pkg \<noteq> None" and "pkg \<in> inst"
  shows "\<exists>a'. add_view (ids pkg) pkg a = Some a' \<and> live ids inst m a' \<and> viewed a' (ids pkg) pkg"
proof -
  have w: "map_wf a" using assms(1) by (simp add: live_def)
  show ?thesis
  proof (cases "map_of a (ids pkg)")
    case None
    have "live ids inst m (map_put (ids pkg) (Some [pkg]) a)"
      by (rule live_put [OF assms(1)]) (simp_all add: assms(2,3))
    then show ?thesis using None by (simp add: add_view_def viewed_def map_of_put [OF w])
  next
    case (Some v)
    from live_get [OF assms(1) this] obtain ps where ps: "v = Some ps" "ascending ps"
        "\<forall>p\<in>set ps. ids p = ids pkg \<and> p \<in> inst \<and> map_of m p \<noteq> None" by blast
    have "live ids inst m (map_put (ids pkg) (Some (set_put pkg ps)) a)"
    proof (rule live_put [OF assms(1) ascending_set_put [OF ps(2)]])
      fix p assume "p \<in> set (set_put pkg ps)"
      then have "p = pkg \<or> p \<in> set ps" by simp
      then show "ids p = ids pkg \<and> p \<in> inst \<and> map_of m p \<noteq> None" using ps(3) assms(2,3) by (elim disjE) simp_all
    qed
    then show ?thesis using Some ps(1) by (simp add: add_view_def viewed_def map_of_put [OF w])
  qed
qed

lemma remove_view_live:
  assumes "live ids inst m a"
  shows "\<exists>a'. remove_view i pkg a = Some a' \<and> live ids inst m a' \<and>
    (i = ids pkg \<longrightarrow> (\<forall>j ps. map_of a' j = Some (Some ps) \<longrightarrow> pkg \<notin> set ps))"
proof (cases "map_of a i")
  case None
  moreover have "pkg \<notin> set ps" if "i = ids pkg" "map_of a j = Some (Some ps)" for j ps
    using live_get [OF assms that(2)] that None by auto
  ultimately show ?thesis using assms by (auto simp: remove_view_def)
next
  case (Some v)
  then obtain ps where ps: "v = Some ps" "ascending ps" "\<forall>p\<in>set ps. ids p = i \<and> p \<in> inst \<and> map_of m p \<noteq> None"
    using live_get [OF assms] by blast
  have w: "map_wf a" using assms by (simp add: live_def)
  have d: "live ids inst m (map_del i a)"
    using live_get [OF assms] w by (intro liveI) (simp_all add: map_wf_del map_of_del split: if_splits)
  have p: "live ids inst m (map_put i (Some (set_del pkg ps)) a)"
    using ps set_del_subset [of pkg ps] by (intro live_put assms ascending_set_del) auto
  have o: "pkg \<notin> set qs" if "i = ids pkg" "map_of a j = Some (Some qs)" "j \<noteq> i" for j qs
    using live_get [OF assms that(2)] that by auto
  show ?thesis
  proof (cases "set_del pkg ps = []")
    case True
    then have "remove_view i pkg a = Some (map_del i a)" using Some ps(1) by (simp add: remove_view_def)
    moreover have "pkg \<notin> set qs" if "i = ids pkg" "map_of (map_del i a) j = Some (Some qs)" for j qs
      using that o [of j qs] by (simp add: map_of_del [OF w] split: if_splits)
    ultimately show ?thesis using d by blast
  next
    case False
    then have "remove_view i pkg a = Some (map_put i (Some (set_del pkg ps)) a)" using Some ps(1) by (simp add: remove_view_def)
    moreover have "pkg \<notin> set qs" if "i = ids pkg" "map_of (map_put i (Some (set_del pkg ps)) a) j = Some (Some qs)" for j qs
      using that o [of j qs] set_set_del [OF ps(2), of pkg] by (auto simp: map_of_put [OF w] split: if_splits)
    ultimately show ?thesis using p by blast
  qed
qed

lemma dangle_live:
  assumes "live ids inst m a" and "\<And>j ps. map_of a j = Some (Some ps) \<Longrightarrow> pkg \<notin> set ps" and "map_wf m"
  shows "live ids inst (map_del pkg m) (dangle pkg a)"
proof -
  have "map fst (dangle pkg a) = map fst a" by (induction a) (auto simp: dangle_def)
  then have w: "map_wf (dangle pkg a)" using assms(1) by (simp add: live_def map_wf_def)
  have g: "map_of (dangle pkg a) j = map_of a j" for j
  proof -
    have "map_of (dangle pkg a) j =
      map_option (\<lambda>v. case v of None \<Rightarrow> None | Some ps \<Rightarrow> if pkg \<in> set ps then None else Some ps) (map_of a j)"
      by (induction a) (auto simp: dangle_def)
    then show ?thesis using assms(2) by (cases "map_of a j") (auto split: option.splits)
  qed
  show ?thesis unfolding live_def g
  proof (intro conjI w allI impI)
    fix i v assume "map_of a i = Some v"
    with live_get [OF assms(1) this] assms(2) [of i]
    show "\<exists>ps. v = Some ps \<and> ascending ps \<and> (\<forall>p\<in>set ps. ids p = i \<and> p \<in> inst \<and> map_of (map_del pkg m) p \<noteq> None)"
      by (auto simp: map_of_del [OF assms(3)])
  qed
qed


section \<open>The operations keep the invariant\<close>

lemma app_id_of_user:
  assumes "user_ok ids inst env user"
  shows "owner env (take 4095 (user @ ''/'' @ pkg)) = owner env (user @ ''/'' @ pkg)"
proof (cases "length (user @ ''/'' @ pkg) < 4096")
  case False
  then have "owner env (take 4095 (user @ ''/'' @ pkg)) = None" using assms unfolding user_ok_def by blast
  moreover have "owner env (user @ ''/'' @ pkg) = None"
    using False assms unfolding user_ok_def by (cases "owner env (user @ ''/'' @ pkg)") blast+
  ultimately show ?thesis by simp
qed simp

lemma app_id_of_agrees:
  assumes "\<forall>u\<in>set us. user_ok ids inst env (fst u)"
  shows "app_id_of env us pkg = (if \<exists>u\<in>set us. owner env (fst u @ ''/'' @ pkg) \<noteq> None then Some (ids pkg) else None)"
  using assms
proof (induction us)
  case (Cons u us)
  obtain user es where u: "u = (user, es)" by fastforce
  have ok: "user_ok ids inst env user" using Cons.prems u by simp
  show ?case
  proof (cases "owner env (user @ ''/'' @ pkg)")
    case None
    then show ?thesis using Cons app_id_of_user [OF ok, of pkg] by (simp add: u)
  next
    case (Some uid)
    then have "to_app_id (int uid) = ids pkg" using ok unfolding user_ok_def by blast
    then show ?thesis using Some app_id_of_user [OF ok, of pkg] by (simp add: u)
  qed
qed simp

lemma agreesE:
  assumes "agrees ids inst env"
  obtains us where "readable env" and "user_dirs env = Some us" and "\<forall>u\<in>set us. user_ok ids inst env (fst u)"
    and "\<And>pkg. app_id_of env us pkg = (if pkg \<in> inst then Some (ids pkg) else None)"
proof -
  obtain us where us: "readable env" "user_dirs env = Some us" "\<forall>u\<in>set us. user_ok ids inst env (fst u)"
    "\<forall>pkg\<in>inst. \<exists>u\<in>set us. owner env (fst u @ ''/'' @ pkg) \<noteq> None"
    using assms unfolding agrees_def by blast
  have "(\<exists>u\<in>set us. owner env (fst u @ ''/'' @ pkg) \<noteq> None) \<longleftrightarrow> pkg \<in> inst" for pkg
    using us(3,4) unfolding user_ok_def by blast
  then show thesis using that [OF us(1-3)] app_id_of_agrees [OF us(3)] by simp
qed

text \<open>Scanning the directories.\<close>

lemma scan_pkgs_live:
  assumes "user_ok ids inst env user" and "live ids inst m a"
  shows "\<exists>a'. scan_pkgs env user m es a = Some a' \<and> live ids inst m a'"
  using assms(2)
proof (induction es arbitrary: a)
  case (Cons e es)
  show ?case
  proof (cases "owner env (user @ ''/'' @ e) = None \<or> map_of m e = None")
    case True
    then show ?thesis using Cons by (auto split: option.splits)
  next
    case False
    then obtain uid where o: "owner env (user @ ''/'' @ e) = Some uid" and m: "map_of m e \<noteq> None"
      by (cases "owner env (user @ ''/'' @ e)") auto
    then have "to_app_id (int uid) = ids e" "e \<in> inst" using assms(1) unfolding user_ok_def by blast+
    moreover obtain a' where "add_view (ids e) e a = Some a'" "live ids inst m a'"
      using add_view_live [OF Cons.prems m \<open>e \<in> inst\<close>] by blast
    moreover obtain a2 where "scan_pkgs env user m es a' = Some a2" "live ids inst m a2"
      using Cons.IH [OF \<open>live ids inst m a'\<close>] by blast
    ultimately show ?thesis using o m by auto
  qed
qed simp

lemma scan_users_live:
  assumes "\<forall>u\<in>set us. user_ok ids inst env (fst u)" and "live ids inst m a"
  shows "\<exists>a'. scan_users env m us a = Some a' \<and> live ids inst m a'"
  using assms
proof (induction us arbitrary: a)
  case (Cons u us)
  obtain user es where u: "u = (user, es)" by fastforce
  have ok: "user_ok ids inst env user" using Cons.prems u by simp
  obtain a' where a': "(case es of None \<Rightarrow> Some a | Some es \<Rightarrow> scan_pkgs env user m es a) = Some a'" "live ids inst m a'"
    using scan_pkgs_live [OF ok Cons.prems(2)] Cons.prems(2) by (cases es) auto
  obtain a2 where "scan_users env m us a' = Some a2" "live ids inst m a2"
    using Cons.IH [OF _ a'(2)] Cons.prems(1) by auto
  then show ?case using a'(1) by (simp add: u)
qed simp


lemma loaded_tabled: "loaded ids inst s \<Longrightarrow> tabled s"
  by (auto simp: loaded_def tabled_def)

definition same_flags :: "deny \<Rightarrow> deny \<Rightarrow> bool" where
  "same_flags s s' \<longleftrightarrow> denylist_enforced s' = denylist_enforced s \<and> procfp s' = procfp s"

lemma frame_fields:
  assumes "frame s s'"
  shows "app_id_to_pkgs s' = app_id_to_pkgs s" and "same_flags s s'" and "table_name s' = table_name s"
    and "sulist_enabled s' = sulist_enabled s" and "skip_pkg_rescan s' = skip_pkg_rescan s"
  using assms unfolding frame_def same_flags_def by (metis deny.simps deny.surjective deny.update_convs)+

lemma table_ok_procs: "table_ok m \<Longrightarrow> ascending (procs_of m pkg)"
  by (auto simp: table_ok_def procs_of_def split: option.splits)

lemma add_hide_set_tabled:
  assumes "readable env" and "tabled s"
  shows "\<exists>b s'. add_hide_set env pkg proc s = Some (b, s') \<and> tabled s' \<and> frame s s' \<and>
    (\<forall>ids inst. loaded ids inst s \<longrightarrow> loaded ids inst s')"
proof -
  obtain m where m: "pkg_to_procs s = Some m" "table_ok m" and p: "denylist_enforced s \<longrightarrow> procfp s"
    using assms(2) by (auto simp: tabled_def)
  let ?m = "map_put pkg (set_put proc (procs_of m pkg)) m"
  obtain s' where s': "add_hide_set env pkg proc s = Some (proc \<notin> set (procs_of m pkg), s')"
      "pkg_to_procs s' = Some ?m" "frame s s'"
    using add_hide_set_works [OF assms(1) p m(1)] by blast
  have t: "table_ok ?m"
    by (rule table_ok_put [OF m(2) ascending_set_put [OF table_ok_procs [OF m(2)]] set_put_ne])
  have f: "denylist_enforced s' \<longrightarrow> procfp s'" using p frame_fields(2) [OF s'(3)] by (simp add: same_flags_def)
  have w: "map_wf m" using m(2) by (simp add: table_ok_def)
  have "loaded ids inst s'" if l: "loaded ids inst s" for ids inst
  proof -
    obtain a where a: "app_id_to_pkgs s = Some a" "live ids inst m a" using l m(1) by (auto simp: loaded_def)
    have "live ids inst ?m a" by (rule live_mono [OF a(2)]) (simp add: map_of_put [OF w])
    then show ?thesis using f s'(2) t a(1) frame_fields(1) [OF s'(3)] by (simp add: loaded_def)
  qed
  moreover have "tabled s'" using f s'(2) t by (simp add: tabled_def)
  ultimately show ?thesis using s'(1,3) by blast
qed

lemma load_rows_tabled:
  assumes "readable env" and "tabled s"
  shows "\<exists>s'. load_rows env rows s = Some s' \<and> tabled s' \<and> same_flags s s'"
  using assms(2)
proof (induction rows arbitrary: s)
  case (Cons r rows)
  obtain pkg proc where r: "r = (pkg, proc)" by fastforce
  obtain b s' where s': "add_hide_set env pkg proc s = Some (b, s')" "tabled s'" "frame s s'"
    using add_hide_set_tabled [OF assms(1) Cons.prems] by blast
  from Cons.IH [OF s'(2)] obtain s2 where "load_rows env rows s' = Some s2" "tabled s2" "same_flags s' s2" by blast
  then show ?case using s'(1) frame_fields(2) [OF s'(3)] by (simp add: r same_flags_def)
qed (simp add: same_flags_def)

lemma add_all_loaded:
  assumes "readable env" and "loaded ids inst s"
  shows "\<exists>s'. add_all env pkgs s = Some s' \<and> loaded ids inst s' \<and> same_flags s s'"
  using assms(2)
proof (induction pkgs arbitrary: s)
  case (Cons pkg pkgs)
  obtain b s' where s': "add_hide_set env pkg pkg s = Some (b, s')" "frame s s'" "loaded ids inst s'"
    using add_hide_set_tabled [OF assms(1) loaded_tabled [OF Cons.prems], of pkg pkg] Cons.prems by blast
  from Cons.IH [OF s'(3)] obtain s2 where "add_all env pkgs s' = Some s2" "loaded ids inst s2" "same_flags s' s2" by blast
  then show ?case using s'(1) frame_fields(2) [OF s'(2)] by (simp add: same_flags_def)
qed (simp add: same_flags_def)

lemma rescan_apps_loaded:
  assumes "agrees ids inst env" and "tabled s" and "app_id_to_pkgs s \<noteq> None"
  shows "\<exists>s'. rescan_apps env db s = Some s' \<and> loaded ids inst s' \<and> same_flags s s'"
proof -
  obtain us where us: "readable env" "user_dirs env = Some us" "\<forall>u\<in>set us. user_ok ids inst env (fst u)"
    using agreesE [OF assms(1)] by metis
  let ?mgr = "if su_manager env db = [] then app_package env else su_manager env db"
  obtain s1 where s1: "(if sulist_enabled s then do { (_, s') \<leftarrow> add_hide_set env ?mgr ?mgr s; Some s' } else Some s) = Some s1"
      "tabled s1" "app_id_to_pkgs s1 = app_id_to_pkgs s" "same_flags s s1"
  proof (cases "sulist_enabled s")
    case True
    obtain b s' where "add_hide_set env ?mgr ?mgr s = Some (b, s')" "tabled s'" "frame s s'"
      using add_hide_set_tabled [OF us(1) assms(2)] by blast
    then show thesis using that [of s'] True frame_fields(1,2) by simp
  qed (use that [of s] assms(2) in \<open>simp add: same_flags_def\<close>)
  obtain m where m: "pkg_to_procs s1 = Some m" "table_ok m" using s1(2) by (auto simp: tabled_def)
  obtain a where a: "scan_users env m us [] = Some a" "live ids inst m a"
    using scan_users_live [OF us(3) live_Nil] by blast
  have "rescan_apps env db s = Some (s1\<lparr>app_id_to_pkgs := Some a\<rparr>)"
    unfolding rescan_apps_def Let_def s1(1) bind.bind_lunit m(1) us(2) using s1(3) assms(3) a(1) by auto
  moreover have "loaded ids inst (s1\<lparr>app_id_to_pkgs := Some a\<rparr>)"
    using s1(2) m a(2) by (simp add: loaded_def tabled_def)
  ultimately show ?thesis using s1(4) by (auto simp: same_flags_def)
qed

lemma ensure_data_inv:
  assumes "agrees ids inst env" and "deny_inv ids inst s"
  shows "\<exists>ok s'. ensure_data env db s = Some (ok, s') \<and> same_flags s s' \<and>
    (if ok then loaded ids inst s' else deny_inv ids inst s')"
proof (cases "pkg_to_procs s = None")
  case False
  then have "loaded ids inst s" using assms(2) by (auto simp: deny_inv_def)
  then show ?thesis using False by (auto simp: ensure_data_def same_flags_def)
next
  case True
  then have e: "\<not> denylist_enforced s" using assms(2) by (auto simp: deny_inv_def loaded_def)
  have r: "readable env" using assms(1) by (simp add: agrees_def)
  obtain rows err where q: "db_rows env (''SELECT * FROM '' @ table_name s) db = (rows, err)" by fastforce
  have "tabled (s\<lparr>pkg_to_procs := Some []\<rparr>)" using e by (simp add: tabled_def table_ok_def map_wf_def)
  from load_rows_tabled [OF r this] obtain s1 where
    s1: "load_rows env rows (s\<lparr>pkg_to_procs := Some []\<rparr>) = Some s1" "tabled s1" "same_flags s s1"
    by (auto simp: same_flags_def)
  show ?thesis
  proof (cases err)
    case True
    then show ?thesis using \<open>pkg_to_procs s = None\<close> q s1 e
      by (auto simp: ensure_data_def clear_data_def deny_inv_def same_flags_def)
  next
    case False
    have "tabled (s1\<lparr>app_id_to_pkgs := Some []\<rparr>)" using s1(2) by (simp add: tabled_def)
    from rescan_apps_loaded [OF assms(1) this] obtain s2 where
      "rescan_apps env db (s1\<lparr>app_id_to_pkgs := Some []\<rparr>) = Some s2" "loaded ids inst s2" "same_flags s1 s2"
      by (auto simp: same_flags_def)
    then show ?thesis using False \<open>pkg_to_procs s = None\<close> q s1 by (auto simp: ensure_data_def same_flags_def)
  qed
qed

lemma add_view_loaded:
  assumes "agrees ids inst env" and "loaded ids inst s" and "\<And>m. pkg_to_procs s = Some m \<Longrightarrow> map_of m pkg \<noteq> None"
  shows "\<exists>s'. update_pkg_uid env pkg False s = Some s' \<and> loaded ids inst s' \<and> same_flags s s' \<and> pkg_to_procs s' = pkg_to_procs s \<and>
    skip_pkg_rescan s' = skip_pkg_rescan s \<and> (pkg \<in> inst \<longrightarrow> (\<exists>a. app_id_to_pkgs s' = Some a \<and> viewed a (ids pkg) pkg))"
proof -
  obtain us where us: "user_dirs env = Some us" "\<And>pkg. app_id_of env us pkg = (if pkg \<in> inst then Some (ids pkg) else None)"
    using agreesE [OF assms(1)] by metis
  obtain m a where s: "pkg_to_procs s = Some m" "table_ok m" "app_id_to_pkgs s = Some a" "live ids inst m a"
      "denylist_enforced s \<longrightarrow> procfp s"
    using assms(2) by (auto simp: loaded_def)
  show ?thesis
  proof (cases "pkg \<in> inst")
    case True
    obtain a' where "add_view (ids pkg) pkg a = Some a'" "live ids inst m a'" "viewed a' (ids pkg) pkg"
      using add_view_live [OF s(4) assms(3) [OF s(1)] True] by blast
    then show ?thesis using s us True by (simp add: update_pkg_uid_def loaded_def same_flags_def)
  next
    case False
    then show ?thesis using us assms(2) by (simp add: update_pkg_uid_def same_flags_def)
  qed
qed

lemma rm_pkg_loaded:
  assumes "agrees ids inst env" and "loaded ids inst s"
  shows "\<exists>s'. rm_pkg env pkg s = Some s' \<and> loaded ids inst s' \<and> same_flags s s' \<and>
    pkg_to_procs s' = map_option (map_del pkg) (pkg_to_procs s)"
proof -
  obtain us where us: "user_dirs env = Some us" "\<And>pkg. app_id_of env us pkg = (if pkg \<in> inst then Some (ids pkg) else None)"
    using agreesE [OF assms(1)] by metis
  obtain m a where s: "pkg_to_procs s = Some m" "table_ok m" "app_id_to_pkgs s = Some a" "live ids inst m a"
      "denylist_enforced s \<longrightarrow> procfp s"
    using assms(2) by (auto simp: loaded_def)
  have w: "map_wf m" using s(2) by (simp add: table_ok_def)
  obtain a' where a': "update_pkg_uid env pkg True s = Some (s\<lparr>app_id_to_pkgs := Some a'\<rparr>)" "live ids inst m a'"
      "\<And>j ps. map_of a' j = Some (Some ps) \<Longrightarrow> pkg \<notin> set ps"
  proof (cases "pkg \<in> inst")
    case True
    obtain a' where "remove_view (ids pkg) pkg a = Some a'" "live ids inst m a'"
        "\<forall>j ps. map_of a' j = Some (Some ps) \<longrightarrow> pkg \<notin> set ps"
      using remove_view_live [OF s(4), of "ids pkg" pkg] by blast
    then show thesis using that [of a'] s us True by (simp add: update_pkg_uid_def)
  next
    case False
    have "pkg \<notin> set ps" if "map_of a j = Some (Some ps)" for j ps using live_get [OF s(4) that] False by auto
    then show thesis using that [of a] s us False by (simp add: update_pkg_uid_def)
  qed
  have "live ids inst (map_del pkg m) (dangle pkg a')" by (rule dangle_live [OF a'(2,3) w])
  then show ?thesis using a'(1) s by (simp add: rm_pkg_def erase_pkg_def loaded_def same_flags_def table_ok_del)
qed


section \<open>Every command has a result\<close>

lemma loaded_inv: "loaded ids inst s \<Longrightarrow> deny_inv ids inst s"
  by (simp add: deny_inv_def)

lemma add_list_inv:
  assumes "agrees ids inst env" and "deny_inv ids inst s"
  shows "\<exists>r s' db'. add_list env pkg proc0 s db = Some (r, s', db') \<and> deny_inv ids inst s'"
proof -
  define proc where "proc = (if proc0 = [] then pkg else proc0)"
  have r: "readable env" using assms(1) by (simp add: agrees_def)
  obtain ok s1 where e: "ensure_data env db s = Some (ok, s1)" "if ok then loaded ids inst s1 else deny_inv ids inst s1"
    using ensure_data_inv [OF assms] by blast
  show ?thesis
  proof (cases "validate pkg proc \<and> ok")
    case False
    then show ?thesis using e assms(2) by (auto simp: add_list_def proc_def [symmetric])
  next
    case True
    then have l: "loaded ids inst s1" using e(2) by simp
    obtain b s2 where b: "add_hide_set env pkg proc s1 = Some (b, s2)" "loaded ids inst s2"
      using add_hide_set_tabled [OF r loaded_tabled [OF l]] l by blast
    have "map_of m pkg \<noteq> None" if "pkg_to_procs s2 = Some m" for m
    proof -
      obtain m1 where m1: "pkg_to_procs s1 = Some m1" "map_wf m1" "denylist_enforced s1 \<longrightarrow> procfp s1"
        using l by (auto simp: loaded_def table_ok_def)
      then have "pkg_to_procs s2 = Some (map_put pkg (set_put proc (procs_of m1 pkg)) m1)"
        using add_hide_set_works [OF r m1(3,1), of pkg proc] b(1) by auto
      then show ?thesis using that by (auto simp: map_of_put [OF m1(2)])
    qed
    then obtain s3 where "update_pkg_uid env pkg False s2 = Some s3" "loaded ids inst s3"
      using add_view_loaded [OF assms(1) b(2)] by blast
    then show ?thesis using True e(1) b
      by (cases b) (auto simp: add_list_def proc_def [symmetric] run_sql_def loaded_inv split: prod.splits)
  qed
qed

lemma map_del_put_eq: "map_del k (map_put k v m) = map_del k (map_put k w m)"
  by (induction k v m rule: map_put.induct) auto

lemma rm_proc_loaded:
  assumes "agrees ids inst env" and "loaded ids inst s" and "pkg_to_procs s = Some m" and "map_of m pkg = Some ps"
  shows "\<exists>s'. rm_proc env pkg (set_del proc ps) s = Some s' \<and> loaded ids inst s' \<and>
    pkg_to_procs s' = Some (if set_del proc ps = [] then map_del pkg (map_put pkg ps m) else map_put pkg (set_del proc ps) m)"
proof -
  obtain a where s: "table_ok m" "app_id_to_pkgs s = Some a" "live ids inst m a" "denylist_enforced s \<longrightarrow> procfp s"
    using assms(2,3) by (auto simp: loaded_def)
  have w: "map_wf m" and "ascending ps" using s(1) assms(4) by (auto simp: table_ok_def)
  then have asc: "ascending (set_del proc ps)" by (intro ascending_set_del)
  let ?s = "\<lambda>qs. s\<lparr>pkg_to_procs := Some (map_put pkg qs m)\<rparr>"
  have live: "live ids inst (map_put pkg qs m) a" for qs by (rule live_mono [OF s(3)]) (simp add: map_of_put [OF w])
  show ?thesis
  proof (cases "set_del proc ps = []")
    case False
    then have "loaded ids inst (?s (set_del proc ps))"
      using s(2,4) live table_ok_put [OF s(1) asc] by (simp add: loaded_def)
    then show ?thesis using False assms(3) by (simp add: rm_proc_def)
  next
    case True
    have del: "map_del pkg (map_put pkg [] m) = map_del pkg (map_put pkg ps m)" by (rule map_del_put_eq)
    have "loaded ids inst (?s ps)" using s(2,4) live table_ok_put [OF s(1), of ps pkg] assms(4) s(1)
      by (auto simp: loaded_def table_ok_def)
    from rm_pkg_loaded [OF assms(1) this, of pkg] obtain s' where
      "rm_pkg env pkg (?s ps) = Some s'" "loaded ids inst s'" "pkg_to_procs s' = Some (map_del pkg (map_put pkg ps m))" by auto
    moreover have "rm_pkg env pkg (?s []) = rm_pkg env pkg (?s ps)"
      by (auto simp: rm_pkg_def update_pkg_uid_def erase_pkg_def del split: option.splits bind_splits)
    ultimately show ?thesis using True assms(3) by (simp add: rm_proc_def)
  qed
qed

lemma rm_list_inv:
  assumes "agrees ids inst env" and "deny_inv ids inst s"
  shows "\<exists>r s' db'. rm_list env pkg proc s db = Some (r, s', db') \<and> deny_inv ids inst s'"
proof -
  obtain ok s1 where e: "ensure_data env db s = Some (ok, s1)" "if ok then loaded ids inst s1 else deny_inv ids inst s1"
    using ensure_data_inv [OF assms] by blast
  show ?thesis
  proof (cases ok)
    case False
    then show ?thesis using e by (simp add: rm_list_def)
  next
    case True
    then have l: "loaded ids inst s1" using e(2) by simp
    obtain m where m: "pkg_to_procs s1 = Some m" using l by (auto simp: loaded_def)
    obtain s2 where s2: "rm_pkg env pkg s1 = Some s2" "loaded ids inst s2" using rm_pkg_loaded [OF assms(1) l] by blast
    show ?thesis
    proof (cases "map_of m pkg")
      case None
      then show ?thesis using True e(1) m l by (simp add: rm_list_def loaded_inv)
    next
      case (Some ps)
      obtain s3 where "rm_proc env pkg (set_del proc ps) s1 = Some s3" "loaded ids inst s3"
        using rm_proc_loaded [OF assms(1) l m Some] by blast
      then show ?thesis using True e(1) m l s2 Some
        by (auto simp: rm_list_def run_sql_def loaded_inv split: prod.splits)
    qed
  qed
qed

lemma map_wf_mem: "map_wf m \<Longrightarrow> (k, v) \<in> set m \<Longrightarrow> map_of m k = Some v"
  unfolding map_wf_def by (rule map_of_is_SomeI) (auto simp: strict_sorted_iff)

lemma starts_any_defined: "None \<notin> snd ` set a \<Longrightarrow> starts_any proc a \<noteq> None"
proof (induction a)
  case (Cons e a)
  then obtain i ps where "e = (i, Some ps)" by (cases e; cases "snd e") auto
  then show ?case using Cons by auto
qed simp

lemma unused_isolated_works:
  assumes "None \<notin> snd ` set a"
  shows "\<exists>r. unused_isolated a procs = Some r \<and> ascending r \<and> set r \<subseteq> set procs"
proof (induction procs)
  case (Cons proc procs)
  obtain u where u: "starts_any proc a = Some u" using starts_any_defined [OF assms, of proc] by auto
  then show ?case using Cons ascending_set_put by (cases u) auto
qed simp

lemma stale_entries_works:
  assumes "map_wf m" and "None \<notin> snd ` set a"
  shows "\<exists>pkgs iso. stale_entries env (Some a) m = Some (pkgs, iso) \<and> ISOLATED_MAGIC \<notin> set pkgs \<and> ascending iso \<and>
    set iso \<subseteq> set (procs_of m ISOLATED_MAGIC)"
  using assms(1)
proof (induction m)
  case (Cons e m)
  obtain pkg procs where e: "e = (pkg, procs)" by fastforce
  have w: "map_wf m" using Cons.prems by (simp add: map_wf_def)
  from Cons.IH [OF w] obtain pkgs iso where st: "stale_entries env (Some a) m = Some (pkgs, iso)"
    "ISOLATED_MAGIC \<notin> set pkgs" "ascending iso" "set iso \<subseteq> set (procs_of m ISOLATED_MAGIC)" by blast
  show ?case
  proof (cases "pkg = ISOLATED_MAGIC")
    case True
    then have "map_of m ISOLATED_MAGIC = None" using map_of_above [of pkg procs m] Cons.prems e by simp
    then have "iso = []" using st(4) by (simp add: procs_of_def)
    moreover obtain r where "(if procs = [] then Some [] else unused_isolated a procs) = Some r" "ascending r" "set r \<subseteq> set procs"
      using unused_isolated_works [OF assms(2), of procs] by (cases "procs = []") auto
    ultimately show ?thesis using st e True by (auto simp: procs_of_def)
  next
    case False
    then show ?thesis using st e by (auto simp: procs_of_def)
  qed
qed (simp add: procs_of_def)

lemma live_views:
  assumes "live ids inst m a"
  shows "None \<notin> snd ` set a"
proof
  assume "None \<in> snd ` set a"
  then obtain i where "(i, None) \<in> set a" by force
  then have "map_of a i = Some None" using assms by (intro map_wf_mem) (simp_all add: live_def)
  then show False using live_get [OF assms] by blast
qed

lemma rm_stale_pkgs_loaded:
  assumes "agrees ids inst env" and "loaded ids inst s" and "ISOLATED_MAGIC \<notin> set pkgs"
  shows "\<exists>s' db'. rm_stale_pkgs env pkgs s db = Some (s', db') \<and> loaded ids inst s' \<and>
    (\<exists>m m'. pkg_to_procs s = Some m \<and> pkg_to_procs s' = Some m' \<and> map_of m' ISOLATED_MAGIC = map_of m ISOLATED_MAGIC)"
  using assms(2,3)
proof (induction pkgs arbitrary: s db)
  case Nil
  then show ?case by (auto simp: loaded_def)
next
  case (Cons pkg pkgs)
  obtain m where m: "pkg_to_procs s = Some m" "map_wf m" using Cons.prems(1) by (auto simp: loaded_def table_ok_def)
  obtain s1 m1 where s1: "(if map_of m pkg = None then Some s else rm_pkg env pkg s) = Some s1" "loaded ids inst s1"
      "pkg_to_procs s1 = Some m1" "map_of m1 ISOLATED_MAGIC = map_of m ISOLATED_MAGIC"
  proof (cases "map_of m pkg = None")
    case True
    then show thesis using that [of s m] m Cons.prems by simp
  next
    case False
    from rm_pkg_loaded [OF assms(1) Cons.prems(1), of pkg] obtain s1 where
      "rm_pkg env pkg s = Some s1" "loaded ids inst s1" "pkg_to_procs s1 = Some (map_del pkg m)" using m(1) by auto
    then show thesis using that [of s1 "map_del pkg m"] False Cons.prems(2) by (auto simp: map_of_del [OF m(2)])
  qed
  from Cons.IH [OF s1(2)] Cons.prems(2) s1(3) obtain s2 db2 m2 where
    "rm_stale_pkgs env pkgs s1 (snd (db_exec env (sql_delete_pkg (table_name s1) pkg) db)) = Some (s2, db2)"
    "loaded ids inst s2" "pkg_to_procs s2 = Some m2" "map_of m2 ISOLATED_MAGIC = map_of m1 ISOLATED_MAGIC" by fastforce
  then show ?case using m(1) s1 by simp
qed

lemma erase_isolated_loaded:
  assumes "loaded ids inst s" and "ISOLATED_MAGIC \<notin> inst"
  shows "\<exists>s'. erase_pkg ISOLATED_MAGIC s = Some s' \<and> loaded ids inst s'"
proof -
  obtain m a where s: "pkg_to_procs s = Some m" "table_ok m" "app_id_to_pkgs s = Some a" "live ids inst m a"
      "denylist_enforced s \<longrightarrow> procfp s"
    using assms(1) by (auto simp: loaded_def)
  have "ISOLATED_MAGIC \<notin> set ps" if "map_of a j = Some (Some ps)" for j ps using live_get [OF s(4) that] assms(2) by auto
  then have "live ids inst (map_del ISOLATED_MAGIC m) (dangle ISOLATED_MAGIC a)"
    using s(2) by (intro dangle_live [OF s(4)]) (auto simp: table_ok_def)
  then show ?thesis using s by (simp add: erase_pkg_def loaded_def table_ok_del)
qed

lemma rm_stale_procs_loaded:
  assumes "ISOLATED_MAGIC \<notin> inst" and "loaded ids inst s" and "ascending procs" and "pkg_to_procs s = Some m"
    and "set procs \<subseteq> set (procs_of m ISOLATED_MAGIC)"
  shows "\<exists>s' db'. rm_stale_procs env procs s db = Some (s', db') \<and> loaded ids inst s'"
  using assms(2-)
proof (induction procs arbitrary: s db m)
  case (Cons proc procs)
  obtain a where s: "table_ok m" "app_id_to_pkgs s = Some a" "live ids inst m a" "denylist_enforced s \<longrightarrow> procfp s"
    using Cons.prems(1,3) by (auto simp: loaded_def)
  obtain ps where ps: "map_of m ISOLATED_MAGIC = Some ps" "proc \<in> set ps" "set procs \<subseteq> set ps"
    using Cons.prems(4) by (cases "map_of m ISOLATED_MAGIC") (auto simp: procs_of_def)
  have w: "map_wf m" and asc: "ascending ps" using s(1) ps(1) by (auto simp: table_ok_def)
  have sub: "set procs \<subseteq> set (set_del proc ps)" using Cons.prems(2) ps(3) set_set_del [OF asc, of proc] by auto
  show ?case
  proof (cases "set_del proc ps = []")
    case True
    then have "procs = []" using sub by simp
    then show ?thesis using erase_isolated_loaded [OF Cons.prems(1) assms(1)] True ps Cons.prems(3) by auto
  next
    case False
    let ?s = "s\<lparr>pkg_to_procs := Some (map_put ISOLATED_MAGIC (set_del proc ps) m)\<rparr>"
    have "live ids inst (map_put ISOLATED_MAGIC (set_del proc ps) m) a" by (rule live_mono [OF s(3)]) (simp add: map_of_put [OF w])
    then have "loaded ids inst ?s"
      using s table_ok_put [OF s(1) ascending_set_del [OF asc] False] by (simp add: loaded_def)
    moreover have "set procs \<subseteq> set (procs_of (map_put ISOLATED_MAGIC (set_del proc ps) m) ISOLATED_MAGIC)"
      using sub by (simp add: procs_of_def map_of_put [OF w])
    ultimately obtain s2 db2 where
      "rm_stale_procs env procs ?s (snd (db_exec env (sql_delete (table_name ?s) ISOLATED_MAGIC proc) db)) = Some (s2, db2)"
      "loaded ids inst s2"
      using Cons.IH [of ?s "map_put ISOLATED_MAGIC (set_del proc ps) m"] Cons.prems(2) by fastforce
    then show ?thesis using ps(1) False Cons.prems(3) by (simp add: Let_def)
  qed
qed simp

lemma ls_list_inv:
  assumes "agrees ids inst env" and "deny_inv ids inst s"
  shows "\<exists>r s' db'. ls_list env s db = Some (r, s', db') \<and> deny_inv ids inst s'"
proof -
  have i: "ISOLATED_MAGIC \<notin> inst" using assms(1) by (simp add: agrees_def)
  obtain ok s1 where e: "ensure_data env db s = Some (ok, s1)" "if ok then loaded ids inst s1 else deny_inv ids inst s1"
    using ensure_data_inv [OF assms] by blast
  show ?thesis
  proof (cases ok)
    case False
    then show ?thesis using e by (auto simp: ls_list_def)
  next
    case True
    then have l: "loaded ids inst s1" using e(2) by simp
    obtain m a where s1: "pkg_to_procs s1 = Some m" "map_wf m" "app_id_to_pkgs s1 = Some a" "live ids inst m a"
      using l by (auto simp: loaded_def table_ok_def)
    obtain pkgs iso where st: "stale_entries env (Some a) m = Some (pkgs, iso)" "ISOLATED_MAGIC \<notin> set pkgs"
        "ascending iso" "set iso \<subseteq> set (procs_of m ISOLATED_MAGIC)"
      using stale_entries_works [OF s1(2) live_views [OF s1(4)], of env] by blast
    obtain s2 db2 m2 where s2: "rm_stale_pkgs env pkgs s1 db = Some (s2, db2)" "loaded ids inst s2"
        "pkg_to_procs s2 = Some m2" "map_of m2 ISOLATED_MAGIC = map_of m ISOLATED_MAGIC"
      using rm_stale_pkgs_loaded [OF assms(1) l st(2)] s1(1) by fastforce
    obtain s3 db3 where s3: "(if map_of m2 ISOLATED_MAGIC = None then Some (s2, db2) else rm_stale_procs env iso s2 db2) = Some (s3, db3)"
        "loaded ids inst s3"
    proof (cases "map_of m2 ISOLATED_MAGIC = None")
      case False
      have "set iso \<subseteq> set (procs_of m2 ISOLATED_MAGIC)" using st(4) by (simp add: procs_of_def s2(4))
      then show thesis using rm_stale_procs_loaded [OF i s2(2) st(3) s2(3), of env db2] False that by auto
    qed (use that [of s2 db2] s2(2) in simp)
    obtain m3 where "pkg_to_procs s3 = Some m3" using s3(2) by (auto simp: loaded_def)
    moreover have "rm_stale env s1 db = Some (s3, db3)" using s1 st(1) s2 s3(1) by (simp add: rm_stale_def)
    ultimately show ?thesis using True e(1) s3(2) by (auto simp: ls_list_def loaded_inv)
  qed
qed


lemma kill_loaded:
  assumes "readable env" and "loaded ids inst s" and "procfp s"
  shows "\<exists>s'. kill_process env matcher multi s = Some s' \<and> loaded ids inst s' \<and> same_flags s s'"
proof -
  obtain fx where "kill_process env matcher multi s = Some (s\<lparr>effects := effects s @ fx\<rparr>)"
    unfolding kill_process_def using crawl_procfs_frame [OF assms(1,3)] by blast
  then show ?thesis using assms(2) by (simp add: loaded_def same_flags_def)
qed

lemma kill_pools_loaded:
  assumes "readable env" and "loaded ids inst s" and "procfp s"
  shows "\<exists>s'. kill_pools env s = Some s' \<and> loaded ids inst s' \<and> same_flags s s'"
proof -
  obtain s1 where 1: "kill_process env (proc_name_match (=) ''usap32'') True s = Some s1" "loaded ids inst s1" "same_flags s s1"
    using kill_loaded [OF assms] by blast
  have "procfp s1" using 1(3) assms(3) by (simp add: same_flags_def)
  then obtain s2 where 2: "kill_process env (proc_name_match (=) ''usap64'') True s1 = Some s2" "loaded ids inst s2" "same_flags s1 s2"
    using kill_loaded [OF assms(1) 1(2)] by blast
  have "procfp s2" using 2(3) \<open>procfp s1\<close> by (simp add: same_flags_def)
  then obtain s3 where "kill_process env (proc_context_match ''u:r:app_zygote:s0'') True s2 = Some s3" "loaded ids inst s3" "same_flags s2 s3"
    using kill_loaded [OF assms(1) 2(2)] by blast
  then show ?thesis using 1 2 unfolding kill_pools_def same_flags_def by simp
qed

lemma enable_deny_inv:
  assumes "agrees ids inst env" and "deny_inv ids inst s"
  shows "\<exists>r s' db'. enable_deny env s db = Some (r, s', db') \<and> deny_inv ids inst s'"
proof (cases "denylist_enforced s \<or> \<not> has_mnt_ns env \<or> \<not> procfp s \<and> \<not> proc_opens env")
  case True
  then show ?thesis using assms(2) by (auto simp: enable_deny_def deny_inv_def loaded_def)
next
  case False
  have r: "readable env" using assms(1) by (simp add: agrees_def)
  have "deny_inv ids inst (s\<lparr>procfp := True\<rparr>)" using assms(2) by (auto simp: deny_inv_def loaded_def)
  from ensure_data_inv [OF assms(1) this] obtain ok s1 where e: "ensure_data env db (s\<lparr>procfp := True\<rparr>) = Some (ok, s1)"
    "if ok then loaded ids inst s1 else deny_inv ids inst s1" "procfp s1" by (fastforce simp: same_flags_def)
  show ?thesis
  proof (cases "ok \<and> \<not> thread_fails env")
    case F: False
    then show ?thesis using e False by (auto simp: enable_deny_def deny_inv_def loaded_def)
  next
    case True
    let ?s2 = "s1\<lparr>denylist_enforced := True, effects := effects s1 @ [Start_monitor]\<rparr>"
    have l2: "loaded ids inst ?s2" "procfp ?s2" using e True by (auto simp: loaded_def)
    obtain s3 where s3: "(if sulist_enabled ?s2
        then add_all env [''com.android.systemui'', ''com.android.settings'', app_package env] ?s2 else Some ?s2) = Some s3"
      "loaded ids inst s3" "procfp s3"
    proof (cases "sulist_enabled ?s2")
      case True
      obtain s3 where "add_all env [''com.android.systemui'', ''com.android.settings'', app_package env] ?s2 = Some s3"
        "loaded ids inst s3" "same_flags ?s2 s3" using add_all_loaded [OF r l2(1)] by blast
      then show thesis using that [of s3] True l2(2) unfolding same_flags_def by metis
    qed (use that [of ?s2] l2 in simp)
    obtain s4 where s4: "(if sdk_int env \<ge> 29 then kill_pools env s3 else Some s3) = Some s4" "loaded ids inst s4"
      using kill_pools_loaded [OF r s3(2,3)] s3(2) by (cases "sdk_int env \<ge> 29") auto
    have "enable_deny env s db = Some (D_OK, s4, update_deny_config env s4 db)"
      unfolding enable_deny_def using False True e(1) s3(1) s4(1) by (simp del: add_all.simps)
    then show ?thesis using s4(2) loaded_inv by blast
  qed
qed

lemma disable_deny_inv: "deny_inv ids inst s \<Longrightarrow> deny_inv ids inst (fst (snd (disable_deny env s db)))"
  by (auto simp: disable_deny_def deny_inv_def loaded_def Let_def)

lemma initialize_denylist_inv:
  assumes "agrees ids inst env" and "deny_inv ids inst s"
  shows "\<exists>s' db'. initialize_denylist env s db = Some (s', db') \<and> deny_inv ids inst s'"
proof (cases "denylist_enforced s \<or> db_setting env DENYLIST_KEY db = 0")
  case True
  then show ?thesis using assms(2) by (auto simp: initialize_denylist_def)
next
  case False
  let ?s = "if db_setting env SULIST_KEY db \<noteq> 0 then s\<lparr>sulist_enabled := True, table_name := ''sulist''\<rparr> else s"
  have "deny_inv ids inst ?s" using assms(2) by (auto simp: deny_inv_def loaded_def)
  from enable_deny_inv [OF assms(1) this, of db] obtain r s' db' where
    "enable_deny env ?s db = Some (r, s', db')" "deny_inv ids inst s'" by blast
  then show ?thesis using False unfolding initialize_denylist_def Let_def by auto
qed

lemma any_counts_defined: "\<forall>p\<in>set pkgs. map_of m p \<noteq> None \<Longrightarrow> any_counts m pkgs process \<noteq> None"
  by (induction pkgs) auto

lemma any_procs_defined: "\<forall>p\<in>set pkgs. map_of m p \<noteq> None \<Longrightarrow> any_procs m pkgs \<noteq> None"
  by (induction pkgs) auto

lemma list_target_defined:
  assumes "loaded ids inst s"
  shows "list_target app_id process max_len s \<noteq> None"
proof -
  obtain m a where s: "pkg_to_procs s = Some m" "app_id_to_pkgs s = Some a" "live ids inst m a"
    using assms by (auto simp: loaded_def)
  show ?thesis
  proof (cases "map_of a app_id")
    case (Some v)
    from live_get [OF s(3) this] obtain ps where ps: "v = Some ps" "\<forall>p\<in>set ps. map_of m p \<noteq> None" by blast
    then obtain b where "any_counts m ps process = Some b" using any_counts_defined [of ps m process] by auto
    then show ?thesis using s Some ps(1) by (simp add: list_target_def)
  qed (use s in \<open>auto simp: list_target_def\<close>)
qed

lemma is_uid_on_list_defined:
  assumes "loaded ids inst s"
  shows "is_uid_on_list uid s \<noteq> None"
proof -
  obtain m a where s: "pkg_to_procs s = Some m" "app_id_to_pkgs s = Some a" "live ids inst m a"
    using assms by (auto simp: loaded_def)
  show ?thesis
  proof (cases "map_of a (to_app_id uid)")
    case (Some v)
    from live_get [OF s(3) this] obtain ps where ps: "v = Some ps" "\<forall>p\<in>set ps. map_of m p \<noteq> None" by blast
    then obtain b where "any_procs m ps = Some b" using any_procs_defined [of ps m] by auto
    then show ?thesis using s Some ps(1) by (simp add: is_uid_on_list_def)
  qed (use s in \<open>simp add: is_uid_on_list_def\<close>)
qed

lemma is_deny_target_inv:
  assumes "agrees ids inst env" and "deny_inv ids inst s"
  shows "\<exists>r s'. is_deny_target env rust uid process max_len s db = Some (r, s') \<and> deny_inv ids inst s'"
proof -
  obtain ok s1 where e: "ensure_data env db s = Some (ok, s1)" "if ok then loaded ids inst s1 else deny_inv ids inst s1"
    using ensure_data_inv [OF assms] by blast
  show ?thesis
  proof (cases ok)
    case False
    then show ?thesis using e by (auto simp: is_deny_target_def)
  next
    case True
    then have l: "loaded ids inst s1" using e(2) by simp
    then have "tabled (s1\<lparr>skip_pkg_rescan := True\<rparr>)" "app_id_to_pkgs (s1\<lparr>skip_pkg_rescan := True\<rparr>) \<noteq> None"
      by (auto simp: loaded_def tabled_def)
    from rescan_apps_loaded [OF assms(1) this] obtain s2 where
      s2: "rescan_apps env db (s1\<lparr>skip_pkg_rescan := True\<rparr>) = Some s2" "loaded ids inst s2" by blast
    obtain r r2 where "list_target (to_app_id uid) process max_len s1 = Some r"
      "list_target (to_app_id uid) process max_len s2 = Some r2"
      using list_target_defined [OF l, of "to_app_id uid" process max_len]
        list_target_defined [OF s2(2), of "to_app_id uid" process max_len] by auto
    then show ?thesis using True e(1) l s2 by (auto simp: is_deny_target_def loaded_inv)
  qed
qed

section \<open>Runs of commands\<close>

text \<open>A command with the environment it finds. The two of the monitor happen while it runs.\<close>

datatype deny_cmd =
  Init | Enforce | Disable | Add_item string string | Rm_item string string | Ls | Is_target int string int
| Monitor_rescan | Monitor_uid int

definition deny_start :: deny where
  "deny_start = \<lparr>table_name = ''hidelist'', pkg_to_procs = None, app_id_to_pkgs = None, denylist_enforced = False,
     sulist_enabled = False, procfp = False, skip_pkg_rescan = False, effects = []\<rparr>"

definition deny_step ::
    "(int \<Rightarrow> bool \<Rightarrow> int \<times> string) \<Rightarrow> 'd deny_env \<times> deny_cmd \<Rightarrow> deny \<times> 'd \<Rightarrow> (deny \<times> 'd) option" where
  "deny_step rust = (\<lambda>(env, cmd) (s, db).
     case cmd of
       Init \<Rightarrow> initialize_denylist env s db
     | Enforce \<Rightarrow> map_option snd (enable_deny env s db)
     | Disable \<Rightarrow> Some (snd (disable_deny env s db))
     | Add_item pkg proc \<Rightarrow> map_option snd (add_list env pkg proc s db)
     | Rm_item pkg proc \<Rightarrow> map_option snd (rm_list env pkg proc s db)
     | Ls \<Rightarrow> map_option snd (ls_list env s db)
     | Is_target uid process max_len \<Rightarrow>
         map_option (\<lambda>(_, s'). (s', db)) (is_deny_target env rust uid process max_len s db)
     | Monitor_rescan \<Rightarrow>
         if denylist_enforced s then map_option (\<lambda>s'. (s', db)) (rescan_apps env db s) else Some (s, db)
     | Monitor_uid uid \<Rightarrow>
         if denylist_enforced s then map_option (\<lambda>_. (s, db)) (is_uid_on_list uid s) else Some (s, db))"

lemma deny_step_safe:
  assumes "deny_inv ids inst s" and "agrees ids inst env"
  shows "\<exists>s' db'. deny_step rust (env, cmd) (s, db) = Some (s', db') \<and> deny_inv ids inst s'"
proof (cases cmd)
  case Init
  then show ?thesis using initialize_denylist_inv [OF assms(2,1)] by (simp add: deny_step_def)
next
  case Enforce
  then show ?thesis using enable_deny_inv [OF assms(2,1), of db] by (auto simp: deny_step_def)
next
  case Disable
  then show ?thesis using disable_deny_inv [OF assms(1), of env db] by (cases "disable_deny env s db") (simp add: deny_step_def)
next
  case (Add_item pkg proc)
  then show ?thesis using add_list_inv [OF assms(2,1), of pkg proc db] by (auto simp: deny_step_def)
next
  case (Rm_item pkg proc)
  then show ?thesis using rm_list_inv [OF assms(2,1), of pkg proc db] by (auto simp: deny_step_def)
next
  case Ls
  obtain r s' db' where "ls_list env s db = Some (r, s', db')" "deny_inv ids inst s'"
    using ls_list_inv [OF assms(2,1)] by blast
  then show ?thesis using Ls by (simp add: deny_step_def)
next
  case (Is_target uid process max_len)
  obtain r s' where "is_deny_target env rust uid process max_len s db = Some (r, s')" "deny_inv ids inst s'"
    using is_deny_target_inv [OF assms(2,1)] by blast
  then show ?thesis using Is_target by (simp add: deny_step_def)
next
  case Monitor_rescan
  show ?thesis
  proof (cases "denylist_enforced s")
    case True
    then have l: "loaded ids inst s" using assms(1) by (simp add: deny_inv_def)
    then have "app_id_to_pkgs s \<noteq> None" by (auto simp: loaded_def)
    from rescan_apps_loaded [OF assms(2) loaded_tabled [OF l] this, of db] obtain s' where
      "rescan_apps env db s = Some s'" "loaded ids inst s'" by blast
    then show ?thesis using True Monitor_rescan by (simp add: deny_step_def loaded_inv)
  qed (use Monitor_rescan assms(1) in \<open>simp add: deny_step_def\<close>)
next
  case (Monitor_uid uid)
  show ?thesis
  proof (cases "denylist_enforced s")
    case True
    then have "loaded ids inst s" using assms(1) by (simp add: deny_inv_def)
    from is_uid_on_list_defined [OF this, of uid] show ?thesis using True Monitor_uid assms(1) by (auto simp: deny_step_def)
  qed (use Monitor_uid assms(1) in \<open>simp add: deny_step_def\<close>)
qed

interpretation deny_runs: safe_machine "deny_step rust" "\<lambda>ec. agrees ids inst (fst ec)" "\<lambda>sd. deny_inv ids inst (fst sd)"
  for rust ids inst
proof
  fix sd :: "deny \<times> 'a" and ec :: "'a deny_env \<times> deny_cmd"
  assume "deny_inv ids inst (fst sd)" and "agrees ids inst (fst ec)"
  then show "\<exists>s'. deny_step rust ec sd = Some s' \<and> deny_inv ids inst (fst s')"
    using deny_step_safe [of ids inst "fst sd" "fst ec" rust "snd ec" "snd sd"] by auto
qed


definition sample_apps :: "(string \<times> nat) list \<Rightarrow> unit deny_env" where
  "sample_apps files = \<lparr>app_package = ''io.app'', user_dirs = Some [(''0'', Some [''a.b''])],
     owner = map_of files, processes = [], su_manager = (\<lambda>_. []), db_setting = (\<lambda>_ _. 0), db_rows = (\<lambda>_ _. ([], False)),
     db_exec = (\<lambda>_ db. (False, db)), has_mnt_ns = True, proc_opens = True, thread_fails = False, sdk_int = 33\<rparr>"

lemma sample_agrees: "agrees (\<lambda>_. 10123) {''a.b''} (sample_apps [(''0/a.b'', 10123)])"
proof -
  have "length pkg < 4094" if "take 4093 pkg = ''a.b''" for pkg :: string
    using arg_cong [OF that, of length] by (simp split: if_splits)
  then show ?thesis
    by (auto simp: agrees_def readable_def sample_apps_def user_ok_def to_app_id_def ISOLATED_MAGIC_def split: if_splits)
qed



definition listed :: "deny \<Rightarrow> deny" where
  "listed s = s\<lparr>pkg_to_procs := Some [(''a.b'', [''a.b''])], app_id_to_pkgs := Some [(10123, Some [''a.b''])]\<rparr>"

lemma sample_ls:
  "map_option snd (ls_list (sample_apps []) (listed deny_start) ()) =
     Some (deny_start\<lparr>pkg_to_procs := Some [], app_id_to_pkgs := Some [(10123, None)]\<rparr>, ())"
proof -
  have "rm_stale (sample_apps []) (listed deny_start) () =
      Some (deny_start\<lparr>pkg_to_procs := Some [], app_id_to_pkgs := Some [(10123, None)]\<rparr>, ())" by code_simp
  moreover have "ensure_data (sample_apps []) () (listed deny_start) = Some (True, listed deny_start)" by code_simp
  ultimately show ?thesis by (simp add: ls_list_def)
qed


section \<open>The list as a set\<close>

definition hide_set :: "deny \<Rightarrow> (string \<times> string) set" where
  "hide_set s = {(pkg, proc). \<exists>m. pkg_to_procs s = Some m \<and> proc \<in> set (procs_of m pkg)}"

lemma procs_of_put: "map_wf m \<Longrightarrow> procs_of (map_put pkg ps m) q = (if q = pkg then ps else procs_of m q)"
  by (simp add: procs_of_def map_of_put)

lemma procs_of_del: "map_wf m \<Longrightarrow> procs_of (map_del pkg m) q = (if q = pkg then [] else procs_of m q)"
  by (simp add: procs_of_def map_of_del)

lemma ensure_loaded: "loaded ids inst s \<Longrightarrow> ensure_data env db s = Some (True, s)"
  by (auto simp: loaded_def ensure_data_def)

lemma run_sql_cases: "\<exists>r db'. run_sql env sql s db = (r, s, db') \<and> r \<in> {D_OK, D_ERROR}"
  by (cases "db_exec env sql db") (simp add: run_sql_def)

lemma add_list_set:
  assumes "agrees ids inst env" and "loaded ids inst s" and "validate pkg (if proc = [] then pkg else proc)"
  shows "\<exists>r s' db'. add_list env pkg proc s db = Some (r, s', db') \<and>
    hide_set s' = insert (pkg, if proc = [] then pkg else proc) (hide_set s) \<and>
    (r = D_ITEM_EXIST \<longleftrightarrow> (pkg, if proc = [] then pkg else proc) \<in> hide_set s) \<and> r \<in> {D_OK, D_ITEM_EXIST, D_ERROR} \<and>
    loaded ids inst s' \<and> skip_pkg_rescan s' = skip_pkg_rescan s \<and>
    (pkg \<in> inst \<and> r \<noteq> D_ITEM_EXIST \<longrightarrow> (\<exists>a. app_id_to_pkgs s' = Some a \<and> viewed a (ids pkg) pkg))"
proof -
  define proc' where "proc' = (if proc = [] then pkg else proc)"
  have rd: "readable env" using assms(1) by (simp add: agrees_def)
  obtain m where m: "pkg_to_procs s = Some m" "map_wf m" "denylist_enforced s \<longrightarrow> procfp s"
    using assms(2) by (auto simp: loaded_def table_ok_def)
  let ?m = "map_put pkg (set_put proc' (procs_of m pkg)) m"
  have "\<exists>b s'. add_hide_set env pkg proc' s = Some (b, s') \<and> loaded ids inst s'"
    using add_hide_set_tabled [OF rd loaded_tabled [OF assms(2)], of pkg proc'] assms(2) by blast
  then obtain s2 where s2: "add_hide_set env pkg proc' s = Some (proc' \<notin> set (procs_of m pkg), s2)" "loaded ids inst s2"
      "pkg_to_procs s2 = Some ?m" "frame s s2"
    using add_hide_set_works [OF rd m(3,1), of pkg proc'] by auto
  have "map_of m' pkg \<noteq> None" if "pkg_to_procs s2 = Some m'" for m' using that s2(3) by (auto simp: map_of_put [OF m(2)])
  then obtain s3 where s3: "update_pkg_uid env pkg False s2 = Some s3" "loaded ids inst s3" "pkg_to_procs s3 = Some ?m"
      "skip_pkg_rescan s3 = skip_pkg_rescan s2" "pkg \<in> inst \<longrightarrow> (\<exists>a. app_id_to_pkgs s3 = Some a \<and> viewed a (ids pkg) pkg)"
    using add_view_loaded [OF assms(1) s2(2), of pkg] s2(3) by fastforce
  have set: "hide_set t = insert (pkg, proc') (hide_set s)" if "pkg_to_procs t = Some ?m" for t
    unfolding hide_set_def using that m(1) by (auto simp: procs_of_put [OF m(2)] split: if_splits)
  have mem: "(pkg, proc') \<in> hide_set s \<longleftrightarrow> proc' \<in> set (procs_of m pkg)" by (simp add: hide_set_def m(1))
  have k: "skip_pkg_rescan s2 = skip_pkg_rescan s" by (rule frame_fields(5) [OF s2(4)])
  show ?thesis
  proof (cases "proc' \<in> set (procs_of m pkg)")
    case True
    then have "add_list env pkg proc s db = Some (D_ITEM_EXIST, s2, db)"
      using s2(1) assms(3) by (simp add: add_list_def proc'_def [symmetric] ensure_loaded [OF assms(2)])
    then show ?thesis unfolding proc'_def [symmetric] mem using True set [OF s2(3)] s2(2) k by simp
  next
    case False
    obtain r db' where r: "run_sql env (sql_insert (table_name s3) pkg proc') s3 db = (r, s3, db')" "r \<in> {D_OK, D_ERROR}"
      using run_sql_cases [of env "sql_insert (table_name s3) pkg proc'" s3 db] by auto
    have "add_list env pkg proc s db = Some (r, s3, db')"
      using s2(1) s3(1) r(1) assms(3) False by (simp add: add_list_def proc'_def [symmetric] ensure_loaded [OF assms(2)])
    then show ?thesis unfolding proc'_def [symmetric] mem using False set [OF s3(3)] s3(2,4,5) k r(2)
      by (intro exI [of _ r] exI [of _ s3] exI [of _ db']) auto
  qed
qed

lemma rm_list_set:
  assumes "agrees ids inst env" and "loaded ids inst s"
    and "X = (if proc = [] then {pkg} \<times> UNIV else {(pkg, proc)})"
  shows "\<exists>r s' db'. rm_list env pkg proc s db = Some (r, s', db') \<and> hide_set s' = hide_set s - X \<and>
    (r = D_ITEM_NOT_EXIST \<longleftrightarrow> X \<inter> hide_set s = {}) \<and> r \<in> {D_OK, D_ITEM_NOT_EXIST, D_ERROR}"
proof -
  obtain m where m: "pkg_to_procs s = Some m" "map_wf m" "table_ok m"
    using assms(2) by (auto simp: loaded_def table_ok_def)
  have in_set: "(q, p) \<in> hide_set s \<longleftrightarrow> p \<in> set (procs_of m q)" for q p by (simp add: hide_set_def m(1))
  show ?thesis
  proof (cases "map_of m pkg")
    case None
    then have "X \<inter> hide_set s = {}" using assms(3) by (auto simp: hide_set_def m(1) procs_of_def)
    moreover have "rm_list env pkg proc s db = Some (D_ITEM_NOT_EXIST, s, db)"
      using None m(1) by (simp add: rm_list_def ensure_loaded [OF assms(2)])
    ultimately show ?thesis by (intro exI [of _ D_ITEM_NOT_EXIST] exI [of _ s] exI [of _ db]) auto
  next
    case (Some ps)
    have ps: "ascending ps" "ps \<noteq> []" using m(3) Some by (auto simp: table_ok_def)
    have of: "procs_of m pkg = ps" by (simp add: procs_of_def Some)
    show ?thesis
    proof (cases "proc = []")
      case True
      obtain s' where s': "rm_pkg env pkg s = Some s'" "pkg_to_procs s' = Some (map_del pkg m)"
        using rm_pkg_loaded [OF assms(1,2), of pkg] m(1) by auto
      obtain r db' where r: "run_sql env (sql_delete_pkg (table_name s') pkg) s' db = (r, s', db')" "r \<in> {D_OK, D_ERROR}"
        using run_sql_cases [of env "sql_delete_pkg (table_name s') pkg" s' db] by auto
      have "(pkg, hd ps) \<in> hide_set s" using in_set of ps(2) by simp
      then have "X \<inter> hide_set s \<noteq> {}" using True assms(3) by auto
      moreover have "hide_set s' = hide_set s - X"
        using s'(2) True assms(3) by (auto simp: hide_set_def m(1) procs_of_del [OF m(2)] split: if_splits)
      moreover have "rm_list env pkg proc s db = Some (r, s', db')"
        using s'(1) True Some m(1) r(1) by (simp add: rm_list_def ensure_loaded [OF assms(2)])
      ultimately show ?thesis using r(2) by (intro exI [of _ r] exI [of _ s'] exI [of _ db']) auto
    next
      case False
      then have X: "X = {(pkg, proc)}" using assms(3) by simp
      have mem: "X \<inter> hide_set s = {} \<longleftrightarrow> proc \<notin> set ps" using X in_set of by simp
      show ?thesis
      proof (cases "proc \<in> set ps")
        case F: False
        then have "rm_list env pkg proc s db = Some (D_ITEM_NOT_EXIST, s, db)"
          using False Some m(1) by (simp add: rm_list_def ensure_loaded [OF assms(2)])
        then show ?thesis using mem F by (intro exI [of _ D_ITEM_NOT_EXIST] exI [of _ s] exI [of _ db]) auto
      next
        case True
        obtain s' where s': "rm_proc env pkg (set_del proc ps) s = Some s'"
            "pkg_to_procs s' = Some (if set_del proc ps = [] then map_del pkg (map_put pkg ps m) else map_put pkg (set_del proc ps) m)"
          using rm_proc_loaded [OF assms(1,2) m(1) Some] by blast
        have t: "\<exists>m'. pkg_to_procs s' = Some m' \<and> procs_of m' q = (if q = pkg then set_del proc ps else procs_of m q)" for q
          using s'(2) by (cases "set_del proc ps = []") (simp_all add: procs_of_put procs_of_del map_wf_put m(2))
        have "(q, p) \<in> hide_set s' \<longleftrightarrow> (q, p) \<in> hide_set s - X" for q p
        proof -
          obtain m' where m': "pkg_to_procs s' = Some m'" "procs_of m' q = (if q = pkg then set_del proc ps else procs_of m q)"
            using t [of q] by (elim exE conjE)
          have "(q, p) \<in> hide_set s' \<longleftrightarrow> p \<in> set (if q = pkg then set_del proc ps else procs_of m q)"
            by (simp add: hide_set_def m')
          then show ?thesis using in_set [of q p] of X set_set_del [OF ps(1), of proc] by (cases "q = pkg") simp_all
        qed
        then have h: "hide_set s' = hide_set s - X" by auto
        obtain r db' where r: "run_sql env (sql_delete (table_name s') pkg proc) s' db = (r, s', db')" "r \<in> {D_OK, D_ERROR}"
          using run_sql_cases [of env "sql_delete (table_name s') pkg proc" s' db] by auto
        have "rm_list env pkg proc s db = Some (r, s', db')"
          using s'(1) True False Some m(1) r(1) by (simp add: rm_list_def ensure_loaded [OF assms(2)])
        then show ?thesis using h r(2) mem True by (intro exI [of _ r] exI [of _ s'] exI [of _ db']) auto
      qed
    qed
  qed
qed

text \<open>C15: The loaded list is a set of pairs of package and process. Adding a valid pair puts it in and says so
  exactly if it was there before; a pair that is not valid changes nothing; removing takes out a pair, or
  all of a package, and says so exactly if there was none. Nothing else comes in or goes.
\<close>

theorem list_refines_set:
  assumes "agrees ids inst env" and "loaded ids inst s"
  shows "let p = (pkg, if proc = [] then pkg else proc); X = (if proc = [] then {pkg} \<times> UNIV else {(pkg, proc)}) in
    (\<not> validate (fst p) (snd p) \<longrightarrow> add_list env pkg proc s db = Some (D_INVALID_PKG, s, db)) \<and>
    (validate (fst p) (snd p) \<longrightarrow> (\<exists>r s' db'. add_list env pkg proc s db = Some (r, s', db') \<and>
      hide_set s' = insert p (hide_set s) \<and> (r = D_ITEM_EXIST \<longleftrightarrow> p \<in> hide_set s))) \<and>
    (\<exists>r s' db'. rm_list env pkg proc s db = Some (r, s', db') \<and>
      hide_set s' = hide_set s - X \<and> (r = D_ITEM_NOT_EXIST \<longleftrightarrow> X \<inter> hide_set s = {}))"
  unfolding Let_def fst_conv snd_conv
proof (intro conjI impI)
  assume "\<not> validate pkg (if proc = [] then pkg else proc)"
  then show "add_list env pkg proc s db = Some (D_INVALID_PKG, s, db)" by (simp add: add_list_def Let_def)
next
  assume "validate pkg (if proc = [] then pkg else proc)"
  from add_list_set [OF assms this, of db]
  show "\<exists>r s' db'. add_list env pkg proc s db = Some (r, s', db') \<and>
      hide_set s' = insert (pkg, if proc = [] then pkg else proc) (hide_set s) \<and>
      (r = D_ITEM_EXIST \<longleftrightarrow> (pkg, if proc = [] then pkg else proc) \<in> hide_set s)"
    by (elim exE conjE) (intro exI conjI)
next
  show "\<exists>r s' db'. rm_list env pkg proc s db = Some (r, s', db') \<and>
      hide_set s' = hide_set s - (if proc = [] then {pkg} \<times> UNIV else {(pkg, proc)}) \<and>
      (r = D_ITEM_NOT_EXIST \<longleftrightarrow> (if proc = [] then {pkg} \<times> UNIV else {(pkg, proc)}) \<inter> hide_set s = {})"
    using rm_list_set [OF assms refl, of pkg proc db] by (elim exE conjE) (intro exI conjI)
qed

lemma sample_loaded: "loaded (\<lambda>_. 10123) {''a.b''} (listed deny_start)"
  by (auto simp: loaded_def listed_def deny_start_def table_ok_def map_wf_def live_def split: if_splits)

theorem list_refines_set_witness:
  "agrees (\<lambda>_. 10123) {''a.b''} (sample_apps [(''0/a.b'', 10123)]) \<and> loaded (\<lambda>_. 10123) {''a.b''} (listed deny_start) \<and>
   (\<exists>r s' db'. rm_list (sample_apps [(''0/a.b'', 10123)]) ''a.b'' [] (listed deny_start) () = Some (r, s', db') \<and>
      hide_set s' = hide_set (listed deny_start) - {''a.b''} \<times> UNIV \<and>
      (r = D_ITEM_NOT_EXIST \<longleftrightarrow> {''a.b''} \<times> UNIV \<inter> hide_set (listed deny_start) = {}))"
  using list_refines_set [OF sample_agrees sample_loaded, of "''a.b''" "[]" "()"] sample_agrees sample_loaded
  by (simp add: Let_def)

section \<open>Asking\<close>

lemma any_counts_found:
  "\<forall>p\<in>set pkgs. map_of m p \<noteq> None \<Longrightarrow> pkg \<in> set pkgs \<Longrightarrow> proc \<in> set (procs_of m pkg) \<Longrightarrow> any_counts m pkgs proc = Some True"
  by (induction pkgs) (auto simp: procs_of_def split: option.splits)

text \<open>C24: An item that was added is a target: after a package with a data directory is added, every app with
  its app id that runs the process is one, as long as no rescan is due.
\<close>

theorem added_is_target:
  assumes "agrees ids inst env" and "loaded ids inst s" and "pkg \<in> inst" and "ids pkg < 90000" and "skip_pkg_rescan s"
    and "add_list env pkg proc s db = Some (D_OK, s', db')" and "to_app_id uid = ids pkg" and "ids pkg \<noteq> -1"
  shows "is_deny_target env rust uid (if proc = [] then pkg else proc) max_len s' db' = Some (True, s')"
proof -
  define proc' where "proc' = (if proc = [] then pkg else proc)"
  have v: "validate pkg proc'" using assms(6) by (auto simp: add_list_def proc'_def Let_def split: if_splits)
  have a: "loaded ids inst s'" "skip_pkg_rescan s'" "(pkg, proc') \<in> hide_set s'" "\<exists>a. app_id_to_pkgs s' = Some a \<and> viewed a (ids pkg) pkg"
    using add_list_set [OF assms(1,2) v [unfolded proc'_def], of db] assms(3,5,6) by (auto simp: proc'_def)
  obtain m a ps where s: "pkg_to_procs s' = Some m" "app_id_to_pkgs s' = Some a" "live ids inst m a"
      "map_of a (ids pkg) = Some (Some ps)" "pkg \<in> set ps"
    using a(1,4) by (auto simp: loaded_def viewed_def)
  have "\<forall>p\<in>set ps. map_of m p \<noteq> None" using live_get [OF s(3,4)] by auto
  moreover have "proc' \<in> set (procs_of m pkg)" using a(3) s(1) by (simp add: hide_set_def)
  ultimately have "any_counts m ps proc' = Some True" using s(5) by (intro any_counts_found)
  then have "list_target (ids pkg) proc' max_len s' = Some True" using s assms(4) by (simp add: list_target_def)
  then show ?thesis
    using a(2) assms(7,8) unfolding proc'_def [symmetric]
    by (simp add: is_deny_target_def ensure_loaded [OF a(1)] get_manager_def)
qed


definition asked :: deny where
  "asked = deny_start\<lparr>pkg_to_procs := Some [], app_id_to_pkgs := Some [], skip_pkg_rescan := True\<rparr>"

theorem added_is_target_witness:
  "is_deny_target (sample_apps [(''0/a.b'', 10123)]) (\<lambda>_ _. (-1, [])) 1010123 ''a.b'' 95
     (listed (asked)) () = Some (True, listed asked)"
proof -
  have "loaded (\<lambda>_. 10123) {''a.b''} asked"
    by (auto simp: loaded_def asked_def deny_start_def table_ok_def map_wf_def live_def)
  moreover have "add_list (sample_apps [(''0/a.b'', 10123)]) ''a.b'' [] asked () = Some (D_OK, listed asked, ())" by code_simp
  ultimately show ?thesis
    using added_is_target [OF sample_agrees, of asked "''a.b''" "[]" "()" "listed asked" "()" 1010123]
    by (simp add: asked_def to_app_id_def)
qed

section \<open>The list on the wire\<close>

lemma fold_write_strings: "fold (write_string 0) ls out = out @ concat (map (\<lambda>l. write_string 0 l []) ls)"
  by (induction ls arbitrary: out) (simp_all add: write_string_def write_int_def)

lemma cli_list_reads:
  assumes "\<forall>l\<in>set ls. l \<noteq> [] \<and> length l < 2 ^ 31"
  shows "cli_list (concat (map (\<lambda>l. write_string 0 l []) ls) @ write_string 0 [] []) = Some (Done (map c_str ls))"
  using assms
proof (induction ls)
  case Nil
  then show ?case using read_write_string [of 0 "[]" "[]"] by (simp add: cli_list.simps)
next
  case (Cons l ls)
  let ?rest = "concat (map (\<lambda>l. write_string 0 l []) ls) @ write_string 0 [] []"
  have "read_string (write_string 0 l [] @ ?rest) = Done (Some l, ?rest)" using Cons.prems by (intro read_write_string) simp_all
  then show ?case using Cons by (subst cli_list.simps) simp
qed

text \<open>C16: What \<open>ls\<close> prints is the list: the client reads back from the daemon's bytes exactly the pairs that are
  in the table once what is not installed has been removed, in its order, and returns 0.
\<close>

theorem ls_prints_list:
  assumes "ls_list env s db = Some ((out, True), s', db')" and "pkg_to_procs s' = Some m"
    and "\<forall>(pkg, procs)\<in>set m. \<forall>proc\<in>set procs. length pkg + length proc < 2 ^ 31 - 1 \<and> CHR 0x00 \<notin> set pkg \<union> set proc"
  shows "cli_result (request_code LIST) out = Some (Done (list_items m, 0))"
proof -
  have out: "out = le32 0 @ concat (map (\<lambda>l. write_string 0 l []) (list_items m)) @ write_string 0 [] []"
    using assms(1,2) by (auto simp: ls_list_def write_int_def write_string_def bytes_of_def response_code_def fold_write_strings
      split: bind_splits if_splits prod.splits)
  have "\<forall>l\<in>set (list_items m). l \<noteq> [] \<and> length l < 2 ^ 31" using assms(3) by (fastforce simp: list_items_def)
  from cli_list_reads [OF this] have r: "cli_list (concat (map (\<lambda>l. write_string 0 l []) (list_items m)) @ write_string 0 [] []) =
    Some (Done (map c_str (list_items m)))" .
  have "map c_str (list_items m) = list_items m"
    using assms(3) by (intro map_idI c_str_no_nul) (fastforce simp: list_items_def)
  then show ?thesis
    using r read_write_int [of 0] by (simp add: out cli_result_def responses_def request_code_def)
qed

theorem ls_prints_list_witness:
  "\<exists>out. ls_list (sample_apps [(''0/a.b'', 10123)]) (listed deny_start) () = Some ((out, True), listed deny_start, ()) \<and>
     cli_result (request_code LIST) out = Some (Done ([''a.b|a.b''], 0))"
proof -
  have "rm_stale (sample_apps [(''0/a.b'', 10123)]) (listed deny_start) () = Some (listed deny_start, ())" by code_simp
  moreover have "ensure_data (sample_apps [(''0/a.b'', 10123)]) () (listed deny_start) = Some (True, listed deny_start)" by code_simp
  moreover have m: "pkg_to_procs (listed deny_start) = Some [(''a.b'', [''a.b''])]" by (simp add: listed_def)
  ultimately obtain out where
    out: "ls_list (sample_apps [(''0/a.b'', 10123)]) (listed deny_start) () = Some ((out, True), listed deny_start, ())"
    by (simp add: ls_list_def)
  then show ?thesis using ls_prints_list [OF out m] by (simp add: list_items_def)
qed

lemma crawl_procfs_app: "crawl_procfs env fn s = Some s' \<Longrightarrow> app_id_to_pkgs s' = app_id_to_pkgs s"
  by (auto simp: crawl_procfs_def split: if_splits bind_splits)

lemma add_hide_set_app: "add_hide_set env pkg proc s = Some (b, s') \<Longrightarrow> app_id_to_pkgs s' = app_id_to_pkgs s"
  by (auto simp: add_hide_set_def Let_def kill_process_def dest!: crawl_procfs_app split: if_splits bind_splits)

text \<open>C39: When zygote restarts the daemon rescans the apps without loading the list first. While it is not
  loaded (hiding is off and no question was asked) the rescan goes through a null pointer.
\<close>

theorem zygote_restart_unloaded:
  assumes "app_id_to_pkgs s = None"
  shows "scan_deny_apps env db s = None"
  using assms by (auto simp: scan_deny_apps_def rescan_apps_def Let_def dest: add_hide_set_app split: if_splits bind_splits)

theorem zygote_restart_unloaded_witness: "scan_deny_apps (sample_apps []) () deny_start = None"
  by (rule zygote_restart_unloaded) (simp add: deny_start_def)

text \<open>Adding or removing with no package on the command line reads a null pointer.\<close>

theorem cli_missing_package:
  "word \<in> {''add'', ''rm''} \<Longrightarrow> \<exists>req. cli_request [argv0, word] = Ask req \<and> cli_message [argv0, word] req = None"
  by (auto simp: cli_request_def cli_message_def)

end
