(* ===== verification/Spec2Isabelle.thy ===== *)
theory Spec2Isabelle
  imports Boot_Repack Core_Deny_Runs
begin

text \<open>
  Verification of the native (C++) part of the kitsune fork of Magisk.
\<close>

end
